(* ===== verification/Prelude.thy ===== *)
theory Prelude
  imports Main
begin

text \<open>
  Shared ground of the development: fallible results (the Rust \<open>Result\<close> with its
  question-mark operator), actions that thread a state through fallible calls, a small
  Hoare calculus for such actions, and the two generic interfaces that several
  components meet: a system of steps with an invariant, and a cycle of positions that a
  forward and a backward operation walk through.
\<close>

named_theorems res_simps \<open>evaluation of results and of actions\<close>
named_theorems hoare_rules \<open>Hoare rules of the action combinators and of the primitives\<close>


section \<open>Results\<close>

text \<open>\<open>Inl e\<close> is Rust's \<open>Err(e)\<close> and \<open>Inr a\<close> is \<open>Ok(a)\<close>.\<close>

definition bind_res :: "'e + 'a \<Rightarrow> ('a \<Rightarrow> 'e + 'b) \<Rightarrow> 'e + 'b" where
  "bind_res r f = (case r of Inl e \<Rightarrow> Inl e | Inr a \<Rightarrow> f a)"

definition map_err :: "('e \<Rightarrow> 'f) \<Rightarrow> 'e + 'a \<Rightarrow> 'f + 'a" where
  "map_err f r = (case r of Inl e \<Rightarrow> Inl (f e) | Inr a \<Rightarrow> Inr a)"

definition is_ok :: "'e + 'a \<Rightarrow> bool" where
  "is_ok r = (case r of Inl _ \<Rightarrow> False | Inr _ \<Rightarrow> True)"

lemma bind_res_simps [simp, res_simps]:
  "bind_res (Inl e) f = Inl e"
  "bind_res (Inr a) f = f a"
  by (simp_all add: bind_res_def)

lemma map_err_simps [simp, res_simps]:
  "map_err g (Inl e) = Inl (g e)"
  "map_err g (Inr a) = Inr a"
  by (simp_all add: map_err_def)

lemma is_ok_simps [simp, res_simps]:
  "is_ok (Inl e) = False"
  "is_ok (Inr a) = True"
  by (simp_all add: is_ok_def)

lemma bind_res_Inr_iff:
  "bind_res r f = Inr b \<longleftrightarrow> (\<exists>a. r = Inr a \<and> f a = Inr b)"
  by (cases r) auto

lemma map_err_Inr_iff [simp]: "map_err f r = Inr a \<longleftrightarrow> r = Inr a"
  by (cases r) auto

lemma is_ok_map_err [simp]: "is_ok (map_err f r) = is_ok r"
  by (cases r) auto

lemma is_ok_iff: "is_ok r \<longleftrightarrow> (\<exists>a. r = Inr a)"
  by (cases r) auto


section \<open>Actions on a state\<close>

text \<open>
  A fallible call on mutable state takes the state and returns its result with the state
  it leaves behind, also when it fails. \<open>bindA\<close> is the sequence \<open>let x = m?; f(x)\<close>.
\<close>

type_synonym ('s, 'e, 'a) act = "'s \<Rightarrow> ('e + 'a) \<times> 's"

definition retA :: "'a \<Rightarrow> ('s, 'e, 'a) act" where
  "retA a = (\<lambda>s. (Inr a, s))"

definition failA :: "'e \<Rightarrow> ('s, 'e, 'a) act" where
  "failA e = (\<lambda>s. (Inl e, s))"

definition bindA :: "('s, 'e, 'a) act \<Rightarrow> ('a \<Rightarrow> ('s, 'e, 'b) act) \<Rightarrow> ('s, 'e, 'b) act" where
  "bindA m f = (\<lambda>s. case m s of (Inl e, s') \<Rightarrow> (Inl e, s') | (Inr a, s') \<Rightarrow> f a s')"

text \<open>\<open>mapErrA\<close> rewrites the error of a call (\<open>map_err\<close>, \<open>with_context\<close>).\<close>

definition mapErrA :: "('e \<Rightarrow> 'f) \<Rightarrow> ('s, 'e, 'a) act \<Rightarrow> ('s, 'f, 'a) act" where
  "mapErrA g m = (\<lambda>s. case m s of (r, s') \<Rightarrow> (map_err g r, s'))"

text \<open>\<open>attemptA\<close> hands the whole result to the caller, as a \<open>match\<close> on a call does.\<close>

definition attemptA :: "('s, 'e, 'a) act \<Rightarrow> ('s, 'f, 'e + 'a) act" where
  "attemptA m = (\<lambda>s. case m s of (r, s') \<Rightarrow> (Inr r, s'))"

definition liftA :: "'e + 'a \<Rightarrow> ('s, 'e, 'a) act" where
  "liftA r = (\<lambda>s. (r, s))"

lemma act_simps [res_simps]:
  "retA a s = (Inr a, s)"
  "failA e s = (Inl e, s)"
  "liftA r s = (r, s)"
  "m s = (Inl e, s') \<Longrightarrow> bindA m f s = (Inl e, s')"
  "m s = (Inr a, s') \<Longrightarrow> bindA m f s = f a s'"
  "m s = (r, s') \<Longrightarrow> mapErrA g m s = (map_err g r, s')"
  "m s = (r, s') \<Longrightarrow> attemptA m s = (Inr r, s')"
  by (simp_all add: retA_def failA_def liftA_def bindA_def mapErrA_def attemptA_def)

lemma bindA_ret_left [simp]: "bindA (retA a) f = f a"
  by (rule ext) (simp add: bindA_def retA_def)

lemma bindA_lift_left [simp]: "bindA (liftA (Inr a)) f = f a"
  by (rule ext) (simp add: bindA_def liftA_def)

lemma bindA_cases:
  assumes "bindA m f s = (r, t)"
  obtains (fail) e where "m s = (Inl e, t)" and "r = Inl e"
  | (ok) a s' where "m s = (Inr a, s')" and "f a s' = (r, t)"
  using assms unfolding bindA_def by (auto split: prod.splits sum.splits)

lemma bindA_ok:
  assumes "bindA m f s = (Inr b, t)"
  obtains a s' where "m s = (Inr a, s')" and "f a s' = (Inr b, t)"
  using assms by (rule bindA_cases) auto

lemma mapErrA_ok [simp]: "mapErrA g m s = (Inr a, t) \<longleftrightarrow> m s = (Inr a, t)"
  by (auto simp: mapErrA_def split: prod.splits)

lemma mapErrA_cases:
  assumes "mapErrA g m s = (r, t)"
  obtains r' where "m s = (r', t)" and "r = map_err g r'"
  using assms by (auto simp: mapErrA_def split: prod.splits)

lemma attemptA_eq: "attemptA m s = (Inr (fst (m s)), snd (m s))"
  by (simp add: attemptA_def split: prod.splits)

lemma attemptA_cases:
  assumes "attemptA m s = (r, t)"
  obtains r' where "m s = (r', t)" and "r = Inr r'"
  using assms by (auto simp: attemptA_def split: prod.splits)


section \<open>Hoare triples for actions\<close>

text \<open>
  \<open>hoare P m Q E\<close>: from a state in \<open>P\<close>, an \<open>Ok(a)\<close> leaves a state in \<open>Q a\<close> and an
  \<open>Err(e)\<close> a state in \<open>E e\<close>.
\<close>

definition hoare ::
  "('s \<Rightarrow> bool) \<Rightarrow> ('s, 'e, 'a) act \<Rightarrow> ('a \<Rightarrow> 's \<Rightarrow> bool) \<Rightarrow> ('e \<Rightarrow> 's \<Rightarrow> bool) \<Rightarrow> bool" where
  "hoare P m Q E \<longleftrightarrow>
     (\<forall>s. P s \<longrightarrow> (case m s of (Inr a, s') \<Rightarrow> Q a s' | (Inl e, s') \<Rightarrow> E e s'))"

lemma hoareI:
  assumes "\<And>s a s'. P s \<Longrightarrow> m s = (Inr a, s') \<Longrightarrow> Q a s'"
    and "\<And>s e s'. P s \<Longrightarrow> m s = (Inl e, s') \<Longrightarrow> E e s'"
  shows "hoare P m Q E"
  using assms by (auto simp: hoare_def split: prod.splits sum.splits)

lemma hoareD_ok: "hoare P m Q E \<Longrightarrow> P s \<Longrightarrow> m s = (Inr a, s') \<Longrightarrow> Q a s'"
  by (fastforce simp: hoare_def)

lemma hoareD_err: "hoare P m Q E \<Longrightarrow> P s \<Longrightarrow> m s = (Inl e, s') \<Longrightarrow> E e s'"
  by (fastforce simp: hoare_def)

lemma hoare_ret [hoare_rules]: "hoare (Q a) (retA a) Q E"
  by (simp add: hoare_def retA_def)

lemma hoare_fail [hoare_rules]: "hoare (E e) (failA e) Q E"
  by (simp add: hoare_def failA_def)

lemma hoare_bind:
  assumes "hoare P m R E" and "\<And>a. hoare (R a) (f a) Q E"
  shows "hoare P (bindA m f) Q E"
proof (rule hoareI)
  fix s a s' assume "P s" and run: "bindA m f s = (Inr a, s')"
  from run obtain b u where "m s = (Inr b, u)" "f b u = (Inr a, s')" by (rule bindA_ok)
  moreover from assms(1) \<open>P s\<close> this(1) have "R b u" by (rule hoareD_ok)
  ultimately show "Q a s'" using assms(2) by (blast dest: hoareD_ok)
next
  fix s e s' assume "P s" and run: "bindA m f s = (Inl e, s')"
  from run show "E e s'"
  proof (cases rule: bindA_cases)
    case (fail e')
    with \<open>P s\<close> assms(1) show ?thesis by (auto intro: hoareD_err)
  next
    case (ok b u)
    from assms(1) \<open>P s\<close> ok(1) have "R b u" by (rule hoareD_ok)
    with assms(2) show ?thesis using ok(2) by (rule hoareD_err)
  qed
qed

lemma hoare_mapErr:
  assumes "hoare P m Q (\<lambda>e. E (g e))"
  shows "hoare P (mapErrA g m) Q E"
proof (rule hoareI)
  fix s a s' assume "P s" and "mapErrA g m s = (Inr a, s')"
  then have "m s = (Inr a, s')" by simp
  with assms \<open>P s\<close> show "Q a s'" by (rule hoareD_ok)
next
  fix s e s' assume "P s" and "mapErrA g m s = (Inl e, s')"
  then obtain e' where "m s = (Inl e', s')" "e = g e'"
    by (auto simp: mapErrA_def map_err_def split: prod.splits sum.splits)
  with hoareD_err [OF assms \<open>P s\<close>] show "E e s'" by simp
qed

lemma hoare_attempt:
  assumes "hoare P m (\<lambda>a. Q (Inr a)) (\<lambda>e. Q (Inl e))"
  shows "hoare P (attemptA m) Q E"
proof (rule hoareI)
  fix s r s' assume "P s" and "attemptA m s = (Inr r, s')"
  with assms show "Q r s'"
    by (cases r) (auto simp: attemptA_eq prod_eq_iff dest: hoareD_ok hoareD_err)
qed (simp add: attemptA_eq)

lemma hoare_conseq:
  assumes "hoare P m Q E" and "\<And>s. P' s \<Longrightarrow> P s"
    and "\<And>a s. Q a s \<Longrightarrow> Q' a s" and "\<And>e s. E e s \<Longrightarrow> E' e s"
  shows "hoare P' m Q' E'"
  using assms by (fastforce simp: hoare_def split: prod.splits sum.splits)

lemma hoare_any: "hoare P m Q E \<Longrightarrow> hoare P m Q (\<lambda>_ _. True)"
  by (erule hoare_conseq) simp_all

text \<open>An action keeps a predicate when it holds again whether the action fails or not.\<close>

abbreviation keeps :: "('s \<Rightarrow> bool) \<Rightarrow> ('s, 'e, 'a) act \<Rightarrow> bool" where
  "keeps P m \<equiv> hoare P m (\<lambda>_. P) (\<lambda>_. P)"

lemma keeps_ret [hoare_rules]: "keeps P (retA a)"
  by (simp add: hoare_def retA_def)

lemma keeps_fail [hoare_rules]: "keeps P (failA e)"
  by (simp add: hoare_def failA_def)

lemma keeps_lift [hoare_rules]: "keeps P (liftA r)"
  by (auto simp: hoare_def liftA_def split: sum.splits)

lemma keeps_bind [hoare_rules]:
  "keeps P m \<Longrightarrow> (\<And>a. keeps P (f a)) \<Longrightarrow> keeps P (bindA m f)"
  by (rule hoare_bind)

lemma keeps_mapErr [hoare_rules]: "keeps P m \<Longrightarrow> keeps P (mapErrA g m)"
  by (rule hoare_mapErr)

lemma keeps_attempt [hoare_rules]: "keeps P m \<Longrightarrow> keeps P (attemptA m)"
  by (rule hoare_attempt)

lemma keeps_if [hoare_rules]: "keeps P m \<Longrightarrow> keeps P m' \<Longrightarrow> keeps P (if b then m else m')"
  by simp

lemma keepsD: "keeps P m \<Longrightarrow> P s \<Longrightarrow> P (snd (m s))"
  by (cases "m s"; cases "fst (m s)") (auto simp: hoare_def)


section \<open>Step systems\<close>

text \<open>
  The interface of a component that runs as a state machine: a step relation and an
  invariant that every step keeps. Every state reached from an invariant state is again
  an invariant state.
\<close>

locale step_system =
  fixes step :: "'s \<Rightarrow> 's \<Rightarrow> bool"
    and inv :: "'s \<Rightarrow> bool"
  assumes step_inv: "inv s \<Longrightarrow> step s t \<Longrightarrow> inv t"
begin

lemma steps_inv: "step\<^sup>*\<^sup>* s t \<Longrightarrow> inv s \<Longrightarrow> inv t"
  by (induction rule: rtranclp_induct) (auto intro: step_inv)

lemma steps_from:
  assumes "inv s" and "\<And>t. inv t \<Longrightarrow> goal t" and "step\<^sup>*\<^sup>* s t"
  shows "goal t"
  using assms by (blast intro: steps_inv)

end

text \<open>A step system whose steps decrease a measure reaches a state with no step.\<close>

locale measured_step_system = step_system step inv
  for step :: "'s \<Rightarrow> 's \<Rightarrow> bool" and inv :: "'s \<Rightarrow> bool" +
  fixes weight :: "'s \<Rightarrow> nat"
  assumes step_weight: "inv s \<Longrightarrow> step s t \<Longrightarrow> weight t < weight s"
begin

lemma reaches_final: "inv s \<Longrightarrow> \<exists>t. step\<^sup>*\<^sup>* s t \<and> \<not> (\<exists>u. step t u)"
proof (induction "weight s" arbitrary: s rule: less_induct)
  case less
  show ?case
  proof (cases "\<exists>u. step s u")
    case True
    then obtain u where u: "step s u" by blast
    with less.prems have "weight u < weight s" "inv u"
      by (auto intro: step_weight step_inv)
    then obtain t where "step\<^sup>*\<^sup>* u t" "\<not> (\<exists>v. step t v)" using less.hyps by blast
    with u show ?thesis by (blast intro: converse_rtranclp_into_rtranclp)
  next
    case False
    then show ?thesis by blast
  qed
qed

lemma run_length: "(step ^^ n) s t \<Longrightarrow> inv s \<Longrightarrow> inv t \<and> n + weight t \<le> weight s"
proof (induction n arbitrary: t)
  case 0
  then show ?case by simp
next
  case (Suc n)
  then obtain u where u: "(step ^^ n) s u" "step u t" by auto
  with Suc have "inv u \<and> n + weight u \<le> weight s" by blast
  with u(2) step_weight [of u t] step_inv [of u t] show ?case by auto
qed

end


section \<open>Cycles\<close>

text \<open>
  The interface of a focus that two keys move around a finite ring: the two operations
  undo each other.
\<close>

locale cycle =
  fixes nxt :: "'p \<Rightarrow> 'p"
    and prv :: "'p \<Rightarrow> 'p"
    and dom :: "'p \<Rightarrow> bool"
  assumes prv_nxt: "dom p \<Longrightarrow> prv (nxt p) = p"
    and nxt_prv: "dom p \<Longrightarrow> nxt (prv p) = p"
    and dom_nxt: "dom p \<Longrightarrow> dom (nxt p)"
    and dom_prv: "dom p \<Longrightarrow> dom (prv p)"
begin

lemma dom_iter: "dom p \<Longrightarrow> dom ((nxt ^^ n) p)"
  by (induction n) (auto intro: dom_nxt)

lemma iter_cancel: "dom p \<Longrightarrow> (prv ^^ n) ((nxt ^^ n) p) = p"
proof (induction n)
  case 0
  then show ?case by simp
next
  case (Suc n)
  then have "(prv ^^ n) (prv (nxt ((nxt ^^ n) p))) = p"
    using prv_nxt [OF dom_iter [OF Suc.prems, of n]] by simp
  then show ?case by (simp add: funpow_swap1)
qed

end

end
