(* ===== verification/Text.thy ===== *)
theory Text
  imports Prelude "HOL-Library.Word"
begin

text \<open>
  Rust strings. A \<open>str\<close> is the list of its Unicode scalar values; its bytes are the UTF-8
  encoding, which is what \<open>len()\<close> counts and what \<open>into_bytes()\<close> returns. The theory holds
  the encoder and a strict decoder (\<open>String::from_utf8\<close>), the character classes and the
  string operations of the standard library that the program calls, and decimal
  formatting.
\<close>

type_synonym rstr = "nat list"
type_synonym byte = "8 word"

text \<open>An ASCII string literal.\<close>

definition lit :: "string \<Rightarrow> rstr" where
  "lit s = map of_char s"

definition scalar :: "nat \<Rightarrow> bool" where
  "scalar c \<longleftrightarrow> c < 0xD800 \<or> (0xE000 \<le> c \<and> c < 0x110000)"

definition valid_str :: "rstr \<Rightarrow> bool" where
  "valid_str s \<longleftrightarrow> list_all scalar s"

lemma valid_str_simps [simp]:
  "valid_str []"
  "valid_str (c # s) \<longleftrightarrow> scalar c \<and> valid_str s"
  "valid_str (s @ t) \<longleftrightarrow> valid_str s \<and> valid_str t"
  by (simp_all add: valid_str_def)

lemma scalar_numeral [simp]:
  "scalar (numeral k) \<longleftrightarrow>
     (numeral k :: nat) < 0xD800 \<or> ((0xE000 :: nat) \<le> numeral k \<and> (numeral k :: nat) < 0x110000)"
  by (simp add: scalar_def)

lemma lit_simps [simp]:
  "lit [] = []"
  "lit (c # s) = of_char c # lit s"
  by (simp_all add: lit_def)

lemma valid_str_lit [simp]: "valid_str (lit s)"
proof (induction s)
  case (Cons c s)
  have "(of_char c :: nat) < 256" by simp
  then have "scalar (of_char c)" unfolding scalar_def by linarith
  with Cons show ?case by simp
qed simp


section \<open>UTF-8\<close>

definition utf8_char :: "nat \<Rightarrow> nat list" where
  "utf8_char c =
     (if c < 0x80 then [c]
      else if c < 0x800 then [0xC0 + c div 64, 0x80 + c mod 64]
      else if c < 0x10000 then [0xE0 + c div 4096, 0x80 + c div 64 mod 64, 0x80 + c mod 64]
      else [0xF0 + c div 262144, 0x80 + c div 4096 mod 64,
            0x80 + c div 64 mod 64, 0x80 + c mod 64])"

definition utf8_nats :: "rstr \<Rightarrow> nat list" where
  "utf8_nats s = concat (map utf8_char s)"

definition utf8 :: "rstr \<Rightarrow> byte list" where
  "utf8 s = map of_nat (utf8_nats s)"

text \<open>\<open>str::len\<close> counts bytes.\<close>

definition byte_len :: "rstr \<Rightarrow> nat" where
  "byte_len s = length (utf8 s)"

definition cont :: "nat \<Rightarrow> bool" where
  "cont b \<longleftrightarrow> 0x80 \<le> b \<and> b < 0xC0"

text \<open>One character off the front of a byte sequence, refusing overlong forms and surrogates.\<close>

definition utf8_step :: "nat list \<Rightarrow> (nat \<times> nat list) option" where
  "utf8_step bs = (case bs of [] \<Rightarrow> None | a # r \<Rightarrow>
     if a < 0x80 then Some (a, r)
     else if 0xC2 \<le> a \<and> a < 0xE0 then
       (case r of b # r' \<Rightarrow> if cont b then Some ((a - 0xC0) * 64 + (b - 0x80), r') else None
        | _ \<Rightarrow> None)
     else if 0xE0 \<le> a \<and> a < 0xF0 then
       (case r of b # c # r' \<Rightarrow>
          let v = (a - 0xE0) * 4096 + (b - 0x80) * 64 + (c - 0x80)
          in if cont b \<and> cont c \<and> 0x800 \<le> v \<and> scalar v then Some (v, r') else None
        | _ \<Rightarrow> None)
     else if 0xF0 \<le> a \<and> a < 0xF5 then
       (case r of b # c # d # r' \<Rightarrow>
          let v = (a - 0xF0) * 262144 + (b - 0x80) * 4096 + (c - 0x80) * 64 + (d - 0x80)
          in if cont b \<and> cont c \<and> cont d \<and> 0x10000 \<le> v \<and> scalar v then Some (v, r') else None
        | _ \<Rightarrow> None)
     else None)"

lemma utf8_step_shorter: "utf8_step bs = Some (c, r) \<Longrightarrow> length r < length bs"
  unfolding utf8_step_def
  by (auto simp: Let_def split: list.splits if_splits)

function utf8_decode_nats :: "nat list \<Rightarrow> rstr option" where
  "utf8_decode_nats bs =
     (if bs = [] then Some []
      else case utf8_step bs of
        None \<Rightarrow> None
      | Some (c, r) \<Rightarrow> map_option (Cons c) (utf8_decode_nats r))"
  by pat_completeness auto
termination
  by (relation "measure length") (auto dest: utf8_step_shorter)

declare utf8_decode_nats.simps [simp del]

definition utf8_decode :: "byte list \<Rightarrow> rstr option" where
  "utf8_decode bs = utf8_decode_nats (map unat bs)"

lemma utf8_char_bytes: "scalar c \<Longrightarrow> b \<in> set (utf8_char c) \<Longrightarrow> b < 256"
  by (auto simp: utf8_char_def scalar_def split: if_splits)

lemma utf8_char_nonempty [simp]: "utf8_char c \<noteq> []"
  by (simp add: utf8_char_def)

lemma two_byte: "(c::nat) div 64 * 64 + c mod 64 = c"
  by simp

lemma three_byte: "(c::nat) div 4096 * 4096 + c div 64 mod 64 * 64 + c mod 64 = c"
proof -
  have "c div 4096 = c div 64 div 64" by (simp add: div_mult2_eq [symmetric])
  then have "c div 4096 * 64 + c div 64 mod 64 = c div 64" by (simp only: div_mult_mod_eq)
  moreover have "c div 64 * 64 + c mod 64 = c" by (rule div_mult_mod_eq)
  ultimately show ?thesis by linarith
qed

lemma four_byte:
  "(c::nat) div 262144 * 262144 + c div 4096 mod 64 * 4096 + c div 64 mod 64 * 64 + c mod 64 = c"
proof -
  have "c div 262144 = c div 4096 div 64" by (simp add: div_mult2_eq [symmetric])
  then have "c div 262144 * 64 + c div 4096 mod 64 = c div 4096" by (simp only: div_mult_mod_eq)
  with three_byte [of c] show ?thesis by linarith
qed

lemma utf8_step_char:
  assumes "scalar c"
  shows "utf8_step (utf8_char c @ r) = Some (c, r)"
proof -
  consider "c < 0x80" | "0x80 \<le> c" "c < 0x800" | "0x800 \<le> c" "c < 0x10000"
    | "0x10000 \<le> c" "c < 0x110000"
  proof -
    have "c < 0x110000" using assms by (auto simp: scalar_def)
    with that show thesis by (meson not_less)
  qed
  then show ?thesis
  proof cases
    case 1
    then show ?thesis by (simp add: utf8_char_def utf8_step_def)
  next
    case 2
    then have "2 \<le> c div 64" "c div 64 < 32" "c mod 64 < 64" by auto
    with 2 show ?thesis
      by (simp add: utf8_char_def utf8_step_def cont_def)
  next
    case 3
    then have "c div 4096 < 16" "c div 64 mod 64 < 64" "c mod 64 < 64" by auto
    with 3 assms show ?thesis
      by (simp add: utf8_char_def utf8_step_def cont_def Let_def three_byte)
  next
    case 4
    then have "c div 262144 < 5" "c div 4096 mod 64 < 64" "c div 64 mod 64 < 64" "c mod 64 < 64"
      by auto
    with 4 assms show ?thesis
      by (simp add: utf8_char_def utf8_step_def cont_def Let_def four_byte)
  qed
qed

lemma utf8_decode_nats_Nil [simp]: "utf8_decode_nats [] = Some []"
  by (simp add: utf8_decode_nats.simps)

lemma utf8_decode_nats_utf8: "valid_str s \<Longrightarrow> utf8_decode_nats (utf8_nats s) = Some s"
proof (induction s)
  case (Cons c s)
  then have "utf8_step (utf8_char c @ utf8_nats s) = Some (c, utf8_nats s)"
    by (simp add: utf8_step_char)
  with Cons show ?case
    by (subst utf8_decode_nats.simps) (simp add: utf8_nats_def)
qed (simp add: utf8_nats_def)

lemma unat_of_byte: "b < 256 \<Longrightarrow> unat (of_nat b :: byte) = b"
  by (simp add: unat_of_nat)

lemma unat_utf8: "valid_str s \<Longrightarrow> map unat (utf8 s) = utf8_nats s"
  unfolding utf8_def map_map
  by (rule map_idI) (auto simp: utf8_nats_def valid_str_def list_all_iff
      intro!: unat_of_byte dest: utf8_char_bytes)

lemma utf8_decode_utf8 [simp]: "valid_str s \<Longrightarrow> utf8_decode (utf8 s) = Some s"
  by (simp add: utf8_decode_def unat_utf8 utf8_decode_nats_utf8)

lemma utf8_inject: "valid_str s \<Longrightarrow> valid_str t \<Longrightarrow> utf8 s = utf8 t \<longleftrightarrow> s = t"
  by (metis utf8_decode_utf8 option.inject)

lemma utf8_append: "utf8 (s @ t) = utf8 s @ utf8 t"
  by (simp add: utf8_def utf8_nats_def)

lemma byte_len_append: "byte_len (s @ t) = byte_len s + byte_len t"
  by (simp add: byte_len_def utf8_append)

lemma byte_len_ge: "length s \<le> byte_len s"
proof (induction s)
  case (Cons c s)
  have "1 \<le> length (utf8_char c)" by (simp add: utf8_char_def)
  with Cons show ?case by (simp add: byte_len_def utf8_def utf8_nats_def)
qed simp


section \<open>Character classes\<close>

text \<open>\<open>char::is_whitespace\<close> is the Unicode property White\_Space.\<close>

definition is_whitespace :: "nat \<Rightarrow> bool" where
  "is_whitespace c \<longleftrightarrow>
     (0x09 \<le> c \<and> c \<le> 0x0D) \<or> c = 0x20 \<or> c = 0x85 \<or> c = 0xA0 \<or> c = 0x1680 \<or>
     (0x2000 \<le> c \<and> c \<le> 0x200A) \<or> c = 0x2028 \<or> c = 0x2029 \<or> c = 0x202F \<or> c = 0x205F \<or>
     c = 0x3000"

text \<open>\<open>char::is_control\<close> is the general category Cc.\<close>

definition is_control :: "nat \<Rightarrow> bool" where
  "is_control c \<longleftrightarrow> c < 0x20 \<or> (0x7F \<le> c \<and> c < 0xA0)"

definition ascii_lower :: "rstr \<Rightarrow> rstr" where
  "ascii_lower = map (\<lambda>c. if 65 \<le> c \<and> c \<le> 90 then c + 32 else c)"

definition ascii_upper :: "rstr \<Rightarrow> rstr" where
  "ascii_upper = map (\<lambda>c. if 97 \<le> c \<and> c \<le> 122 then c - 32 else c)"

definition eq_ignore_ascii_case :: "rstr \<Rightarrow> rstr \<Rightarrow> bool" where
  "eq_ignore_ascii_case s t \<longleftrightarrow> ascii_lower s = ascii_lower t"


text \<open>Facts that evaluate lengths and character classes on concrete text.\<close>

lemmas text_eval = byte_len_def utf8_def utf8_nats_def utf8_char_def is_whitespace_def is_control_def

section \<open>String operations\<close>

text \<open>\<open>str::trim\<close>.\<close>

definition trim :: "rstr \<Rightarrow> rstr" where
  "trim s = rev (dropWhile is_whitespace (rev (dropWhile is_whitespace s)))"

text \<open>\<open>str::split\<close> by one character: always at least one piece.\<close>

fun split_on :: "nat \<Rightarrow> rstr \<Rightarrow> rstr list" where
  "split_on d [] = [[]]"
| "split_on d (c # s) =
     (if c = d then [] # split_on d s
      else case split_on d s of [] \<Rightarrow> [[c]] | p # ps \<Rightarrow> (c # p) # ps)"

fun join_with :: "rstr \<Rightarrow> rstr list \<Rightarrow> rstr" where
  "join_with d [] = []"
| "join_with d [p] = p"
| "join_with d (p # q # ps) = p @ d @ join_with d (q # ps)"

fun starts_with :: "rstr \<Rightarrow> rstr \<Rightarrow> bool" where
  "starts_with [] s = True"
| "starts_with (p # ps) [] = False"
| "starts_with (p # ps) (c # s) = (p = c \<and> starts_with ps s)"

text \<open>\<open>str::contains\<close> of a substring.\<close>

fun contains_str :: "rstr \<Rightarrow> rstr \<Rightarrow> bool" where
  "contains_str p [] = (p = [])"
| "contains_str p (c # s) = (starts_with p (c # s) \<or> contains_str p s)"

lemma starts_with_append [simp]: "starts_with p (p @ s)"
  by (induction p) auto

lemma split_on_nonempty [simp]: "split_on d s \<noteq> []"
  by (induction s) (auto split: list.splits)

lemma split_on_no_sep: "d \<notin> set s \<Longrightarrow> split_on d s = [s]"
  by (induction s) auto

lemma split_on_append: "d \<notin> set s \<Longrightarrow> split_on d (s @ d # t) = s # split_on d t"
  by (induction s) auto

lemma join_split_on: "join_with [d] (split_on d s) = s"
proof (induction s)
  case (Cons c s)
  obtain p ps where p: "split_on d s = p # ps" by (cases "split_on d s") auto
  with Cons show ?case by (cases ps) auto
qed simp

lemma split_on_pieces: "p \<in> set (split_on d s) \<Longrightarrow> d \<notin> set p"
proof (induction s arbitrary: p)
  case (Cons c s)
  obtain q qs where "split_on d s = q # qs" by (cases "split_on d s") auto
  with Cons show ?case by (auto split: if_splits)
qed simp

lemma trim_no_ws: "list_all (\<lambda>c. \<not> is_whitespace c) s \<Longrightarrow> trim s = s"
proof -
  have *: "list_all (\<lambda>c. \<not> is_whitespace c) t \<Longrightarrow> dropWhile is_whitespace t = t" for t
    by (cases t) auto
  assume "list_all (\<lambda>c. \<not> is_whitespace c) s"
  then show ?thesis by (simp add: trim_def *)
qed

lemma trim_Nil [simp]: "trim [] = []"
  by (simp add: trim_def)

lemma dropWhile_rev_idem:
  "dropWhile P (rev (dropWhile P (rev (dropWhile P s)))) = rev (dropWhile P (rev (dropWhile P s)))"
proof (cases "dropWhile P s")
  case (Cons c t)
  then have "\<not> P c" using hd_dropWhile [of P s] by simp
  then have "rev (dropWhile P (rev (c # t))) = c # rev (dropWhile P (rev t))"
    by (simp add: dropWhile_append3 dropWhile_append split: if_splits)
  with Cons \<open>\<not> P c\<close> show ?thesis by simp
next
  case Nil
  then show ?thesis by (simp only: rev.simps dropWhile.simps)
qed

lemma trim_trim [simp]: "trim (trim s) = trim s"
proof -
  let ?d = "dropWhile is_whitespace"
  have "?d (trim s) = trim s" unfolding trim_def by (rule dropWhile_rev_idem)
  moreover have "?d (rev (trim s)) = rev (trim s)" unfolding trim_def by (simp add: dropWhile_idem)
  ultimately show ?thesis unfolding trim_def [of "trim s"] by simp
qed


section \<open>Decimal formatting\<close>

fun show_nat :: "nat \<Rightarrow> rstr" where
  "show_nat n = (if n < 10 then [48 + n] else show_nat (n div 10) @ [48 + n mod 10])"

declare show_nat.simps [simp del]

definition read_nat :: "rstr \<Rightarrow> nat" where
  "read_nat s = foldl (\<lambda>a d. a * 10 + (d - 48)) 0 s"

lemma read_show_nat [simp]: "read_nat (show_nat n) = n"
proof (induction n rule: show_nat.induct)
  case (1 n)
  then show ?case by (subst show_nat.simps) (simp add: read_nat_def)
qed

lemma show_nat_inject [simp]: "show_nat m = show_nat n \<longleftrightarrow> m = n"
  by (metis read_show_nat)

lemma show_nat_digits: "c \<in> set (show_nat n) \<Longrightarrow> 48 \<le> c \<and> c \<le> 57"
proof (induction n rule: show_nat.induct)
  case (1 n)
  then show ?case by (subst (asm) show_nat.simps) (auto split: if_splits)
qed

lemma show_nat_nonempty [simp]: "show_nat n \<noteq> []"
  by (subst show_nat.simps) simp

lemma valid_str_show_nat [simp]: "valid_str (show_nat n)"
proof -
  have "scalar c" if "c \<in> set (show_nat n)" for c
    using show_nat_digits [OF that] by (simp add: scalar_def)
  then show ?thesis by (simp add: valid_str_def list_all_iff)
qed

text \<open>The format widths \<open>{:<w}\<close>, \<open>{:>w}\<close> and \<open>{:0w}\<close>, which count characters.\<close>

definition pad_right :: "nat \<Rightarrow> rstr \<Rightarrow> rstr" where
  "pad_right w s = s @ replicate (w - length s) 32"

definition pad_left :: "nat \<Rightarrow> rstr \<Rightarrow> rstr" where
  "pad_left w s = replicate (w - length s) 32 @ s"

definition zero_pad :: "nat \<Rightarrow> nat \<Rightarrow> rstr" where
  "zero_pad w n = replicate (w - length (show_nat n)) 48 @ show_nat n"

lemma read_nat_zeros: "read_nat (replicate k 48 @ s) = read_nat s"
proof (induction k)
  case (Suc k)
  then show ?case by (simp add: read_nat_def)
qed simp

lemma read_zero_pad [simp]: "read_nat (zero_pad w n) = n"
  by (simp add: zero_pad_def read_nat_zeros)

end
