(* ===== verification/Errors.thy ===== *)
theory Errors
  imports Text
begin

text \<open>
  Errors. An \<open>anyhow::Error\<close> is a chain of causes, outermost first; \<open>context\<close> puts a
  message in front of it. A cause has the text it displays and, where the code looks for
  one by downcasting, the kind of library error it is. The enumerations of library errors
  carry the constructors that the source matches on.
\<close>

datatype io_kind =
    NotFound | PermissionDenied | ConnectionRefused | ConnectionReset | ConnectionAborted
  | NotConnected | AddrInUse | BrokenPipe | AlreadyExists | InvalidData | UnexpectedEof
  | Interrupted | WouldBlock | OtherIo

text \<open>iroh's \<open>ConnectionError\<close>; \<open>ApplicationClosed\<close> carries the peer's error code.\<close>

datatype conn_error =
    VersionMismatch | TransportError | ConnectionClosed | ApplicationClosed nat
  | Reset | TimedOut | LocallyClosed | CidsExhausted

datatype connecting_error =
    ConnectingConnectionError conn_error | InternalConsistencyError | HandshakeFailure
  | LocallyRejected | OtherConnecting

datatype connect_with_opts_error = NoAddress | OtherConnectWithOpts

datatype connect_error =
    Connect connect_with_opts_error | Connecting connecting_error | Connection conn_error

datatype cause_kind = Plain | IoKind io_kind | ConnKind conn_error | ConnectKind connect_error

datatype cause = Cause (cause_text: rstr) (cause_kind: cause_kind)

type_synonym error = "cause list"

definition msg :: "rstr \<Rightarrow> cause" where
  "msg t = Cause t Plain"

text \<open>\<open>bail!\<close> and \<open>anyhow!\<close>, and \<open>context\<close>.\<close>

definition anyhow :: "rstr \<Rightarrow> error" where
  "anyhow t = [msg t]"

definition context_err :: "rstr \<Rightarrow> error \<Rightarrow> error" where
  "context_err t e = msg t # e"

definition with_context :: "rstr \<Rightarrow> error + 'a \<Rightarrow> error + 'a" where
  "with_context t r = map_err (context_err t) r"

text \<open>An I/O error as the library reports it: its kind and its text.\<close>

datatype io_error = IoError (io_kind: io_kind) (io_text: rstr)

definition io_chain :: "io_error \<Rightarrow> error" where
  "io_chain e = [Cause (io_text e) (IoKind (io_kind e))]"

text \<open>\<open>{err}\<close> shows the outermost cause; \<open>{err:#}\<close> the whole chain.\<close>

definition display_err :: "error \<Rightarrow> rstr" where
  "display_err e = (case e of [] \<Rightarrow> [] | c # _ \<Rightarrow> cause_text c)"

definition display_chain :: "error \<Rightarrow> rstr" where
  "display_chain e = join_with (lit '': '') (map cause_text e)"

text \<open>\<open>chain().find_map(downcast_ref)\<close> for the two kinds the code looks for.\<close>

fun conn_of_kind :: "cause_kind \<Rightarrow> conn_error option" where
  "conn_of_kind (ConnKind e) = Some e"
| "conn_of_kind _ = None"

fun io_of_kind :: "cause_kind \<Rightarrow> io_kind option" where
  "io_of_kind (IoKind k) = Some k"
| "io_of_kind _ = None"

fun find_map :: "('a \<Rightarrow> 'b option) \<Rightarrow> 'a list \<Rightarrow> 'b option" where
  "find_map f [] = None"
| "find_map f (x # xs) = (case f x of Some y \<Rightarrow> Some y | None \<Rightarrow> find_map f xs)"

lemma find_map_None: "find_map f xs = None \<longleftrightarrow> (\<forall>x\<in>set xs. f x = None)"
  by (induction xs) (auto split: option.splits)

lemma find_map_append:
  "find_map f (xs @ ys) = (case find_map f xs of Some y \<Rightarrow> Some y | None \<Rightarrow> find_map f ys)"
  by (induction xs) (auto split: option.splits)

lemma display_context [simp]: "display_err (context_err t e) = t"
  by (simp add: display_err_def context_err_def msg_def)

lemma display_anyhow [simp]: "display_err (anyhow t) = t"
  by (simp add: display_err_def anyhow_def msg_def)

lemma with_context_simps [simp, res_simps]:
  "with_context t (Inl e) = Inl (context_err t e)"
  "with_context t (Inr a) = Inr a"
  by (simp_all add: with_context_def)

lemma with_context_Inr [simp]: "with_context t r = Inr a \<longleftrightarrow> r = Inr a"
  by (simp add: with_context_def)

lemma is_ok_with_context [simp]: "is_ok (with_context t r) = is_ok r"
  by (simp add: with_context_def)

end
