(* ===== verification/Remote_Path.thy ===== *)
theory Remote_Path
  imports Errors
begin

text \<open>
  Remote paths \<open><endpoint-id>/tcp/<service>\<close> (\<open>src/remote_path.rs\<close>): the service-name
  check, the parser, the ALPN bytes a service is negotiated under and the form the
  control interface prints. iroh's \<open>EndpointId\<close> is a type parameter; its parser and its
  printer are arguments of the definitions that call them.
\<close>

section \<open>Definitions\<close>

definition slash :: nat where
  "slash = 47"

definition quoted :: "rstr \<Rightarrow> rstr" where
  "quoted s = [39] @ s @ [39]"

definition max_service_name_len :: nat where
  "max_service_name_len = 128"

record 'id remote_path =
  endpoint_id :: 'id
  service :: rstr

definition bad_name_char :: "nat \<Rightarrow> bool" where
  "bad_name_char ch \<longleftrightarrow> ch = slash \<or> is_whitespace ch \<or> is_control ch"

definition validate_service_name :: "rstr \<Rightarrow> error + unit" where
  "validate_service_name name =
     (if name = [] then Inl (anyhow (lit ''service name cannot be empty''))
      else if byte_len name > max_service_name_len then
        Inl (anyhow (lit ''service name cannot be longer than '' @
          show_nat max_service_name_len @ lit '' bytes''))
      else if list_ex bad_name_char name then
        Inl (anyhow (lit ''service name cannot contain '' @ quoted [slash] @
          lit '', whitespace, or control characters''))
      else Inr ())"

definition alpn_prefix :: rstr where
  "alpn_prefix = lit ''iroh-proxy/tcp/''"

definition service_to_alpn :: "rstr \<Rightarrow> byte list" where
  "service_to_alpn name = utf8 (alpn_prefix @ name)"

definition to_alpn :: "'id remote_path \<Rightarrow> byte list" where
  "to_alpn r = service_to_alpn (service r)"

definition remote_from_str :: "(rstr \<Rightarrow> rstr + 'id) \<Rightarrow> rstr \<Rightarrow> error + 'id remote_path" where
  "remote_from_str parse_id value =
     (case split_on slash value of
        [] \<Rightarrow> Inl (anyhow (lit ''missing endpoint id in remote path''))
      | endpoint_raw # parts \<Rightarrow>
     (case parts of
        [] \<Rightarrow> Inl (anyhow (lit ''missing protocol segment in remote path''))
      | protocol # parts \<Rightarrow>
     (case parts of
        [] \<Rightarrow> Inl (anyhow (lit ''missing service segment in remote path''))
      | srv # parts \<Rightarrow>
        if parts \<noteq> [] then
          Inl (anyhow (lit ''remote path must be exactly <node-id>/tcp/<name>''))
        else if protocol \<noteq> lit ''tcp'' then
          Inl (anyhow (lit ''unsupported protocol '' @ quoted protocol @
            lit '', expected '' @ quoted (lit ''tcp'')))
        else bind_res
          (map_err (\<lambda>e. anyhow (lit ''invalid service name '' @ quoted srv @ lit '': '' @ display_err e))
            (validate_service_name srv)) (\<lambda>_.
        bind_res
          (map_err (\<lambda>e. anyhow (lit ''invalid endpoint id '' @ quoted endpoint_raw @
            lit '' in remote path: '' @ e))
            (parse_id endpoint_raw)) (\<lambda>eid.
        Inr \<lparr>endpoint_id = eid, service = srv\<rparr>)))))"

text \<open>The form \<open>{}/tcp/{}\<close> of the control interface and of connection entries.\<close>

definition remote_display :: "('id \<Rightarrow> rstr) \<Rightarrow> 'id remote_path \<Rightarrow> rstr" where
  "remote_display show_id r = show_id (endpoint_id r) @ lit ''/tcp/'' @ service r"


section \<open>Service names\<close>

definition valid_service :: "rstr \<Rightarrow> bool" where
  "valid_service name \<longleftrightarrow>
     name \<noteq> [] \<and> byte_len name \<le> 128 \<and> list_all (\<lambda>c. \<not> bad_name_char c) name"

lemma validate_ok [simp]: "validate_service_name name = Inr u \<longleftrightarrow> valid_service name"
  by (auto simp: validate_service_name_def valid_service_def max_service_name_len_def
      list_ex_iff list_all_iff)

lemmas service_eval = valid_service_def bad_name_char_def slash_def text_eval

lemma validate_is_ok: "is_ok (validate_service_name name) \<longleftrightarrow> valid_service name"
  by (auto simp: is_ok_iff)

lemma alpn_prefix_valid [simp]: "valid_str alpn_prefix"
  by (simp add: alpn_prefix_def)

lemma valid_service_no_slash: "valid_service name \<Longrightarrow> slash \<notin> set name"
  by (auto simp: valid_service_def list_all_iff bad_name_char_def)

lemma valid_service_trim: "valid_service name \<Longrightarrow> trim name = name"
  by (rule trim_no_ws) (auto simp: valid_service_def list_all_iff bad_name_char_def)

text \<open>
  The service-name check accepts exactly the names of 1 to 128 bytes without a slash,
  whitespace or control characters, so an accepted name survives trimming and has no
  empty path segment in it.
\<close>

theorem validate_service_name_spec:
  "validate_service_name name = Inr () \<longleftrightarrow>
     trim name = name \<and> 1 \<le> length name \<and> byte_len name \<le> 128 \<and>
     split_on slash name = [name] \<and> \<not> list_ex is_whitespace name \<and> \<not> list_ex is_control name"
proof -
  have "split_on slash name = [name] \<longleftrightarrow> slash \<notin> set name"
    using split_on_pieces [of name slash name] split_on_no_sep [of slash name] by auto
  then show ?thesis
    using valid_service_trim [of name]
    by (cases name)
       (auto simp: valid_service_def list_all_iff list_ex_iff bad_name_char_def)
qed


section \<open>ALPN bytes\<close>

lemma service_to_alpn_append: "service_to_alpn name = utf8 alpn_prefix @ utf8 name"
  by (simp add: service_to_alpn_def utf8_append)

lemma service_to_alpn_inject [simp]:
  "valid_str a \<Longrightarrow> valid_str b \<Longrightarrow> service_to_alpn a = service_to_alpn b \<longleftrightarrow> a = b"
  by (simp add: service_to_alpn_append utf8_inject)

text \<open>
  Two service names are negotiated under the same ALPN bytes only if they are the
  same name, and decoding the ALPN bytes gives the name back after the fixed prefix.
\<close>

theorem alpn_roundtrip:
  assumes "valid_str name" and "valid_str other"
  shows "utf8_decode (service_to_alpn name) = Some (alpn_prefix @ name) \<and>
    (service_to_alpn other = service_to_alpn name \<longleftrightarrow> other = name)"
proof -
  have "valid_str (alpn_prefix @ name)"
    using assms by simp
  then have "utf8_decode (service_to_alpn name) = Some (alpn_prefix @ name)"
    by (simp add: service_to_alpn_def)
  then show ?thesis using assms by simp
qed

theorem alpn_roundtrip_witness:
  "utf8_decode (service_to_alpn (lit ''ollama'')) = Some (alpn_prefix @ lit ''ollama'') \<and>
   service_to_alpn (lit ''vllm'') \<noteq> service_to_alpn (lit ''ollama'')"
proof -
  have "lit ''vllm'' \<noteq> lit ''ollama''" by simp
  then show ?thesis
    using alpn_roundtrip [OF valid_str_lit valid_str_lit, of "''ollama''" "''vllm''"] by blast
qed


section \<open>Parsing\<close>

lemma split_three:
  "split_on d v = [a, b, c] \<longleftrightarrow>
     v = a @ d # b @ d # c \<and> d \<notin> set a \<and> d \<notin> set b \<and> d \<notin> set c"
proof
  assume s: "split_on d v = [a, b, c]"
  from join_split_on [of d v] s have "v = a @ d # b @ d # c" by simp
  with s split_on_pieces [of _ d v] show "v = a @ d # b @ d # c \<and> d \<notin> set a \<and> d \<notin> set b \<and> d \<notin> set c"
    by auto
qed (auto simp: split_on_append split_on_no_sep)

lemma tcp_no_slash [simp]: "slash \<notin> set (lit ''tcp'')"
  by (simp add: slash_def)

lemma remote_from_str_Inr:
  "remote_from_str parse_id value = Inr r \<longleftrightarrow>
     (\<exists>raw. split_on slash value = [raw, lit ''tcp'', service r] \<and>
        valid_service (service r) \<and> parse_id raw = Inr (endpoint_id r))"
proof -
  have "remote_from_str parse_id value = Inr r \<longleftrightarrow>
      (\<exists>raw srv. split_on slash value = [raw, lit ''tcp'', srv] \<and> valid_service srv \<and>
        (\<exists>i. parse_id raw = Inr i \<and> r = \<lparr>endpoint_id = i, service = srv\<rparr>))"
    unfolding remote_from_str_def
    by (auto simp: bind_res_Inr_iff split: list.split)
  then show ?thesis by (cases r) auto
qed

text \<open>
  C40. The parser accepts exactly the texts \<open>raw/tcp/name\<close> whose name is a valid service
  name and whose first segment iroh accepts as an endpoint id, and returns the two parts.
\<close>

theorem remote_from_str_iff:
  "remote_from_str parse_id value = Inr r \<longleftrightarrow>
     (\<exists>raw. value = raw @ lit ''/tcp/'' @ service r \<and> slash \<notin> set raw \<and>
        validate_service_name (service r) = Inr () \<and> parse_id raw = Inr (endpoint_id r))"
proof -
  have tcp: "a @ slash # lit ''tcp'' @ slash # c = a @ lit ''/tcp/'' @ c" for a c
    by (simp add: slash_def)
  show ?thesis
    unfolding remote_from_str_Inr split_three validate_ok tcp
    using valid_service_no_slash [of "service r"] tcp_no_slash by blast
qed

text \<open>Printing a remote path and parsing it again gives the path back, for every valid
  service name, when iroh's endpoint ids round-trip through their own text and that text
  has no slash.
\<close>

theorem remote_roundtrip:
  assumes "parse_id (show_id (endpoint_id r)) = Inr (endpoint_id r)"
    and "slash \<notin> set (show_id (endpoint_id r))"
    and "validate_service_name (service r) = Inr ()"
  shows "remote_from_str parse_id (remote_display show_id r) = Inr r"
proof -
  have "remote_display show_id r =
      show_id (endpoint_id r) @ slash # lit ''tcp'' @ slash # service r"
    by (simp add: remote_display_def slash_def)
  moreover have "slash \<notin> set (service r)"
    using assms(3) by (simp add: valid_service_no_slash)
  ultimately show ?thesis
    using assms unfolding remote_from_str_Inr split_three
    by (auto simp: tcp_no_slash simp del: lit_simps)
qed

theorem remote_roundtrip_witness:
  "remote_from_str (\<lambda>s. Inr (read_nat s)) (remote_display show_nat \<lparr>endpoint_id = 74, service = lit ''app''\<rparr>)
     = Inr \<lparr>endpoint_id = 74, service = lit ''app''\<rparr>"
proof (rule remote_roundtrip)
  show "slash \<notin> set (show_nat (endpoint_id \<lparr>endpoint_id = 74, service = lit ''app''\<rparr>))"
    using show_nat_digits [of slash 74] by (auto simp: slash_def)
  show "validate_service_name (service \<lparr>endpoint_id = 74, service = lit ''app''\<rparr>) = Inr ()"
    by (simp add: service_eval)
qed simp

end
