(* ===== verification/Retry_Policy.thy ===== *)
theory Retry_Policy
  imports Errors
begin

text \<open>
  Connecting with retries (\<open>src/proxy.rs\<close>): the backoff, the classification of connect
  errors and \<open>retry_with_backoff\<close>. Time is in nanoseconds. The loop runs against an
  environment that says, for each attempt, how long the attempt takes (possibly for ever)
  and what it returns, and how late the timers of that round fire.
\<close>

section \<open>Durations and policies\<close>

definition dur_max :: nat where
  "dur_max = 18446744073709551615 * 1000000000 + 999999999"

definition from_secs :: "nat \<Rightarrow> nat" where
  "from_secs s = s * 1000000000"

definition from_millis :: "nat \<Rightarrow> nat" where
  "from_millis s = s * 1000000"

record retry_policy =
  max_attempts :: "32 word"
  initial_backoff :: nat
  max_backoff :: nat
  total_timeout :: nat

definition default_policy :: retry_policy where
  "default_policy = \<lparr>max_attempts = 4, initial_backoff = from_millis 500,
     max_backoff = from_secs 5, total_timeout = from_secs 30\<rparr>"

text \<open>\<open>Duration::saturating_mul\<close>.\<close>

definition saturating_mul :: "nat \<Rightarrow> nat \<Rightarrow> nat" where
  "saturating_mul d k = min (d * k) dur_max"

definition next_backoff :: "nat \<Rightarrow> nat \<Rightarrow> nat" where
  "next_backoff current mx = min (saturating_mul current 2) mx"

fun is_transient_connection_error :: "conn_error \<Rightarrow> bool" where
  "is_transient_connection_error Reset = True"
| "is_transient_connection_error TimedOut = True"
| "is_transient_connection_error _ = False"

fun is_transient_connect_error :: "connect_error \<Rightarrow> bool" where
  "is_transient_connect_error (Connect NoAddress) = True"
| "is_transient_connect_error (Connecting (ConnectingConnectionError s)) =
     is_transient_connection_error s"
| "is_transient_connect_error (Connection s) = is_transient_connection_error s"
| "is_transient_connect_error _ = False"


section \<open>The loop\<close>

text \<open>An attempt that takes no finite time never completes.\<close>

datatype ('e, 'v) attempt = Attempt (took: "nat option") (outcome: "'e + 'v")

record ('e, 'v) retry_env =
  attempt_of :: "nat \<Rightarrow> ('e, 'v) attempt"
  timeout_late :: "nat \<Rightarrow> nat"
  sleep_late :: "nat \<Rightarrow> nat"

text \<open>
  \<open>timeout_at(deadline, fut)\<close>: the future is polled before the timer, so it wins when it
  is ready at the first poll or by the time the timer fires.
\<close>

definition timeout_at :: "nat \<Rightarrow> nat \<Rightarrow> nat \<Rightarrow> ('e, 'v) attempt \<Rightarrow> ('e + 'v) option \<times> nat" where
  "timeout_at deadline late now a =
     (case took a of
        Some d \<Rightarrow> if d = 0 \<or> now + d \<le> deadline + late then (Some (outcome a), now + d)
                  else (None, max now (deadline + late))
      | None \<Rightarrow> (None, max now (deadline + late)))"

datatype 'e retry_error =
    TimedOutDuring nat "32 word"
  | TimedOutFollowing nat "32 word"
  | GivingUp "32 word" 'e
  | Permanent 'e
  | SingleAttempt 'e

text \<open>What a run leaves: its result, the time it ended, the start of every attempt made and
  every sleep asked for.\<close>

record ('e, 'v) retry_run =
  run_result :: "'e retry_error + 'v"
  run_end :: nat
  run_starts :: "nat list"
  run_sleeps :: "nat list"

definition run_stop :: "'e retry_error + 'v \<Rightarrow> nat \<Rightarrow> nat \<Rightarrow> nat list \<Rightarrow> ('e, 'v) retry_run" where
  "run_stop r t now sl = \<lparr>run_result = r, run_end = t, run_starts = [now], run_sleeps = sl\<rparr>"

definition run_after :: "nat \<Rightarrow> nat \<Rightarrow> ('e, 'v) retry_run \<Rightarrow> ('e, 'v) retry_run" where
  "run_after now sl r = r\<lparr>run_starts := now # run_starts r, run_sleeps := sl # run_sleeps r\<rparr>"

lemma word_inc_less:
  fixes a b :: "32 word"
  assumes "a < b"
  shows "unat (a + 1) = Suc (unat a)"
proof -
  have "unat a < unat b" using assms by (simp add: word_less_nat_alt)
  moreover have "unat b < 2 ^ 32" using unsigned_less [of b] by simp
  ultimately show ?thesis by (simp add: unat_word_ariths)
qed

function retry_loop ::
  "retry_policy \<Rightarrow> ('e, 'v) retry_env \<Rightarrow> ('e \<Rightarrow> bool) \<Rightarrow> nat \<Rightarrow> nat \<Rightarrow>
   32 word \<Rightarrow> nat \<Rightarrow> nat \<Rightarrow> 32 word \<Rightarrow> ('e, 'v) retry_run" where
  "retry_loop p env is_retryable started deadline max_att now backoff att =
     (case timeout_at deadline (timeout_late env (unat att)) now (attempt_of env (unat att)) of
        (None, t) \<Rightarrow> run_stop (Inl (TimedOutDuring (t - started) att)) t now []
      | (Some (Inr v), t) \<Rightarrow> run_stop (Inr v) t now []
      | (Some (Inl e), t) \<Rightarrow>
          if \<not> is_retryable e then run_stop (Inl (Permanent e)) t now []
          else if att < max_att then
            let remaining = deadline - t in
            if remaining = 0 then run_stop (Inl (TimedOutFollowing (t - started) att)) t now []
            else
              let sleep_for = min backoff remaining;
                  t' = t + sleep_for + sleep_late env (unat att)
              in if sleep_for < backoff then
                   run_stop (Inl (TimedOutFollowing (t' - started) att)) t' now [sleep_for]
                 else run_after now sleep_for
                   (retry_loop p env is_retryable started deadline max_att t'
                      (next_backoff backoff (max_backoff p)) (att + 1))
          else if 1 < att then run_stop (Inl (GivingUp att e)) t now []
          else run_stop (Inl (SingleAttempt e)) t now [])"
  by pat_completeness auto
termination
  by (relation "measure (\<lambda>(p, env, r, st, d, m, now, b, att). unat m - unat att)")
     (auto simp: word_inc_less word_less_nat_alt)

declare retry_loop.simps [simp del]

definition retry_with_backoff ::
  "retry_policy \<Rightarrow> ('e, 'v) retry_env \<Rightarrow> ('e \<Rightarrow> bool) \<Rightarrow> nat \<Rightarrow> ('e, 'v) retry_run" where
  "retry_with_backoff p env is_retryable started =
     retry_loop p env is_retryable started (started + total_timeout p)
       (max (max_attempts p) 1) started (initial_backoff p) 1"

text \<open>The error as the chain the caller sees; \<open>fmt\<close> prints a duration as \<open>{:.3}\<close> seconds.\<close>

fun retry_error_chain :: "(nat \<Rightarrow> rstr) \<Rightarrow> ('e \<Rightarrow> error) \<Rightarrow> rstr \<Rightarrow> 'e retry_error \<Rightarrow> error" where
  "retry_error_chain fmt chain what (TimedOutDuring el att) =
     anyhow (what @ lit '': timed out after '' @ fmt el @ lit ''s during attempt '' @
       show_nat (unat att))"
| "retry_error_chain fmt chain what (TimedOutFollowing el att) =
     anyhow (what @ lit '': timed out after '' @ fmt el @ lit ''s following '' @
       show_nat (unat att) @ lit '' attempts'')"
| "retry_error_chain fmt chain what (GivingUp att e) =
     context_err (what @ lit '': giving up after '' @ show_nat (unat att) @ lit '' attempts'')
       (chain e)"
| "retry_error_chain fmt chain what (Permanent e) = chain e"
| "retry_error_chain fmt chain what (SingleAttempt e) = chain e"


section \<open>Facts\<close>

lemma run_simps [simp]:
  "run_result (run_stop r t now sl) = r" "run_end (run_stop r t now sl) = t"
  "run_starts (run_stop r t now sl) = [now]" "run_sleeps (run_stop r t now sl) = sl"
  "run_result (run_after now s q) = run_result q" "run_end (run_after now s q) = run_end q"
  "run_starts (run_after now s q) = now # run_starts q"
  "run_sleeps (run_after now s q) = s # run_sleeps q"
  by (simp_all add: run_stop_def run_after_def)

lemma run_stop_inject [simp]:
  "run_stop r t now sl = run_stop r' t' now' sl' \<longleftrightarrow> r = r' \<and> t = t' \<and> now = now' \<and> sl = sl'"
  by (auto simp: run_stop_def)

text \<open>Case analysis of one round: it stops, or it sleeps the whole backoff and goes on.\<close>

definition round_fails ::
  "('e, 'v) retry_env \<Rightarrow> ('e \<Rightarrow> bool) \<Rightarrow> nat \<Rightarrow> nat \<Rightarrow> 32 word \<Rightarrow> nat \<Rightarrow> 'e \<Rightarrow> bool" where
  "round_fails env rt deadline now att t e \<longleftrightarrow>
     timeout_at deadline (timeout_late env (unat att)) now (attempt_of env (unat att)) = (Some (Inl e), t)
     \<and> rt e"

definition round_next ::
  "('e, 'v) retry_env \<Rightarrow> ('e \<Rightarrow> bool) \<Rightarrow> nat \<Rightarrow> 32 word \<Rightarrow> nat \<Rightarrow> nat \<Rightarrow> 32 word \<Rightarrow> nat \<Rightarrow> 'e \<Rightarrow> bool" where
  "round_next env rt deadline m now b att t e \<longleftrightarrow>
     round_fails env rt deadline now att t e \<and> att < m \<and> t < deadline \<and> b \<le> deadline - t"

lemma retry_loop_next:
  "round_next env rt deadline m now b att t e \<Longrightarrow>
   retry_loop p env rt st deadline m now b att =
     run_after now b (retry_loop p env rt st deadline m (t + b + sleep_late env (unat att))
       (next_backoff b (max_backoff p)) (att + 1))"
  by (subst retry_loop.simps) (auto simp: round_next_def round_fails_def Let_def min_def)

text \<open>What a result says about the last attempt made, the \<open>j\<close>-th of at most \<open>mx\<close>.\<close>

definition result_matches ::
  "('e, 'v) retry_env \<Rightarrow> ('e \<Rightarrow> bool) \<Rightarrow> nat \<Rightarrow> nat \<Rightarrow> 'e retry_error + 'v \<Rightarrow> bool" where
  "result_matches env rt mx j r =
     (case r of
        Inr v \<Rightarrow> outcome (attempt_of env j) = Inr v
      | Inl (Permanent e) \<Rightarrow> outcome (attempt_of env j) = Inl e \<and> \<not> rt e
      | Inl (GivingUp k e) \<Rightarrow>
          outcome (attempt_of env j) = Inl e \<and> rt e \<and> unat k = j \<and> 1 < j \<and> j = mx
      | Inl (SingleAttempt e) \<Rightarrow> outcome (attempt_of env j) = Inl e \<and> rt e \<and> j = 1 \<and> mx = 1
      | Inl (TimedOutDuring el k) \<Rightarrow> unat k = j
      | Inl (TimedOutFollowing el k) \<Rightarrow>
          unat k = j \<and> j < mx \<and> (\<exists>e. outcome (attempt_of env j) = Inl e \<and> rt e))"

definition stop_ok ::
  "('e, 'v) retry_env \<Rightarrow> ('e \<Rightarrow> bool) \<Rightarrow> nat \<Rightarrow> 32 word \<Rightarrow> nat \<Rightarrow> nat \<Rightarrow> 32 word \<Rightarrow>
   'e retry_error + 'v \<Rightarrow> nat \<Rightarrow> nat list \<Rightarrow> bool" where
  "stop_ok env rt deadline m now b att r t sl \<longleftrightarrow>
     length sl \<le> 1 \<and> (\<forall>x\<in>set sl. x < b) \<and>
     (1 \<le> att \<longrightarrow> att \<le> m \<longrightarrow> result_matches env rt (unat m) (unat att) r) \<and>
     (\<forall>L. timeout_late env (unat att) \<le> L \<longrightarrow> sleep_late env (unat att) \<le> L \<longrightarrow>
        now \<le> deadline + L \<longrightarrow> t \<le> deadline + L)"

lemma timeout_at_outcome:
  "timeout_at deadline late now a = (Some r, t) \<Longrightarrow> outcome a = r"
  by (auto simp: timeout_at_def split: option.splits if_splits)

lemma timeout_at_end:
  "timeout_at deadline late now a = (x, t) \<Longrightarrow> late \<le> L \<Longrightarrow> now \<le> deadline + L \<Longrightarrow> t \<le> deadline + L"
  by (auto simp: timeout_at_def split: option.splits if_splits)

lemma word_1_nat: "(1 :: 32 word) \<le> a \<longleftrightarrow> 1 \<le> unat a" "(1 :: 32 word) < a \<longleftrightarrow> 1 < unat a"
  by (simp_all add: word_le_nat_alt word_less_nat_alt)

text \<open>A round whose attempt failed and that is not followed by another.\<close>

lemma failed_round_stops:
  assumes "timeout_at deadline (timeout_late env (unat att)) now (attempt_of env (unat att)) = (Some (Inl e), t)"
    and "\<not> round_next env rt deadline m now b att t e"
  shows "\<exists>r t sl. retry_loop p env rt st deadline m now b att = run_stop r t now sl \<and>
    stop_ok env rt deadline m now b att r t sl"
proof -
  note e = timeout_at_outcome [OF assms(1)] and fin = timeout_at_end [OF assms(1)]
  consider (perm) "\<not> rt e" | (last) "rt e" "\<not> att < m"
    | (late) "rt e" "att < m" "deadline - t = 0"
    | (cut) "rt e" "att < m" "0 < deadline - t" "deadline - t < b"
  proof -
    have "\<not> (rt e \<and> att < m \<and> 0 < deadline - t \<and> \<not> deadline - t < b)"
      using assms by (auto simp: round_next_def round_fails_def not_less)
    with that show thesis by (metis neq0_conv)
  qed
  then show ?thesis
  proof cases
    case perm
    with assms(1) e fin show ?thesis
      by (subst retry_loop.simps) (auto simp: stop_ok_def result_matches_def)
  next
    case last
    with assms(1) e fin show ?thesis
      by (subst retry_loop.simps)
         (auto simp: stop_ok_def result_matches_def word_1_nat word_less_nat_alt word_le_nat_alt)
  next
    case late
    with assms(1) e fin show ?thesis
      by (subst retry_loop.simps) (auto simp: stop_ok_def result_matches_def word_less_nat_alt)
  next
    case cut
    then have "min b (deadline - t) = deadline - t" by simp
    with cut assms(1) e show ?thesis
      by (subst retry_loop.simps) (auto simp: stop_ok_def result_matches_def word_less_nat_alt Let_def)
  qed
qed

lemma retry_loop_stop:
  assumes "\<And>t e. \<not> round_next env rt deadline m now b att t e"
  shows "\<exists>r t sl. retry_loop p env rt st deadline m now b att = run_stop r t now sl \<and>
    stop_ok env rt deadline m now b att r t sl"
proof -
  obtain o' t where t: "timeout_at deadline (timeout_late env (unat att)) now
      (attempt_of env (unat att)) = (o', t)" by fastforce
  note out = timeout_at_outcome and fin = timeout_at_end [OF t]
  consider (to) "o' = None" | (ok) v where "o' = Some (Inr v)" | (err) e where "o' = Some (Inl e)"
    by (metis not_None_eq sum.exhaust)
  then show ?thesis
  proof cases
    case to
    with t fin show ?thesis
      by (subst retry_loop.simps) (auto simp: stop_ok_def result_matches_def)
  next
    case ok
    with t fin out [of _ _ _ _ "Inr v"] show ?thesis
      by (subst retry_loop.simps) (auto simp: stop_ok_def result_matches_def)
  next
    case err
    with t failed_round_stops [of deadline env att now e t rt m b p st] assms show ?thesis by simp
  qed
qed

lemma retry_loop_cases:
  obtains (next_round) t e where "round_next env rt deadline m now b att t e"
  | (stop) r t sl where "\<And>t e. \<not> round_next env rt deadline m now b att t e"
      and "retry_loop p env rt st deadline m now b att = run_stop r t now sl"
      and "stop_ok env rt deadline m now b att r t sl"
  using retry_loop_stop by metis

lemma retry_induct [case_names round]:
  assumes "\<And>now b att. (\<And>t e. round_next env rt deadline m now b att t e \<Longrightarrow>
      P (t + b + sleep_late env (unat att)) (next_backoff b mx) (att + 1)) \<Longrightarrow> P now b att"
  shows "P now b (att :: 32 word)"
proof (induction "unat m - unat att" arbitrary: now b att rule: less_induct)
  case less
  show ?case
  proof (rule assms)
    fix t e assume "round_next env rt deadline m now b att t e"
    then have "att < m" by (simp add: round_next_def)
    then show "P (t + b + sleep_late env (unat att)) (next_backoff b mx) (att + 1)"
      by (intro less) (auto simp: word_inc_less word_less_nat_alt)
  qed
qed

text \<open>An environment whose attempts all fail at once with the same error, on exact timers.\<close>

definition all_fail :: "'e \<Rightarrow> ('e, 'v) retry_env" where
  "all_fail e = \<lparr>attempt_of = (\<lambda>_. Attempt (Some 0) (Inl e)), timeout_late = (\<lambda>_. 0),
     sleep_late = (\<lambda>_. 0)\<rparr>"

abbreviation dead_peer_run :: "(connect_error, nat) retry_run" where
  "dead_peer_run \<equiv>
     retry_with_backoff default_policy (all_fail (Connection TimedOut)) is_transient_connect_error 0"

lemma default_run:
  "retry_with_backoff default_policy
      (all_fail (Connection TimedOut) :: (connect_error, 'c) retry_env) is_transient_connect_error 0
     = \<lparr>run_result = Inl (GivingUp 4 (Connection TimedOut)), run_end = from_millis 3500,
        run_starts = [0, from_millis 500, from_millis 1500, from_millis 3500],
        run_sleeps = [from_millis 500, from_secs 1, from_secs 2]\<rparr>"
  unfolding retry_with_backoff_def
  by (simp add: retry_loop.simps default_policy_def all_fail_def timeout_at_def from_millis_def
      from_secs_def max_def word_le_nat_alt run_stop_def run_after_def next_backoff_def
      saturating_mul_def dur_max_def Let_def)

lemma permanent_run:
  "retry_with_backoff default_policy
      (all_fail (Connecting HandshakeFailure) :: (connect_error, 'c) retry_env)
      is_transient_connect_error 0
     = \<lparr>run_result = Inl (Permanent (Connecting HandshakeFailure)), run_end = 0,
        run_starts = [0], run_sleeps = []\<rparr>"
  unfolding retry_with_backoff_def
  by (simp add: retry_loop.simps default_policy_def all_fail_def timeout_at_def run_stop_def)

lemma starts_nonempty [simp]: "run_starts (retry_loop p env rt st deadline m now b att) \<noteq> []"
  by (cases rule: retry_loop_cases [where env = env and rt = rt and deadline = deadline and m = m
        and now = now and b = b and att = att and p = p and st = st]) (auto simp: retry_loop_next)

lemma sleeps_le_starts:
  "length (run_sleeps (retry_loop p env rt st deadline m now b att))
     \<le> length (run_starts (retry_loop p env rt st deadline m now b att))"
proof (induction now b att rule: retry_induct [where env = env and rt = rt and deadline = deadline
      and m = m and mx = "max_backoff p"])
  case (round now b att)
  show ?case
  proof (cases rule: retry_loop_cases [where env = env and rt = rt and deadline = deadline and m = m
        and now = now and b = b and att = att and p = p and st = st])
    case (next_round t e)
    with round.IH [OF this] show ?thesis by (simp add: retry_loop_next)
  next
    case (stop r t sl)
    then show ?thesis by (simp add: stop_ok_def)
  qed
qed

lemma starts_bound:
  "unat att \<le> unat m \<Longrightarrow>
   length (run_starts (retry_loop p env rt st deadline m now b att)) + unat att \<le> unat m + 1"
proof (induction now b att rule: retry_induct [where env = env and rt = rt and deadline = deadline
      and m = m and mx = "max_backoff p"])
  case (round now b att)
  show ?case
  proof (cases rule: retry_loop_cases [where env = env and rt = rt and deadline = deadline and m = m
        and now = now and b = b and att = att and p = p and st = st])
    case (next_round t e)
    then have "att < m" by (simp add: round_next_def)
    then have "unat (att + 1) = Suc (unat att)" "unat att < unat m"
      by (simp_all add: word_inc_less word_less_nat_alt)
    with round.IH [OF next_round] next_round show ?thesis by (simp add: retry_loop_next)
  next
    case (stop r t sl)
    with round.prems show ?thesis by simp
  qed
qed

lemma unat_max: "unat (max a b) = max (unat a) (unat (b :: 32 word))"
  by (simp add: max_def word_le_nat_alt)

text \<open>The loop makes at least one attempt and at most \<open>max_attempts\<close> (one when it is
  zero), and it never sleeps more often than it attempts.
\<close>

theorem retry_attempts_bound:
  "1 \<le> length (run_starts (retry_with_backoff p env rt started)) \<and>
   length (run_starts (retry_with_backoff p env rt started)) \<le> max 1 (unat (max_attempts p)) \<and>
   length (run_sleeps (retry_with_backoff p env rt started))
     \<le> length (run_starts (retry_with_backoff p env rt started))"
proof -
  let ?r = "retry_with_backoff p env rt started"
  have "1 \<le> length (run_starts ?r)"
    by (simp add: retry_with_backoff_def Suc_le_eq)
  moreover have "length (run_starts ?r) \<le> max 1 (unat (max_attempts p))"
    using starts_bound [of 1 "max (max_attempts p) 1" p env rt started "started + total_timeout p"
        started "initial_backoff p"]
    by (simp add: retry_with_backoff_def unat_max max.commute)
  ultimately show ?thesis by (simp add: retry_with_backoff_def sleeps_le_starts)
qed

lemma run_spec:
  "1 \<le> att \<Longrightarrow> att \<le> m \<Longrightarrow>
   (let r = retry_loop p env rt st deadline m now b att; n = length (run_starts r) in
      result_matches env rt (unat m) (unat att + n - 1) (run_result r) \<and>
      (\<forall>i<n - 1. \<exists>e. outcome (attempt_of env (unat att + i)) = Inl e \<and> rt e))"
proof (induction now b att rule: retry_induct [where env = env and rt = rt and deadline = deadline
      and m = m and mx = "max_backoff p"])
  case (round now b att)
  show ?case
  proof (cases rule: retry_loop_cases [where env = env and rt = rt and deadline = deadline and m = m
        and now = now and b = b and att = att and p = p and st = st])
    case (next_round t e)
    then have lt: "att < m" by (simp add: round_next_def)
    then have inc: "unat (att + 1) = Suc (unat att)" by (rule word_inc_less)
    with lt round.prems have "1 \<le> att + 1" "att + 1 \<le> m"
      by (simp_all add: word_le_nat_alt word_less_nat_alt)
    let ?q = "retry_loop p env rt st deadline m (t + b + sleep_late env (unat att))
      (next_backoff b (max_backoff p)) (att + 1)"
    obtain x xs where xs: "run_starts ?q = x # xs" by (cases "run_starts ?q") auto
    from next_round have e: "outcome (attempt_of env (unat att)) = Inl e" "rt e"
      by (auto simp: round_next_def round_fails_def dest: timeout_at_outcome)
    have "\<exists>e. outcome (attempt_of env (unat att + i)) = Inl e \<and> rt e" if "i < Suc (length xs)" for i
      using round.IH [OF next_round \<open>1 \<le> att + 1\<close> \<open>att + 1 \<le> m\<close>] e that
      by (cases i) (auto simp: Let_def xs inc)
    with round.IH [OF next_round \<open>1 \<le> att + 1\<close> \<open>att + 1 \<le> m\<close>] next_round show ?thesis
      by (simp add: retry_loop_next Let_def xs inc)
  next
    case (stop r t sl)
    with round.prems show ?thesis by (simp add: stop_ok_def Let_def)
  qed
qed

lemma retry_outcome:
  assumes "run_result (retry_with_backoff p env rt started) = Inr v"
  shows "\<exists>n. outcome (attempt_of env n) = Inr v"
proof -
  have "(1 :: 32 word) \<le> max (max_attempts p) 1" by simp
  from run_spec [OF order_refl this, of p env rt started "started + total_timeout p" started "initial_backoff p"]
    assms
  show ?thesis by (auto simp: Let_def retry_with_backoff_def result_matches_def)
qed

text \<open>
  C8. The result is that of the last attempt made and every attempt before it failed with a
  retryable error: success is the first attempt that succeeds, a permanent error ends the
  loop at once, a retryable one is returned only when the attempts are used up (with the
  note of how many, unless there was only one).
\<close>

theorem retry_result_spec:
  fixes p :: retry_policy and env :: "('e, 'v) retry_env" and rt :: "'e \<Rightarrow> bool" and started :: nat
  defines "mx \<equiv> max 1 (unat (max_attempts p))"
  defines "r \<equiv> retry_with_backoff p env rt started"
  defines "n \<equiv> length (run_starts r)"
  shows "result_matches env rt mx n (run_result r) \<and>
    (\<forall>i\<in>{1..<n}. \<exists>e. outcome (attempt_of env i) = Inl e \<and> rt e)"
proof -
  have m: "(1 :: 32 word) \<le> max (max_attempts p) 1" by simp
  have "n \<noteq> 0" by (simp add: n_def r_def retry_with_backoff_def)
  have spec: "result_matches env rt mx (1 + n - 1) (run_result r)"
    "\<forall>i<n - 1. \<exists>e. outcome (attempt_of env (1 + i)) = Inl e \<and> rt e"
    using run_spec [OF order_refl m, of p env rt started "started + total_timeout p" started
        "initial_backoff p"]
    by (simp_all add: Let_def r_def n_def mx_def retry_with_backoff_def unat_max max.commute)
  moreover have "\<exists>e. outcome (attempt_of env i) = Inl e \<and> rt e" if "i \<in> {1..<n}" for i
    using spec(2) [rule_format, of "i - 1"] that by auto
  ultimately show ?thesis by simp
qed

theorem retry_result_witness:
  "length (run_starts dead_peer_run) = 4 \<and>
   result_matches (all_fail (Connection TimedOut) :: (connect_error, nat) retry_env)
     is_transient_connect_error 4 4 (run_result dead_peer_run) \<and>
   (\<exists>e. outcome (attempt_of
      (all_fail (Connection TimedOut) :: (connect_error, nat) retry_env) 3) = Inl e \<and>
      is_transient_connect_error e)"
proof -
  have l: "length (run_starts dead_peer_run) = 4" by (simp add: default_run)
  have m: "max 1 (unat (max_attempts default_policy)) = 4" by (simp add: default_policy_def)
  show ?thesis
    using retry_result_spec [where p = default_policy and
        env = "all_fail (Connection TimedOut) :: (connect_error, nat) retry_env" and
        rt = is_transient_connect_error and started = 0] l
    unfolding l m by (auto dest: bspec [of _ _ 3])
qed

lemma run_end_bound:
  assumes "\<And>i. timeout_late env i \<le> L" and "\<And>i. sleep_late env i \<le> L"
  shows "now \<le> deadline + L \<Longrightarrow> run_end (retry_loop p env rt st deadline m now b att) \<le> deadline + L"
proof (induction now b att rule: retry_induct [where env = env and rt = rt and deadline = deadline
      and m = m and mx = "max_backoff p"])
  case (round now b att)
  show ?case
  proof (cases rule: retry_loop_cases [where env = env and rt = rt and deadline = deadline and m = m
        and now = now and b = b and att = att and p = p and st = st])
    case (next_round t e)
    then have "t + b \<le> deadline" by (auto simp: round_next_def)
    then have "t + b + sleep_late env (unat att) \<le> deadline + L"
      by (intro add_mono assms)
    with round.IH [OF next_round] next_round show ?thesis by (simp add: retry_loop_next)
  next
    case (stop r t sl)
    with round.prems assms show ?thesis by (simp add: stop_ok_def)
  qed
qed

text \<open>
  C29. The total deadline bounds the whole run: whatever the attempts do, also when one never
  completes, the loop has returned at most one timer lateness after
  \<open>started + total_timeout\<close>.
\<close>

theorem retry_deadline:
  assumes "\<And>i. timeout_late env i \<le> L" and "\<And>i. sleep_late env i \<le> L"
  shows "run_end (retry_with_backoff p env rt started) \<le> started + total_timeout p + L"
  unfolding retry_with_backoff_def using assms by (intro run_end_bound) auto

theorem retry_deadline_witness:
  "run_end (retry_with_backoff default_policy
     \<lparr>attempt_of = (\<lambda>_. Attempt None (Inl (Connection TimedOut))), timeout_late = (\<lambda>_. 1000000), sleep_late = (\<lambda>_. 0)\<rparr>
     is_transient_connect_error 0) \<le> from_secs 30 + 1000000"
  using retry_deadline [of "\<lparr>attempt_of = (\<lambda>_. Attempt None (Inl (Connection TimedOut))),
      timeout_late = (\<lambda>_. 1000000), sleep_late = (\<lambda>_. 0)\<rparr>" 1000000 default_policy
      is_transient_connect_error 0]
  by (simp add: default_policy_def)

text \<open>The backoff before the retry number \<open>k\<close>.\<close>

definition backoff_at :: "retry_policy \<Rightarrow> nat \<Rightarrow> nat" where
  "backoff_at p k = (if k = 0 then initial_backoff p
     else min (initial_backoff p * 2 ^ k) (max_backoff p))"

lemma next_backoff_le: "mx \<le> dur_max \<Longrightarrow> next_backoff b mx = min (b * 2) mx"
  by (auto simp: next_backoff_def saturating_mul_def min_def)

lemma next_backoff_at:
  "max_backoff p \<le> dur_max \<Longrightarrow> next_backoff (backoff_at p k) (max_backoff p) = backoff_at p (Suc k)"
  by (auto simp: next_backoff_le backoff_at_def min_def mult_ac)

lemma sleeps_closed:
  assumes "max_backoff p \<le> dur_max"
  shows "b = backoff_at p k \<Longrightarrow>
    (let r = retry_loop p env rt st deadline m now b att; n = length (run_starts r) - 1 in
      take n (run_sleeps r) = map (backoff_at p) [k..<k + n])"
proof (induction now b att arbitrary: k rule: retry_induct [where env = env and rt = rt
      and deadline = deadline and m = m and mx = "max_backoff p"])
  case (round now b att)
  show ?case
  proof (cases rule: retry_loop_cases [where env = env and rt = rt and deadline = deadline and m = m
        and now = now and b = b and att = att and p = p and st = st])
    case (next_round t e)
    let ?q = "retry_loop p env rt st deadline m (t + backoff_at p k + sleep_late env (unat att))
      (backoff_at p (Suc k)) (att + 1)"
    obtain x xs where xs: "run_starts ?q = x # xs" by (cases "run_starts ?q") auto
    from round.prems assms have "next_backoff b (max_backoff p) = backoff_at p (Suc k)"
      by (simp add: next_backoff_at)
    from round.IH [OF next_round this] next_round round.prems show ?thesis
      by (simp add: retry_loop_next Let_def xs next_backoff_at assms upt_conv_Cons [of k "Suc (k + length xs)"]
          del: upt_Suc)
  next
    case (stop r t sl)
    then show ?thesis by (simp add: Let_def)
  qed
qed

text \<open>The waits between attempts follow the doubling schedule: the wait before attempt
  \<open>k + 2\<close> is the initial backoff times \<open>2 ^ k\<close>, capped at \<open>max_backoff\<close> (the first wait is
  not capped), never cut short when an attempt follows it.
\<close>

theorem retry_backoff_schedule:
  fixes p :: retry_policy and env :: "('e, 'v) retry_env" and rt :: "'e \<Rightarrow> bool" and started :: nat
  assumes "max_backoff p \<le> dur_max"
  defines "r \<equiv> retry_with_backoff p env rt started"
  defines "n \<equiv> length (run_starts r) - 1"
  shows "take n (run_sleeps r) = map (backoff_at p) [0..<n]"
  using sleeps_closed [OF assms(1), of "initial_backoff p" 0 env rt started "started + total_timeout p"
      "max (max_attempts p) 1" started 1]
  by (simp add: r_def n_def retry_with_backoff_def Let_def backoff_at_def)

theorem retry_backoff_witness:
  "max_backoff default_policy \<le> dur_max \<and>
   take 3 (run_sleeps dead_peer_run) = [from_millis 500, from_secs 1, from_secs 2]"
proof -
  have m: "max_backoff default_policy \<le> dur_max"
    by (simp add: default_policy_def dur_max_def from_secs_def)
  have "[0..<3] = [0, 1, 2 :: nat]" by (simp add: numeral_3_eq_3)
  moreover have "length (run_starts dead_peer_run) - 1 = 3" by (simp add: default_run)
  ultimately show ?thesis
    using m retry_backoff_schedule [OF m, of
      "all_fail (Connection TimedOut) :: (connect_error, nat) retry_env" is_transient_connect_error 0]
    by (simp add: backoff_at_def) (simp add: default_policy_def from_millis_def from_secs_def)
qed

text \<open>
  With the default policy a peer that keeps timing out is tried four times, after waits
  of 0.5, 1 and 2 seconds, and the error says so 3.5 seconds after the start; a TLS or ALPN
  failure is returned from the first attempt.
\<close>

theorem default_policy_run:
  "retry_with_backoff default_policy
      (all_fail (Connection TimedOut) :: (connect_error, 'c) retry_env) is_transient_connect_error 0
     = \<lparr>run_result = Inl (GivingUp 4 (Connection TimedOut)), run_end = from_millis 3500,
        run_starts = [0, from_millis 500, from_millis 1500, from_millis 3500],
        run_sleeps = [from_millis 500, from_secs 1, from_secs 2]\<rparr> \<and>
   retry_with_backoff default_policy
      (all_fail (Connecting HandshakeFailure) :: (connect_error, 'c) retry_env)
      is_transient_connect_error 0
     = \<lparr>run_result = Inl (Permanent (Connecting HandshakeFailure)), run_end = 0,
        run_starts = [0], run_sleeps = []\<rparr>"
  by (simp add: default_run permanent_run)

end
