(* ===== verification/Stream_Copy.thy ===== *)
theory Stream_Copy
  imports Errors
begin

text \<open>
  One direction of a proxied stream: \<open>tokio::io::copy\<close> from a reader to a writer. The
  reader is the script of what it will deliver (data, then end of file or an error; a
  script that runs out stands for a peer that stays silent). The writer takes any part of
  what it is offered, up to \<open>room\<close> bytes in all (a writer out of room stands for a peer
  that stopped reading). The buffer between them may be refilled before it is empty, as
  the library's is.
\<close>

datatype rd = Data "byte list" | Eof | ReadErr io_error

datatype copy_pc = Copying | CopyOk nat | CopyErr io_error

record copy_state =
  src :: "rd list"
  pending :: "byte list"
  sink :: "byte list"
  room :: nat
  cpc :: copy_pc

definition copy_start :: "rd list \<Rightarrow> nat \<Rightarrow> copy_state" where
  "copy_start input cap = \<lparr>src = input, pending = [], sink = [], room = cap, cpc = Copying\<rparr>"

inductive copy_step :: "copy_state \<Rightarrow> copy_state \<Rightarrow> bool" where
  copy_read: "cpc c = Copying \<Longrightarrow> src c = Data bs # r \<Longrightarrow>
     copy_step c (c\<lparr>src := r, pending := pending c @ bs\<rparr>)"
| copy_write: "cpc c = Copying \<Longrightarrow> 0 < n \<Longrightarrow> n \<le> length (pending c) \<Longrightarrow> n \<le> room c \<Longrightarrow>
     copy_step c (c\<lparr>pending := drop n (pending c), sink := sink c @ take n (pending c),
       room := room c - n\<rparr>)"
| copy_eof: "cpc c = Copying \<Longrightarrow> src c = Eof # r \<Longrightarrow> pending c = [] \<Longrightarrow>
     copy_step c (c\<lparr>cpc := CopyOk (length (sink c))\<rparr>)"
| copy_read_err: "cpc c = Copying \<Longrightarrow> src c = ReadErr e # r \<Longrightarrow>
     copy_step c (c\<lparr>cpc := CopyErr e\<rparr>)"
| copy_write_err: "cpc c = Copying \<Longrightarrow> copy_step c (c\<lparr>cpc := CopyErr e\<rparr>)"

inductive_cases copy_stepE: "copy_step c d"

text \<open>What the script delivers before it ends, and whether it ends with end of file.\<close>

fun payload :: "rd list \<Rightarrow> byte list" where
  "payload (Data bs # r) = bs @ payload r"
| "payload _ = []"

fun ends_eof :: "rd list \<Rightarrow> bool" where
  "ends_eof (Data bs # r) = ends_eof r"
| "ends_eof (Eof # r) = True"
| "ends_eof _ = False"

text \<open>
  The invariant: what was written, what is buffered and what is still to come are the
  script's data in order; a finished copy has written all of it and reports its length.
\<close>

definition copy_inv :: "rd list \<Rightarrow> copy_state \<Rightarrow> bool" where
  "copy_inv input c \<longleftrightarrow>
     sink c @ pending c @ payload (src c) = payload input \<and>
     ends_eof (src c) = ends_eof input \<and>
     (\<forall>n. cpc c = CopyOk n \<longrightarrow> sink c = payload input \<and> n = length (sink c) \<and> ends_eof input)"

lemma copy_inv_start [simp]: "copy_inv input (copy_start input cap)"
  by (simp add: copy_inv_def copy_start_def)

lemma take_drop_append: "take n xs @ drop n xs @ ys = xs @ ys"
  by (simp flip: append_assoc)

lemma copy_step_inv: "copy_inv input c \<Longrightarrow> copy_step c d \<Longrightarrow> copy_inv input d"
  by (erule copy_stepE) (auto simp: copy_inv_def take_drop_append)

lemma copy_inv_prefix: "copy_inv input c \<Longrightarrow> \<exists>rest. payload input = sink c @ rest"
  by (auto simp: copy_inv_def dest: sym)

text \<open>Work left in a direction: every step spends some of it.\<close>

fun script_weight :: "rd list \<Rightarrow> nat" where
  "script_weight [] = 0"
| "script_weight (Data bs # r) = Suc (length bs + script_weight r)"
| "script_weight (_ # r) = Suc (script_weight r)"

definition copy_weight :: "copy_state \<Rightarrow> nat" where
  "copy_weight c = (if cpc c = Copying then Suc (script_weight (src c) + length (pending c)) else 0)"

lemma copy_step_weight: "copy_step c d \<Longrightarrow> copy_weight d < copy_weight c"
  by (erule copy_stepE) (auto simp: copy_weight_def)

interpretation copying: measured_step_system copy_step "copy_inv input" copy_weight for input
  by unfold_locales (auto intro: copy_step_inv copy_step_weight)

text \<open>A copy that is out of steps has ended: a write can always fail.\<close>

lemma copy_stuck: "\<not> (\<exists>d. copy_step c d) \<longleftrightarrow> cpc c \<noteq> Copying"
  using copy_write_err by (auto elim: copy_stepE)

text \<open>
  Progress without faults: a script that ends, copied to a writer with room for all of it,
  can run to its end. (The scheduler may still choose a failing write instead.)
\<close>

lemma copy_completes:
  assumes "ends_eof (src c)" "cpc c = Copying" "pending c = []" "length (payload (src c)) \<le> room c"
  shows "\<exists>d. copy_step\<^sup>*\<^sup>* c d \<and> cpc d = CopyOk (length (sink c) + length (payload (src c)))"
  using assms
proof (induction "src c" arbitrary: c rule: ends_eof.induct)
  case (1 bs r)
  let ?c1 = "c\<lparr>src := r, pending := pending c @ bs\<rparr>"
  let ?c2 = "?c1\<lparr>pending := [], sink := sink c @ bs, room := room c - length bs\<rparr>"
  have first: "copy_step c ?c1" using 1 by (intro copy_read) auto
  have second: "copy_step\<^sup>*\<^sup>* ?c1 ?c2"
  proof (cases "bs = []")
    case True
    then show ?thesis using 1 by simp
  next
    case False
    then show ?thesis using 1 copy_write [of ?c1 "length bs"] by (auto simp flip: 1(2))
  qed
  have "\<exists>d. copy_step\<^sup>*\<^sup>* ?c2 d \<and>
      cpc d = CopyOk (length (sink ?c2) + length (payload (src ?c2)))"
    using 1 by (intro 1(1)) (auto simp flip: 1(2))
  then obtain d where "copy_step\<^sup>*\<^sup>* ?c2 d"
    "cpc d = CopyOk (length (sink ?c2) + length (payload (src ?c2)))" by blast
  with first second show ?case
    by (intro exI [of _ d]) (auto simp flip: 1(2) intro: converse_rtranclp_into_rtranclp rtranclp_trans)
next
  case (2 r)
  have "copy_step c (c\<lparr>cpc := CopyOk (length (sink c))\<rparr>)" using 2 copy_eof [of c r] by simp
  then have "copy_step\<^sup>*\<^sup>* c (c\<lparr>cpc := CopyOk (length (sink c))\<rparr>)" by (rule r_into_rtranclp)
  then show ?case by (intro exI conjI) (assumption, simp flip: 2(1))
qed (metis ends_eof.simps(3,4))+

end
