(* ===== verification/Stream_Pump.thy ===== *)
theory Stream_Pump
  imports Stream_Copy
begin

text \<open>
  \<open>pump_streams\<close> of \<open>src/proxy.rs\<close>: the two directions of a proxied connection. The upload
  runs inside the call, the download is a spawned task that the call joins, under a time
  limit when one is configured, or aborts. The model interleaves the steps of the two
  tasks in every order, lets any copy, shutdown or the download task itself fail, and
  lets the timer fire whenever the call waits for a running download under a limit; when it
  does fire is the matter of \<open>Pump_Timing\<close>.
\<close>

record pump_stats =
  up_bytes :: nat
  down_bytes :: nat
  timed_out :: bool

text \<open>
  The control point of the call (\<open>MUp\<close> the upload copy, \<open>MShut\<close> the half-close of the send
  stream, \<open>MWait\<close> the join, \<open>MRet\<close> returned) and of the download task (\<open>DAborted\<close> is a task
  that the runtime dropped because of an abort).
\<close>

datatype main_pc = MUp | MShut nat | MWait nat | MRet "error + pump_stats"
datatype down_pc = DCopy | DShut nat | DDone "error + nat" | DPanicked error | DAborted

record pump =
  up :: copy_state
  down :: copy_state
  mpc :: main_pc
  dpc :: down_pc
  abort_req :: bool
  remote_shut :: bool
  local_shut :: bool
  limit :: "nat option"

definition pump_start :: "rd list \<Rightarrow> nat \<Rightarrow> rd list \<Rightarrow> nat \<Rightarrow> nat option \<Rightarrow> pump" where
  "pump_start local_read remote_room remote_recv local_room timeout =
     \<lparr>up = copy_start local_read remote_room, down = copy_start remote_recv local_room,
      mpc = MUp, dpc = DCopy, abort_req = False, remote_shut = False, local_shut = False,
      limit = timeout\<rparr>"

definition up_failed :: "io_error \<Rightarrow> error" where
  "up_failed e = context_err (lit ''local->iroh copy failed'') (io_chain e)"

definition down_failed :: "io_error \<Rightarrow> error" where
  "down_failed e = context_err (lit ''iroh->local copy failed'') (io_chain e)"

definition task_panicked :: "error \<Rightarrow> error" where
  "task_panicked e = context_err (lit ''iroh->local task panicked'') e"

definition down_running :: "down_pc \<Rightarrow> bool" where
  "down_running d = (case d of DCopy \<Rightarrow> True | DShut _ \<Rightarrow> True | _ \<Rightarrow> False)"

definition returned :: "pump \<Rightarrow> bool" where
  "returned s = (case mpc s of MRet _ \<Rightarrow> True | _ \<Rightarrow> False)"

text \<open>
  One step. The result of either shutdown is dropped by the code, so the flag it sets is
  arbitrary. The timer can only end the wait while the download is running: a poll of
  \<open>tokio::time::timeout\<close> asks the joined task first.
\<close>

inductive pump_step :: "pump \<Rightarrow> pump \<Rightarrow> bool" where
  up_copy: "mpc s = MUp \<Longrightarrow> copy_step (up s) c \<Longrightarrow> pump_step s (s\<lparr>up := c\<rparr>)"
| up_eof: "mpc s = MUp \<Longrightarrow> cpc (up s) = CopyOk n \<Longrightarrow> pump_step s (s\<lparr>mpc := MShut n\<rparr>)"
| up_err: "mpc s = MUp \<Longrightarrow> cpc (up s) = CopyErr e \<Longrightarrow>
     pump_step s (s\<lparr>mpc := MRet (Inl (up_failed e)), abort_req := True\<rparr>)"
| up_shutdown: "mpc s = MShut n \<Longrightarrow> pump_step s (s\<lparr>mpc := MWait n, remote_shut := ok\<rparr>)"
| down_copy: "dpc s = DCopy \<Longrightarrow> copy_step (down s) c \<Longrightarrow> pump_step s (s\<lparr>down := c\<rparr>)"
| down_eof: "dpc s = DCopy \<Longrightarrow> cpc (down s) = CopyOk n \<Longrightarrow> pump_step s (s\<lparr>dpc := DShut n\<rparr>)"
| down_err: "dpc s = DCopy \<Longrightarrow> cpc (down s) = CopyErr e \<Longrightarrow>
     pump_step s (s\<lparr>dpc := DDone (Inl (down_failed e))\<rparr>)"
| down_shutdown: "dpc s = DShut n \<Longrightarrow>
     pump_step s (s\<lparr>dpc := DDone (Inr n), local_shut := ok\<rparr>)"
| down_panic: "down_running (dpc s) \<Longrightarrow> pump_step s (s\<lparr>dpc := DPanicked e\<rparr>)"
| down_cancel: "abort_req s \<Longrightarrow> down_running (dpc s) \<Longrightarrow> pump_step s (s\<lparr>dpc := DAborted\<rparr>)"
| join_ok: "mpc s = MWait u \<Longrightarrow> dpc s = DDone (Inr d) \<Longrightarrow>
     pump_step s (s\<lparr>mpc := MRet (Inr \<lparr>up_bytes = u, down_bytes = d, timed_out = False\<rparr>)\<rparr>)"
| join_err: "mpc s = MWait u \<Longrightarrow> dpc s = DDone (Inl e) \<Longrightarrow>
     pump_step s (s\<lparr>mpc := MRet (Inl e)\<rparr>)"
| join_panic: "mpc s = MWait u \<Longrightarrow> dpc s = DPanicked e \<Longrightarrow>
     pump_step s (s\<lparr>mpc := MRet (Inl (task_panicked e))\<rparr>)"
| timeout: "mpc s = MWait u \<Longrightarrow> limit s = Some t \<Longrightarrow> down_running (dpc s) \<Longrightarrow>
     pump_step s (s\<lparr>mpc := MRet (Inr \<lparr>up_bytes = u, down_bytes = 0, timed_out = True\<rparr>),
       abort_req := True\<rparr>)"

inductive_cases pump_stepE: "pump_step s t"


section \<open>The invariant\<close>

fun up_done :: "main_pc \<Rightarrow> copy_pc \<Rightarrow> bool" where
  "up_done MUp c = True"
| "up_done (MShut n) c = (c = CopyOk n)"
| "up_done (MWait n) c = (c = CopyOk n)"
| "up_done (MRet (Inr st)) c = (c = CopyOk (up_bytes st))"
| "up_done (MRet (Inl e)) c = True"

fun down_done :: "down_pc \<Rightarrow> copy_pc \<Rightarrow> bool" where
  "down_done (DShut n) c = (c = CopyOk n)"
| "down_done (DDone (Inr n)) c = (c = CopyOk n)"
| "down_done _ c = True"

definition up_inv :: "rd list \<Rightarrow> pump \<Rightarrow> bool" where
  "up_inv uin s \<longleftrightarrow> copy_inv uin (up s) \<and> up_done (mpc s) (cpc (up s))"

definition down_inv :: "rd list \<Rightarrow> pump \<Rightarrow> bool" where
  "down_inv din s \<longleftrightarrow> copy_inv din (down s) \<and> down_done (dpc s) (cpc (down s))"

definition join_inv :: "pump \<Rightarrow> bool" where
  "join_inv s \<longleftrightarrow>
     (dpc s = DAborted \<longrightarrow> abort_req s) \<and>
     (case mpc s of
        MRet (Inr st) \<Rightarrow>
          (if timed_out st then abort_req s \<and> limit s \<noteq> None \<and> down_bytes st = 0
           else dpc s = DDone (Inr (down_bytes st)))
      | MRet (Inl _) \<Rightarrow> abort_req s \<or> \<not> down_running (dpc s)
      | _ \<Rightarrow> \<not> abort_req s)"

definition pump_inv :: "rd list \<Rightarrow> rd list \<Rightarrow> pump \<Rightarrow> bool" where
  "pump_inv uin din s \<longleftrightarrow> up_inv uin s \<and> down_inv din s \<and> join_inv s"

lemma pump_inv_start [simp]: "pump_inv uin din (pump_start uin ur din dr t)"
  by (simp add: pump_inv_def up_inv_def down_inv_def join_inv_def pump_start_def)

lemma up_inv_step: "up_inv uin s \<Longrightarrow> pump_step s t \<Longrightarrow> up_inv uin t"
  by (erule pump_stepE) (auto simp: up_inv_def intro: copy_step_inv)

lemma down_inv_step: "down_inv din s \<Longrightarrow> pump_step s t \<Longrightarrow> down_inv din t"
  by (erule pump_stepE) (auto simp: down_inv_def intro: copy_step_inv)

lemma join_inv_step: "join_inv s \<Longrightarrow> pump_step s t \<Longrightarrow> join_inv t"
  by (erule pump_stepE)
    (auto simp: join_inv_def down_running_def split: main_pc.splits sum.splits if_splits)

lemma pump_inv_step: "pump_inv uin din s \<Longrightarrow> pump_step s t \<Longrightarrow> pump_inv uin din t"
  unfolding pump_inv_def by (blast intro: up_inv_step down_inv_step join_inv_step)

text \<open>Every step spends work: of a copy, of the call or of the download task.\<close>

fun main_weight :: "main_pc \<Rightarrow> nat" where
  "main_weight MUp = 3"
| "main_weight (MShut _) = 2"
| "main_weight (MWait _) = 1"
| "main_weight (MRet _) = 0"

fun down_weight :: "down_pc \<Rightarrow> nat" where
  "down_weight DCopy = 2"
| "down_weight (DShut _) = 1"
| "down_weight _ = 0"

definition pump_weight :: "pump \<Rightarrow> nat" where
  "pump_weight s = copy_weight (up s) + copy_weight (down s) + main_weight (mpc s) + down_weight (dpc s)"

lemma down_running_weight: "down_running d \<Longrightarrow> 0 < down_weight d"
  by (cases d) (auto simp: down_running_def)

lemma pump_step_weight: "pump_step s t \<Longrightarrow> pump_weight t < pump_weight s"
  by (erule pump_stepE)
    (auto simp: pump_weight_def dest: copy_step_weight down_running_weight)

interpretation pumping: measured_step_system pump_step "pump_inv uin din" pump_weight for uin din
  by unfold_locales (auto intro: pump_inv_step pump_step_weight)



section \<open>Runs without faults\<close>

lemma up_copy_run:
  assumes "copy_step\<^sup>*\<^sup>* c d" and "mpc s = MUp" and "up s = c"
  shows "pump_step\<^sup>*\<^sup>* s (s\<lparr>up := d\<rparr>)"
  using assms
proof (induction rule: rtranclp_induct)
  case (step d e)
  have "pump_step (s\<lparr>up := d\<rparr>) (s\<lparr>up := d\<rparr>\<lparr>up := e\<rparr>)"
    using step by (intro pump_step.up_copy) auto
  with step show ?case by (auto intro: rtranclp.rtrancl_into_rtrancl)
qed (cases s, simp)

lemma down_copy_run:
  assumes "copy_step\<^sup>*\<^sup>* c d" and "dpc s = DCopy" and "down s = c"
  shows "pump_step\<^sup>*\<^sup>* s (s\<lparr>down := d\<rparr>)"
  using assms
proof (induction rule: rtranclp_induct)
  case (step d e)
  have "pump_step (s\<lparr>down := d\<rparr>) (s\<lparr>down := d\<rparr>\<lparr>down := e\<rparr>)"
    using step by (intro pump_step.down_copy) auto
  with step show ?case by (auto intro: rtranclp.rtrancl_into_rtrancl)
qed (cases s, simp)

text \<open>An upload that ends brings the call to the join, whatever the peer does.\<close>

lemma upload_run:
  assumes "ends_eof uin" and "length (payload uin) \<le> ur"
  shows "\<exists>s. pump_step\<^sup>*\<^sup>* (pump_start uin ur din dr t) s \<and> mpc s = MWait (length (payload uin)) \<and>
    dpc s = DCopy \<and> down s = copy_start din dr \<and> limit s = t \<and> remote_shut s"
proof -
  let ?s0 = "pump_start uin ur din dr t"
  obtain d where d: "copy_step\<^sup>*\<^sup>* (copy_start uin ur) d" "cpc d = CopyOk (length (payload uin))"
    using copy_completes [of "copy_start uin ur"] assms by (auto simp: copy_start_def)
  have r1: "pump_step\<^sup>*\<^sup>* ?s0 (?s0\<lparr>up := d\<rparr>)"
    using d(1) by (rule up_copy_run) (auto simp: pump_start_def)
  let ?s1 = "?s0\<lparr>up := d\<rparr>"
  let ?s2 = "?s1\<lparr>mpc := MShut (length (payload uin))\<rparr>"
  let ?s3 = "?s2\<lparr>mpc := MWait (length (payload uin)), remote_shut := True\<rparr>"
  have r2: "pump_step ?s1 ?s2" using d(2) by (intro up_eof) (auto simp: pump_start_def)
  have r3: "pump_step ?s2 ?s3" by (intro up_shutdown) simp
  note rtranclp.rtrancl_into_rtrancl [OF r1 r2]
  note run = rtranclp.rtrancl_into_rtrancl [OF this r3]
  show ?thesis by (rule exI [of _ ?s3], rule conjI [OF run]) (simp add: pump_start_def)
qed

lemma download_run:
  assumes "mpc s = MWait u" "dpc s = DCopy" "down s = copy_start din dr" "ends_eof din" "length (payload din) \<le> dr"
  shows "\<exists>t. pump_step\<^sup>*\<^sup>* s t \<and>
    mpc t = MRet (Inr \<lparr>up_bytes = u, down_bytes = length (payload din), timed_out = False\<rparr>)"
proof -
  obtain d where d: "copy_step\<^sup>*\<^sup>* (copy_start din dr) d" "cpc d = CopyOk (length (payload din))"
    using copy_completes [of "copy_start din dr"] assms(4,5) by (auto simp: copy_start_def)
  let ?n = "length (payload din)"
  let ?s1 = "s\<lparr>down := d\<rparr>"
  let ?s2 = "?s1\<lparr>dpc := DShut ?n\<rparr>"
  let ?s3 = "?s2\<lparr>dpc := DDone (Inr ?n), local_shut := True\<rparr>"
  let ?s4 = "?s3\<lparr>mpc := MRet (Inr \<lparr>up_bytes = u, down_bytes = ?n, timed_out = False\<rparr>)\<rparr>"
  have r1: "pump_step\<^sup>*\<^sup>* s ?s1" using d(1) assms(2,3) by (rule down_copy_run)
  have r2: "pump_step ?s1 ?s2" using d(2) assms(2) by (intro down_eof) auto
  have r3: "pump_step ?s2 ?s3" by (intro down_shutdown) simp
  have r4: "pump_step ?s3 ?s4" using assms(1) by (intro join_ok) auto
  note rtranclp.rtrancl_into_rtrancl [OF r1 r2]
  note rtranclp.rtrancl_into_rtrancl [OF this r3]
  note run = rtranclp.rtrancl_into_rtrancl [OF this r4]
  show ?thesis by (rule exI [of _ ?s4], rule conjI [OF run]) simp
qed

lemma transfer_run:
  assumes "ends_eof uin" "length (payload uin) \<le> ur" "ends_eof din" "length (payload din) \<le> dr"
  shows "\<exists>s. pump_step\<^sup>*\<^sup>* (pump_start uin ur din dr t) s \<and>
    mpc s = MRet (Inr \<lparr>up_bytes = length (payload uin), down_bytes = length (payload din),
      timed_out = False\<rparr>)"
  using upload_run [OF assms(1,2), of din dr t] download_run [OF _ _ _ assms(3,4)]
  by (meson rtranclp_trans)


section \<open>Properties\<close>

lemma stuck_down: "\<not> (\<exists>s'. pump_step s s') \<Longrightarrow> \<not> down_running (dpc s)"
  using down_panic by blast

lemma stuck_main:
  assumes "\<not> (\<exists>s'. pump_step s s')"
  shows "returned s \<or> (\<exists>n. mpc s = MWait n) \<and> dpc s = DAborted"
proof (cases "mpc s")
  case MUp
  then show ?thesis using assms copy_write_err [of "up s"] up_copy up_eof up_err
    by (cases "cpc (up s)") blast+
next
  case (MShut n)
  then show ?thesis using assms up_shutdown by blast
next
  case (MWait n)
  have "dpc s = DAborted"
  proof (cases "dpc s")
    case (DDone r)
    then show ?thesis using MWait assms join_ok join_err by (cases r) blast+
  next
    case (DPanicked e)
    then show ?thesis using MWait assms join_panic by blast
  qed (use stuck_down [OF assms] in \<open>auto simp: down_running_def\<close>)
  with MWait show ?thesis by blast
next
  case (MRet r)
  then show ?thesis by (simp add: returned_def)
qed

lemma pump_reach_inv:
  "pump_step\<^sup>*\<^sup>* (pump_start uin ur din dr t) s \<Longrightarrow> pump_inv uin din s"
  by (erule pumping.steps_inv) (rule pump_inv_start)

lemma limit_fixed: "pump_step\<^sup>*\<^sup>* s t \<Longrightarrow> limit t = limit s"
  by (induction rule: rtranclp_induct) (auto elim: pump_stepE)

text \<open>C2. When the call returns without a timeout, both directions have delivered every
  byte of their input, in order, both inputs ended, and the byte counts are right.\<close>

theorem pump_delivers_all:
  assumes "pump_step\<^sup>*\<^sup>* (pump_start uin ur din dr t) s"
    and "mpc s = MRet (Inr st)" and "\<not> timed_out st"
  shows "sink (up s) = payload uin \<and> sink (down s) = payload din \<and>
    up_bytes st = length (payload uin) \<and> down_bytes st = length (payload din) \<and>
    ends_eof uin \<and> ends_eof din"
  using pump_reach_inv [OF assms(1)] assms(2,3)
  by (auto simp: pump_inv_def up_inv_def down_inv_def join_inv_def copy_inv_def)

theorem pump_delivers_all_witness:
  "\<exists>s. pump_step\<^sup>*\<^sup>* (pump_start [Data [1, 2], Eof] 4 [Data [7], Eof] 4 None) s \<and>
     sink (up s) = [1, 2] \<and> sink (down s) = [7]"
proof -
  obtain s where s: "pump_step\<^sup>*\<^sup>* (pump_start [Data [1, 2], Eof] 4 [Data [7], Eof] 4 None) s"
    "mpc s = MRet (Inr \<lparr>up_bytes = 2, down_bytes = 1, timed_out = False\<rparr>)"
    using transfer_run [of "[Data [1, 2], Eof]" 4 "[Data [7], Eof]" 4 None] by auto
  then show ?thesis using pump_delivers_all [OF s] by (auto intro: exI [of _ s])
qed

text \<open>At every moment of a run, faults and aborts included, what either side has
  received is a prefix of what the other side sent.\<close>

theorem pump_prefix:
  assumes "pump_step\<^sup>*\<^sup>* (pump_start uin ur din dr t) s"
  shows "(\<exists>rest. payload uin = sink (up s) @ rest) \<and> (\<exists>rest. payload din = sink (down s) @ rest)"
  using pump_reach_inv [OF assms]
  by (auto simp: pump_inv_def up_inv_def down_inv_def dest: copy_inv_prefix)

theorem pump_prefix_witness:
  "\<exists>s :: pump. mpc s = MRet (Inr \<lparr>up_bytes = 2, down_bytes = 1, timed_out = False\<rparr>) \<and>
     (\<exists>rest. [7] = sink (down s) @ rest)"
proof -
  obtain s where s: "pump_step\<^sup>*\<^sup>* (pump_start [Data [1, 2], Eof] 4 [Data [7], Eof] 4 None) s"
    "mpc s = MRet (Inr \<lparr>up_bytes = 2, down_bytes = 1, timed_out = False\<rparr>)"
    using transfer_run [of "[Data [1, 2], Eof]" 4 "[Data [7], Eof]" 4 None] by auto
  have "\<exists>rest. payload [Data [7], Eof] = sink (down s) @ rest"
    using pump_prefix [OF s(1)] by (rule conjunct2)
  then show ?thesis using s(2) by - (rule exI [of _ s], simp)
qed

text \<open>C7. No run goes on for ever, and a run that can go no further has returned from the
  call and has left no download task behind: it ended by itself or was aborted. A call
  that has returned while the task is still running has requested its abort.\<close>

theorem pump_terminates_clean:
  assumes "(pump_step ^^ n) (pump_start uin ur din dr t) s"
  shows "n \<le> 7 + script_weight uin + script_weight din \<and>
     (returned s \<longrightarrow> abort_req s \<or> \<not> down_running (dpc s)) \<and>
     ((\<exists>s'. pump_step s s') \<or> returned s \<and> \<not> down_running (dpc s))"
proof (intro conjI)
  have inv: "pump_inv uin din s" and n: "n + pump_weight s \<le> pump_weight (pump_start uin ur din dr t)"
    using pumping.run_length [OF assms pump_inv_start] by auto
  from n show "n \<le> 7 + script_weight uin + script_weight din"
    by (simp add: pump_weight_def copy_weight_def pump_start_def copy_start_def)
  from inv show "returned s \<longrightarrow> abort_req s \<or> \<not> down_running (dpc s)"
    by (auto simp: pump_inv_def join_inv_def returned_def down_running_def
        split: main_pc.splits sum.splits if_splits)
  show "(\<exists>s'. pump_step s s') \<or> returned s \<and> \<not> down_running (dpc s)"
    using stuck_main [of s] stuck_down [of s] inv by (auto simp: pump_inv_def join_inv_def)
qed

theorem pump_terminates_clean_witness:
  "\<exists>n s. (pump_step ^^ n) (pump_start [Data [1, 2], Eof] 4 [Data [7], Eof] 4 None) s \<and>
     returned s \<and> n \<le> 14 \<and> (abort_req s \<or> \<not> down_running (dpc s))"
proof -
  obtain s where s: "pump_step\<^sup>*\<^sup>* (pump_start [Data [1, 2], Eof] 4 [Data [7], Eof] 4 None) s"
    "mpc s = MRet (Inr \<lparr>up_bytes = 2, down_bytes = 1, timed_out = False\<rparr>)"
    using transfer_run [of "[Data [1, 2], Eof]" 4 "[Data [7], Eof]" 4 None] by auto
  then obtain n where n: "(pump_step ^^ n) (pump_start [Data [1, 2], Eof] 4 [Data [7], Eof] 4 None) s"
    using rtranclp_imp_relpowp by fastforce
  have "returned s" using s(2) by (simp add: returned_def)
  with n pump_terminates_clean [OF n] show ?thesis by (intro exI [of _ n] exI [of _ s]) simp
qed

text \<open>The timeout flag is truthful: a call returns with it only when a limit was
  configured and the upload was complete; the upload count is then the whole input and
  the download's abort has been requested.\<close>

theorem pump_timeout_only_after_upload:
  assumes "pump_step\<^sup>*\<^sup>* (pump_start uin ur din dr t) s"
    and "mpc s = MRet (Inr st)" and "timed_out st"
  shows "t \<noteq> None \<and> abort_req s \<and> sink (up s) = payload uin \<and>
    up_bytes st = length (payload uin) \<and> down_bytes st = 0"
  using pump_reach_inv [OF assms(1)] assms(2,3) limit_fixed [OF assms(1)]
  by (auto simp: pump_inv_def up_inv_def join_inv_def copy_inv_def pump_start_def)

theorem pump_timeout_only_after_upload_witness:
  "\<exists>s :: pump. mpc s = MRet (Inr \<lparr>up_bytes = 1, down_bytes = 0, timed_out = True\<rparr>) \<and>
     abort_req s \<and> sink (up s) = [5]"
proof -
  obtain s where s: "pump_step\<^sup>*\<^sup>* (pump_start [Data [5], Eof] 4 [] 0 (Some 1000)) s"
    "mpc s = MWait 1" "limit s = Some 1000" "down_running (dpc s)"
    using upload_run [of "[Data [5], Eof]" 4 "[]" 0 "Some 1000"] by (auto simp: down_running_def)
  let ?s' = "s\<lparr>mpc := MRet (Inr \<lparr>up_bytes = 1, down_bytes = 0, timed_out = True\<rparr>),
    abort_req := True\<rparr>"
  have run: "pump_step\<^sup>*\<^sup>* (pump_start [Data [5], Eof] 4 [] 0 (Some 1000)) ?s'"
    using s(1) pump_step.timeout [OF s(2,3,4)] by (rule rtranclp.rtrancl_into_rtrancl)
  from pump_timeout_only_after_upload [OF run] have "sink (up ?s') = payload [Data [5], Eof]"
    by simp
  then show ?thesis by (intro exI [of _ ?s']) simp
qed

end
