(* ===== verification/Tunnel.thy ===== *)
theory Tunnel
  imports Stream_Pump "HOL-Library.Sublist"
begin

text \<open>
  A forwarded connection end to end: the pump of the forwarding side and the pump of the serving
  side (\<open>pump_streams\<close> of \<open>src/proxy.rs\<close>, called by \<open>forward_tcp_conn\<close> and by
  \<open>proxy_to_route\<close>), joined by the two halves of a stream of the network. The network carries
  what was written in order and at any pace, ends a half after its writer has finished or
  dropped it, and may break a half at any moment. Only the two outer readers, the local client
  and the target, are scripts; each pump reads from the network what the other has written.
\<close>

section \<open>State and steps\<close>

record tunnel =
  near :: pump
  far :: pump
  out_fed :: "rd list"
  in_fed :: "rd list"

definition tunnel_start ::
  "rd list \<Rightarrow> rd list \<Rightarrow> nat \<times> nat \<Rightarrow> nat \<times> nat \<Rightarrow> nat option \<Rightarrow> tunnel" where
  "tunnel_start client server near_rooms far_rooms timeout =
     \<lparr>near = pump_start client (fst near_rooms) [] (snd near_rooms) timeout,
      far = pump_start server (fst far_rooms) [] (snd far_rooms) None, out_fed = [], in_fed = []\<rparr>"

definition feed :: "rd \<Rightarrow> pump \<Rightarrow> pump" where
  "feed x s = s\<lparr>down := (down s)\<lparr>src := src (down s) @ [x]\<rparr>\<rparr>"

fun is_data :: "rd \<Rightarrow> bool" where
  "is_data (Data _) = True"
| "is_data _ = False"

text \<open>What may arrive next of a half whose writer is \<open>s\<close>, after \<open>fed\<close>. A writer that has returned
  has dropped its half, which the library may then finish by itself.\<close>

fun arrives :: "pump \<Rightarrow> rd list \<Rightarrow> rd \<Rightarrow> bool" where
  "arrives s fed (Data bs) = (list_all is_data fed \<and> prefix (payload fed @ bs) (sink (up s)))"
| "arrives s fed Eof = (list_all is_data fed \<and> payload fed = sink (up s) \<and> (remote_shut s \<or> returned s))"
| "arrives s fed (ReadErr e) = list_all is_data fed"

inductive tunnel_step :: "tunnel \<Rightarrow> tunnel \<Rightarrow> bool" where
  near_step: "pump_step (near s) p \<Longrightarrow> tunnel_step s (s\<lparr>near := p\<rparr>)"
| far_step: "pump_step (far s) p \<Longrightarrow> tunnel_step s (s\<lparr>far := p\<rparr>)"
| carry_out: "arrives (near s) (out_fed s) x \<Longrightarrow>
    tunnel_step s (s\<lparr>far := feed x (far s), out_fed := out_fed s @ [x]\<rparr>)"
| carry_in: "arrives (far s) (in_fed s) x \<Longrightarrow>
    tunnel_step s (s\<lparr>near := feed x (near s), in_fed := in_fed s @ [x]\<rparr>)"

inductive_cases tunnel_stepE: "tunnel_step s t"


section \<open>The writing side of a half\<close>

definition upload_failed :: "pump \<Rightarrow> bool" where
  "upload_failed s \<longleftrightarrow> (\<exists>e. mpc s = MRet (Inl (up_failed e)))"

definition writer_inv :: "pump \<Rightarrow> bool" where
  "writer_inv s \<longleftrightarrow> (mpc s \<noteq> MUp \<longrightarrow> (\<exists>n. cpc (up s) = CopyOk n) \<or> upload_failed s) \<and>
     (remote_shut s \<longrightarrow> mpc s \<noteq> MUp)"

lemma writer_step: "pump_step s t \<Longrightarrow> writer_inv s \<Longrightarrow> writer_inv t"
  by (erule pump_stepE) (auto simp: writer_inv_def upload_failed_def)

lemma copy_grows: "copy_step c d \<Longrightarrow> \<exists>x. sink d = sink c @ x"
  by (erule copy_stepE) auto

lemma written_grows: "pump_step s t \<Longrightarrow> prefix (sink (up s)) (sink (up t))"
  by (erule pump_stepE) (auto simp: prefix_def dest: copy_grows)

lemma written_fixed: "pump_step s t \<Longrightarrow> mpc s \<noteq> MUp \<Longrightarrow> up t = up s \<and> mpc t \<noteq> MUp"
  by (erule pump_stepE) auto

lemma shut_stays: "pump_step s t \<Longrightarrow> remote_shut s \<or> returned s \<Longrightarrow> writer_inv s \<Longrightarrow> mpc s \<noteq> MUp"
  by (auto simp: writer_inv_def returned_def split: main_pc.splits)


lemma limit_step: "pump_step s t \<Longrightarrow> limit t = limit s"
  by (erule pump_stepE) auto


section \<open>The half itself\<close>

text \<open>The bytes fed to the reader are a prefix of those written, and all of them at its end.\<close>

definition half_inv :: "pump \<Rightarrow> rd list \<Rightarrow> bool" where
  "half_inv s fed \<longleftrightarrow> prefix (payload fed) (sink (up s)) \<and>
     (ends_eof fed \<longrightarrow> payload fed = sink (up s) \<and> mpc s \<noteq> MUp)"

lemma payload_append: "list_all is_data xs \<Longrightarrow> payload (xs @ ys) = payload xs @ payload ys"
  by (induction xs rule: payload.induct) auto

lemma ends_eof_append: "list_all is_data xs \<Longrightarrow> ends_eof (xs @ ys) = ends_eof ys"
  by (induction xs rule: ends_eof.induct) auto

lemma not_ended: "list_all is_data xs \<Longrightarrow> \<not> ends_eof xs"
  by (induction xs rule: ends_eof.induct) auto

lemma half_step: "half_inv s fed \<Longrightarrow> pump_step s t \<Longrightarrow> half_inv t fed"
  using written_grows [of s t] written_fixed [of s t] unfolding half_inv_def
  by (auto intro: prefix_order.trans)

lemma half_arrives:
  assumes "half_inv s fed" and "writer_inv s" and "arrives s fed x"
  shows "half_inv s (fed @ [x])"
  using assms
  by (cases x) (auto simp: half_inv_def writer_inv_def returned_def payload_append ends_eof_append not_ended)

lemma up_feed [simp]: "up (feed x s) = up s" "mpc (feed x s) = mpc s" "remote_shut (feed x s) = remote_shut s"
  "dpc (feed x s) = dpc s" "abort_req (feed x s) = abort_req s" "limit (feed x s) = limit s"
  "returned (feed x s) = returned s"
  by (simp_all add: feed_def returned_def)

lemma half_feed [simp]: "half_inv (feed x s) fed = half_inv s fed" "writer_inv (feed x s) = writer_inv s"
  by (simp_all add: half_inv_def writer_inv_def upload_failed_def)


section \<open>The reading side of a half\<close>

definition reader_inv :: "rd list \<Rightarrow> rd list \<Rightarrow> pump \<Rightarrow> bool" where
  "reader_inv uin fed s \<longleftrightarrow> pump_inv uin fed s \<and> suffix (src (down s)) fed"

lemma copy_suffix: "copy_step c d \<Longrightarrow> suffix (src d) (src c)"
  by (erule copy_stepE) (auto simp: suffix_def)

lemma reader_step: "reader_inv uin fed s \<Longrightarrow> pump_step s t \<Longrightarrow> reader_inv uin fed t"
  using pumping.step_inv [of uin fed s t]
  by (auto simp: reader_inv_def elim!: pump_stepE dest: copy_suffix intro: suffix_order.trans)

lemma join_feed [simp]: "join_inv (feed x s) = join_inv s"
  by (simp add: join_inv_def split: main_pc.split sum.split)

lemma down_feed [simp]: "down (feed x s) = (down s)\<lparr>src := src (down s) @ [x]\<rparr>"
  by (simp add: feed_def)

lemma reader_feed:
  assumes "reader_inv uin fed s" and "list_all is_data fed"
  shows "reader_inv uin (fed @ [x]) (feed x s)"
proof -
  from assms obtain before where fed: "fed = before @ src (down s)" by (auto simp: reader_inv_def suffix_def)
  with assms(2) have "list_all is_data (src (down s))" by simp
  then show ?thesis
    using assms fed
    by (auto simp: reader_inv_def pump_inv_def up_inv_def down_inv_def copy_inv_def
        payload_append ends_eof_append not_ended suffix_def)
qed


section \<open>Both halves\<close>

definition tunnel_inv :: "rd list \<Rightarrow> rd list \<Rightarrow> tunnel \<Rightarrow> bool" where
  "tunnel_inv client server s \<longleftrightarrow>
     reader_inv client (in_fed s) (near s) \<and> reader_inv server (out_fed s) (far s) \<and>
     writer_inv (near s) \<and> writer_inv (far s) \<and>
     half_inv (near s) (out_fed s) \<and> half_inv (far s) (in_fed s) \<and> limit (far s) = None"

lemma tunnel_inv_start: "tunnel_inv client server (tunnel_start client server nr fr t)"
  by (simp add: tunnel_inv_def tunnel_start_def reader_inv_def writer_inv_def half_inv_def pump_inv_start)
    (simp add: pump_start_def copy_start_def)

lemma arrives_open: "arrives s fed x \<Longrightarrow> list_all is_data fed"
  by (cases x) auto

lemma tunnel_inv_step: "tunnel_inv client server s \<Longrightarrow> tunnel_step s t \<Longrightarrow> tunnel_inv client server t"
  by (erule tunnel_stepE)
    (auto simp: tunnel_inv_def dest: reader_step writer_step half_step limit_step
      intro!: reader_feed half_arrives intro: arrives_open)

interpretation tunneling: step_system tunnel_step "tunnel_inv client server" for client server
  by unfold_locales (rule tunnel_inv_step)


text \<open>What one half means for its reader \<open>r\<close>, whose writer \<open>w\<close> has the input \<open>uin\<close>.\<close>

lemma half_delivers:
  assumes "reader_inv win wfed w" "writer_inv w" "half_inv w fed" "reader_inv rin fed r"
  shows "prefix (sink (down r)) (payload win)"
    and "dpc r = DDone (Inr n) \<Longrightarrow> \<not> upload_failed w \<Longrightarrow>
      sink (down r) = payload win \<and> ends_eof win \<and> n = length (payload win)"
proof -
  have copies: "copy_inv win (up w)" "copy_inv fed (down r)" "up_done (mpc w) (cpc (up w))" "down_done (dpc r) (cpc (down r))"
    using assms(1,4) by (simp_all add: reader_inv_def pump_inv_def up_inv_def down_inv_def)
  have "prefix (sink (down r)) (payload fed)" "prefix (sink (up w)) (payload win)"
    using copy_inv_prefix copies(1,2) by (auto simp: prefix_def)
  with assms(3) show "prefix (sink (down r)) (payload win)"
    by (auto simp: half_inv_def intro: prefix_order.trans)
  show "sink (down r) = payload win \<and> ends_eof win \<and> n = length (payload win)"
    if ended: "dpc r = DDone (Inr n)" "\<not> upload_failed w"
  proof -
    have r: "sink (down r) = payload fed" "n = length (payload fed)" "ends_eof fed"
      using ended(1) copies(2,4) by (simp_all add: copy_inv_def)
    then have w: "payload fed = sink (up w)" "mpc w \<noteq> MUp" using assms(3) by (simp_all add: half_inv_def)
    then obtain m where "cpc (up w) = CopyOk m" using assms(2) ended(2) by (auto simp: writer_inv_def)
    then show ?thesis using copies(1) r w by (simp add: copy_inv_def)
  qed
qed


section \<open>A complete run\<close>

lemma near_run: "pump_step\<^sup>*\<^sup>* (near s) p \<Longrightarrow> tunnel_step\<^sup>*\<^sup>* s (s\<lparr>near := p\<rparr>)"
proof (induction rule: rtranclp_induct)
  case (step p q)
  have "tunnel_step (s\<lparr>near := p\<rparr>) (s\<lparr>near := p\<rparr>\<lparr>near := q\<rparr>)"
    using step.hyps(2) by (intro tunnel_step.near_step) simp
  with step.IH show ?case by simp
qed simp

lemma far_run: "pump_step\<^sup>*\<^sup>* (far s) p \<Longrightarrow> tunnel_step\<^sup>*\<^sup>* s (s\<lparr>far := p\<rparr>)"
proof (induction rule: rtranclp_induct)
  case (step p q)
  have "tunnel_step (s\<lparr>far := p\<rparr>) (s\<lparr>far := p\<rparr>\<lparr>far := q\<rparr>)"
    using step.hyps(2) by (intro tunnel_step.far_step) simp
  with step.IH show ?case by simp
qed simp

lemma carry_all_out:
  assumes "out_fed s = []" and "sink (up (near s)) = bs" and "remote_shut (near s) \<or> returned (near s)"
  shows "tunnel_step\<^sup>*\<^sup>* s (s\<lparr>far := feed Eof (feed (Data bs) (far s)), out_fed := [Data bs, Eof]\<rparr>)"
proof -
  let ?s1 = "s\<lparr>far := feed (Data bs) (far s), out_fed := out_fed s @ [Data bs]\<rparr>"
  have "tunnel_step s ?s1" using assms by (intro carry_out) simp
  moreover have "tunnel_step ?s1 (?s1\<lparr>far := feed Eof (far ?s1), out_fed := out_fed ?s1 @ [Eof]\<rparr>)"
    using assms by (intro carry_out) simp
  ultimately show ?thesis using assms(1) by (auto intro: converse_rtranclp_into_rtranclp)
qed

lemma carry_all_in:
  assumes "in_fed s = []" and "sink (up (far s)) = bs" and "remote_shut (far s) \<or> returned (far s)"
  shows "tunnel_step\<^sup>*\<^sup>* s (s\<lparr>near := feed Eof (feed (Data bs) (near s)), in_fed := [Data bs, Eof]\<rparr>)"
proof -
  let ?s1 = "s\<lparr>near := feed (Data bs) (near s), in_fed := in_fed s @ [Data bs]\<rparr>"
  have "tunnel_step s ?s1" using assms by (intro carry_in) simp
  moreover have "tunnel_step ?s1 (?s1\<lparr>near := feed Eof (near ?s1), in_fed := in_fed ?s1 @ [Eof]\<rparr>)"
    using assms by (intro carry_in) simp
  ultimately show ?thesis using assms(1) by (auto intro: converse_rtranclp_into_rtranclp)
qed

lemma all_written:
  "pump_step\<^sup>*\<^sup>* (pump_start uin ur din dr t) s \<Longrightarrow> mpc s = MWait n \<or> (\<exists>st. mpc s = MRet (Inr st)) \<Longrightarrow>
     sink (up s) = payload uin"
  using pump_reach_inv [of uin ur din dr t s] by (auto simp: pump_inv_def up_inv_def copy_inv_def)

text \<open>Both ends that close, with readers that keep reading: the transfer can complete.\<close>

lemma tunnel_completes:
  assumes "ends_eof client" "length (payload client) \<le> nu" "length (payload client) \<le> fd"
    and "ends_eof server" "length (payload server) \<le> fu" "length (payload server) \<le> nd"
  shows "\<exists>s ns fs. tunnel_step\<^sup>*\<^sup>* (tunnel_start client server (nu, nd) (fu, fd) t) s \<and>
    mpc (near s) = MRet (Inr ns) \<and> \<not> timed_out ns \<and> mpc (far s) = MRet (Inr fs)"
proof -
  let ?c = "payload client" and ?v = "payload server"
  define s0 where "s0 = tunnel_start client server (nu, nd) (fu, fd) t"
  have start: "near s0 = pump_start client nu [] nd t" "far s0 = pump_start server fu [] fd None"
    "out_fed s0 = []" "in_fed s0 = []"
    by (simp_all add: s0_def tunnel_start_def)
  obtain a where a: "pump_step\<^sup>*\<^sup>* (near s0) a" "mpc a = MWait (length ?c)" "dpc a = DCopy" "down a = copy_start [] nd"
    "remote_shut a"
    using upload_run [OF assms(1,2), of "[]" nd t] start by auto
  have "sink (up a) = ?c" using all_written [OF a(1) [unfolded start]] a(2) by simp
  let ?s1 = "s0\<lparr>near := a, far := feed Eof (feed (Data ?c) (far s0)), out_fed := [Data ?c, Eof]\<rparr>"
  have "tunnel_step\<^sup>*\<^sup>* (s0\<lparr>near := a\<rparr>) ?s1"
    using carry_all_out [of "s0\<lparr>near := a\<rparr>" ?c] start a(5) \<open>sink (up a) = ?c\<close> by simp
  with near_run [OF a(1)] have r1: "tunnel_step\<^sup>*\<^sup>* s0 ?s1"
    by (rule rtranclp_trans)
  have fed: "far ?s1 = pump_start server fu [Data ?c, Eof] fd None"
    using start by (simp add: feed_def pump_start_def copy_start_def)
  obtain b where b: "pump_step\<^sup>*\<^sup>* (pump_start server fu [Data ?c, Eof] fd None) b"
    "mpc b = MRet (Inr \<lparr>up_bytes = length ?v, down_bytes = length ?c, timed_out = False\<rparr>)"
    using transfer_run [OF assms(4,5), of "[Data ?c, Eof]" fd None] assms(3) by auto
  let ?s2 = "?s1\<lparr>far := b\<rparr>"
  have r2: "tunnel_step\<^sup>*\<^sup>* ?s1 ?s2" by (rule far_run) (use b(1) fed in simp)
  have "sink (up b) = ?v" using all_written [OF b(1)] b(2) by simp
  let ?s3 = "?s2\<lparr>near := feed Eof (feed (Data ?v) a), in_fed := [Data ?v, Eof]\<rparr>"
  have r3: "tunnel_step\<^sup>*\<^sup>* ?s2 ?s3"
    using carry_all_in [of ?s2 ?v] start b(2) \<open>sink (up b) = ?v\<close> by (simp add: returned_def)
  have "down (near ?s3) = copy_start [Data ?v, Eof] nd" using a(4) by (simp add: copy_start_def)
  then obtain u where u: "pump_step\<^sup>*\<^sup>* (near ?s3) u"
    "mpc u = MRet (Inr \<lparr>up_bytes = length ?c, down_bytes = length ?v, timed_out = False\<rparr>)"
    using download_run [of "near ?s3" "length ?c" "[Data ?v, Eof]" nd] a(2,3) assms(6) by auto
  have "tunnel_step\<^sup>*\<^sup>* s0 (?s3\<lparr>near := u\<rparr>)"
    using r1 r2 r3 near_run [OF u(1)] by (meson rtranclp_trans)
  with u(2) b(2) show ?thesis unfolding s0_def [symmetric] by (intro exI conjI) auto
qed

section \<open>Properties\<close>

text \<open>C1. A forwarded connection, end to end. In every run of the two pumps and the network between
  them, with any failure, delay or abort: at every moment the target has received a prefix of what
  the local client sent, and the client a prefix of what the target sent. When a side has seen the
  end of its stream, it has received everything and the other end had closed, unless the upload of
  the other side has failed there with an error. When both sides report a complete transfer,
  everything has arrived in both directions and the four counts are right.\<close>

theorem tunnel_delivers:
  assumes "tunnel_step\<^sup>*\<^sup>* (tunnel_start client server near_rooms far_rooms timeout) s"
  shows "prefix (sink (down (far s))) (payload client) \<and> prefix (sink (down (near s))) (payload server) \<and>
    (\<forall>n. dpc (far s) = DDone (Inr n) \<longrightarrow> upload_failed (near s) \<or>
       sink (down (far s)) = payload client \<and> ends_eof client \<and> n = length (payload client)) \<and>
    (\<forall>n. dpc (near s) = DDone (Inr n) \<longrightarrow> upload_failed (far s) \<or>
       sink (down (near s)) = payload server \<and> ends_eof server \<and> n = length (payload server)) \<and>
    (\<forall>ns fs. mpc (near s) = MRet (Inr ns) \<and> \<not> timed_out ns \<and> mpc (far s) = MRet (Inr fs) \<longrightarrow>
       sink (down (far s)) = payload client \<and> sink (down (near s)) = payload server \<and>
       up_bytes ns = length (payload client) \<and> down_bytes fs = length (payload client) \<and>
       up_bytes fs = length (payload server) \<and> down_bytes ns = length (payload server))"
proof -
  have inv: "tunnel_inv client server s" by (rule tunneling.steps_inv [OF assms tunnel_inv_start])
  then have I: "reader_inv client (in_fed s) (near s)" "writer_inv (near s)" "half_inv (near s) (out_fed s)"
    "reader_inv server (out_fed s) (far s)" "writer_inv (far s)" "half_inv (far s) (in_fed s)" "limit (far s) = None"
    by (simp_all add: tunnel_inv_def)
  note out_half = half_delivers [OF I(1,2,3,4)] and in_half = half_delivers [OF I(4,5,6,1)]
  have "sink (down (far s)) = payload client \<and> sink (down (near s)) = payload server \<and>
      up_bytes ns = length (payload client) \<and> down_bytes fs = length (payload client) \<and>
      up_bytes fs = length (payload server) \<and> down_bytes ns = length (payload server)"
    if ret: "mpc (near s) = MRet (Inr ns)" "\<not> timed_out ns" "mpc (far s) = MRet (Inr fs)" for ns fs
  proof -
    have "join_inv (near s)" "join_inv (far s)" "up_inv client (near s)" "up_inv server (far s)"
      using I(1,4) by (simp_all add: reader_inv_def pump_inv_def)
    with ret I(7) have "dpc (near s) = DDone (Inr (down_bytes ns))" "dpc (far s) = DDone (Inr (down_bytes fs))"
      "up_bytes ns = length (payload client)" "up_bytes fs = length (payload server)"
      by (auto simp: join_inv_def up_inv_def copy_inv_def split: if_splits)
    moreover have "\<not> upload_failed (near s)" "\<not> upload_failed (far s)"
      using ret by (simp_all add: upload_failed_def)
    ultimately show ?thesis using out_half(2) in_half(2) by simp
  qed
  then show ?thesis using out_half in_half by blast
qed


theorem tunnel_delivers_witness:
  "\<exists>s. tunnel_step\<^sup>*\<^sup>* (tunnel_start [Data [1, 2], Eof] [Data [7], Eof] (4, 4) (4, 4) (Some 2000)) s \<and>
     sink (down (far s)) = [1, 2] \<and> sink (down (near s)) = [7]"
proof -
  obtain s ns fs where s: "tunnel_step\<^sup>*\<^sup>* (tunnel_start [Data [1, 2], Eof] [Data [7], Eof] (4, 4) (4, 4) (Some 2000)) s"
    "mpc (near s) = MRet (Inr ns)" "\<not> timed_out ns" "mpc (far s) = MRet (Inr fs)"
    using tunnel_completes [of "[Data [1, 2], Eof]" 4 4 "[Data [7], Eof]" 4 4 "Some 2000"] by auto
  then show ?thesis using tunnel_delivers [OF s(1)] by (intro exI [of _ s]) simp
qed

end
