(* ===== verification/Hash_Map.thy ===== *)
theory Hash_Map
  imports Prelude "HOL-Library.AList"
begin

text \<open>
  The standard library's \<open>HashMap\<close>, as an association list with distinct keys. The order
  of the list is one of the orders in which the map may iterate, which the library leaves
  open; the properties of the development speak about lookups, sizes, and sets or multisets
  of rows, never about that order. The interface \<open>keyed_table\<close> states what the program relies on; the association
  list interprets it.
\<close>

type_synonym ('k, 'v) hmap = "('k \<times> 'v) list"

definition hm_empty :: "('k, 'v) hmap" where
  "hm_empty = []"

definition hm_get :: "('k, 'v) hmap \<Rightarrow> 'k \<Rightarrow> 'v option" where
  "hm_get m k = map_of m k"

definition hm_contains :: "('k, 'v) hmap \<Rightarrow> 'k \<Rightarrow> bool" where
  "hm_contains m k \<longleftrightarrow> hm_get m k \<noteq> None"

definition hm_insert :: "'k \<Rightarrow> 'v \<Rightarrow> ('k, 'v) hmap \<Rightarrow> ('k, 'v) hmap" where
  "hm_insert k v m = AList.update k v m"

definition hm_remove :: "'k \<Rightarrow> ('k, 'v) hmap \<Rightarrow> ('k, 'v) hmap" where
  "hm_remove k m = AList.delete k m"

definition hm_len :: "('k, 'v) hmap \<Rightarrow> nat" where
  "hm_len m = length m"

definition hm_keys :: "('k, 'v) hmap \<Rightarrow> 'k list" where
  "hm_keys m = map fst m"

definition hm_values :: "('k, 'v) hmap \<Rightarrow> 'v list" where
  "hm_values m = map snd m"

definition hm_ok :: "('k, 'v) hmap \<Rightarrow> bool" where
  "hm_ok m \<longleftrightarrow> distinct (map fst m)"


section \<open>The interface\<close>

text \<open>
  A table with keys: reads after writes, writes of one key leave the others alone, the
  size changes by one exactly when a key enters or leaves.
\<close>

locale keyed_table =
  fixes ok :: "'m \<Rightarrow> bool"
    and get :: "'m \<Rightarrow> 'k \<Rightarrow> 'v option"
    and put :: "'k \<Rightarrow> 'v \<Rightarrow> 'm \<Rightarrow> 'm"
    and del :: "'k \<Rightarrow> 'm \<Rightarrow> 'm"
    and len :: "'m \<Rightarrow> nat"
  assumes ok_put: "ok m \<Longrightarrow> ok (put k v m)"
    and ok_del: "ok m \<Longrightarrow> ok (del k m)"
    and get_put: "ok m \<Longrightarrow> get (put k v m) = (get m)(k \<mapsto> v)"
    and get_del: "ok m \<Longrightarrow> get (del k m) = (get m)(k := None)"
    and len_put: "ok m \<Longrightarrow> len (put k v m) = (if get m k = None then Suc (len m) else len m)"
    and len_del: "ok m \<Longrightarrow> len (del k m) = (if get m k = None then len m else len m - 1)"
begin

lemma del_put_fresh:
  assumes "ok m" and "get m k = None"
  shows "get (del k (put k v m)) = get m" and "len (del k (put k v m)) = len m"
proof -
  have "ok (put k v m)" using assms by (simp add: ok_put)
  then show "get (del k (put k v m)) = get m"
    using assms by (simp add: get_del get_put fun_upd_idem_iff)
  show "len (del k (put k v m)) = len m"
    using \<open>ok (put k v m)\<close> assms by (simp add: len_del len_put get_put)
qed

lemma get_put_other: "ok m \<Longrightarrow> j \<noteq> k \<Longrightarrow> get (put k v m) j = get m j"
  by (simp add: get_put)

lemma get_del_other: "ok m \<Longrightarrow> j \<noteq> k \<Longrightarrow> get (del k m) j = get m j"
  by (simp add: get_del)

lemma dom_put: "ok m \<Longrightarrow> dom (get (put k v m)) = insert k (dom (get m))"
  by (simp add: get_put)

lemma dom_del: "ok m \<Longrightarrow> dom (get (del k m)) = dom (get m) - {k}"
  by (simp add: get_del)

end


section \<open>The association list provides it\<close>

lemma hm_ok_empty [simp]: "hm_ok hm_empty"
  by (simp add: hm_ok_def hm_empty_def)

lemma hm_get_empty [simp]: "hm_get hm_empty k = None"
  by (simp add: hm_get_def hm_empty_def)

lemma hm_len_empty [simp]: "hm_len hm_empty = 0"
  by (simp add: hm_len_def hm_empty_def)

lemma hm_get_eq: "hm_get m = map_of m"
  by (rule ext) (simp add: hm_get_def)

lemma length_update:
  "length (AList.update k v m) = (if map_of m k = None then Suc (length m) else length m)"
  by (induction m) auto

lemma delete_fresh: "map_of m k = None \<Longrightarrow> AList.delete k m = m"
  by (simp add: AList.delete_idem map_of_eq_None_iff)

lemma length_delete:
  "distinct (map fst m) \<Longrightarrow>
     length (AList.delete k m) = (if map_of m k = None then length m else length m - 1)"
proof (induction m)
  case (Cons p m)
  obtain a b where [simp]: "p = (a, b)" by (cases p)
  show ?case
  proof (cases "a = k")
    case True
    with Cons.prems have "map_of m k = None" by (simp add: map_of_eq_None_iff)
    then have "AList.delete k m = m" by (rule delete_fresh)
    with True show ?thesis by (simp add: AList.delete_eq)
  next
    case False
    have "m \<noteq> []" if "map_of m k \<noteq> None" using that by auto
    with False Cons show ?thesis by (auto simp: AList.delete_eq)
  qed
qed (simp add: AList.delete_eq)

interpretation hm: keyed_table hm_ok hm_get hm_insert hm_remove hm_len
proof unfold_locales
  fix m :: "('k \<times> 'v) list" and k :: 'k and v :: 'v
  assume ok: "hm_ok m"
  show "hm_ok (hm_insert k v m)"
    using ok unfolding hm_ok_def hm_insert_def by (rule distinct_update)
  show "hm_ok (hm_remove k m)"
    using ok unfolding hm_ok_def hm_remove_def by (rule distinct_delete)
  show "hm_get (hm_insert k v m) = (hm_get m)(k \<mapsto> v)"
    by (simp add: fun_eq_iff hm_get_def hm_insert_def update_conv)
  show "hm_get (hm_remove k m) = (hm_get m)(k := None)"
    by (simp add: fun_eq_iff hm_get_def hm_remove_def delete_conv)
  show "hm_len (hm_insert k v m) = (if hm_get m k = None then Suc (hm_len m) else hm_len m)"
    by (simp add: hm_len_def hm_insert_def hm_get_def length_update)
  show "hm_len (hm_remove k m) = (if hm_get m k = None then hm_len m else hm_len m - 1)"
    using ok unfolding hm_ok_def hm_len_def hm_remove_def hm_get_def by (rule length_delete)
qed

lemmas hm_simps = hm.get_put hm.get_del hm.len_put hm.len_del hm.ok_put hm.ok_del

lemma hm_insert_fresh: "hm_get m k = None \<Longrightarrow> hm_insert k v m = m @ [(k, v)]"
  by (induction m) (auto simp: hm_get_def hm_insert_def split: if_splits)

lemma hm_remove_snoc: "hm_get m k = None \<Longrightarrow> hm_remove k (m @ [(k, v)]) = m"
  by (simp add: hm_get_def hm_remove_def AList.delete_eq map_of_eq_None_iff filter_empty_conv)
     (auto simp: filter_id_conv image_iff)

lemma hm_remove_other: "k \<notin> fst ` set m \<Longrightarrow> hm_remove k m = m"
  by (simp add: hm_remove_def delete_fresh map_of_eq_None_iff)

lemma hm_remove_middle:
  assumes "hm_ok (xs @ (k, v) # ys)"
  shows "hm_remove k (xs @ (k, v) # ys) = xs @ ys"
proof -
  have "hm_remove k (xs @ (k, v) # ys) = hm_remove k xs @ hm_remove k ys"
    by (simp add: hm_remove_def AList.delete_eq)
  moreover have "k \<notin> fst ` set xs" "k \<notin> fst ` set ys"
    using assms by (auto simp: hm_ok_def)
  ultimately show ?thesis by (simp add: hm_remove_other)
qed

lemma hm_remove_insert_fresh: "hm_get m k = None \<Longrightarrow> hm_remove k (hm_insert k v m) = m"
  by (simp add: hm_insert_fresh hm_remove_snoc)

lemma hm_set: "hm_ok m \<Longrightarrow> (k, v) \<in> set m \<longleftrightarrow> hm_get m k = Some v"
  by (simp add: hm_ok_def hm_get_def)

lemma hm_len_dom: "hm_ok m \<Longrightarrow> hm_len m = card (dom (hm_get m))"
  using distinct_card [of "map fst m"]
  by (simp add: hm_ok_def hm_len_def hm_get_eq dom_map_of_conv_image_fst)

lemma hm_keys_dom: "set (hm_keys m) = dom (hm_get m)"
  by (simp add: hm_keys_def hm_get_eq dom_map_of_conv_image_fst)

lemma hm_keys_distinct: "hm_ok m \<Longrightarrow> distinct (hm_keys m)"
  by (simp add: hm_ok_def hm_keys_def)

lemma hm_values_ran: "hm_ok m \<Longrightarrow> set (hm_values m) = ran (hm_get m)"
  by (simp add: hm_ok_def hm_values_def hm_get_eq ran_distinct)

lemma hm_len_values [simp]: "length (hm_values m) = hm_len m"
  by (simp add: hm_values_def hm_len_def)

end
