(* ===== verification/Serve_Routes.thy ===== *)
theory Serve_Routes
  imports Hash_Map Remote_Path
begin

text \<open>
  Serve routes (\<open>src/daemon/routes.rs\<close>, first half): the table from ALPN bytes to local
  targets, adding to it, and the copy of its keys that the endpoint accepts. What the
  table means is the partial map \<open>served\<close> from service names to targets.
\<close>

section \<open>Definitions\<close>

record route =
  route_name :: rstr
  target :: rstr

type_synonym routes = "(byte list, route) hmap"

definition add_serve_route :: "rstr \<Rightarrow> rstr \<Rightarrow> (routes, error, unit) act" where
  "add_serve_route name tgt routes =
     (case with_context (lit ''invalid service name '' @ quoted name) (validate_service_name name) of
        Inl e \<Rightarrow> (Inl e, routes)
      | Inr _ \<Rightarrow>
          if trim tgt = [] then (Inl (anyhow (lit ''target cannot be empty'')), routes)
          else
            let alpn = service_to_alpn name in
            if hm_contains routes alpn then
              (Inl (anyhow (lit ''duplicate service name '' @ quoted name)), routes)
            else (Inr (), hm_insert alpn \<lparr>route_name = name, target = tgt\<rparr> routes))"

text \<open>\<open>DelServe\<close> removes by the ALPN of the name it is given.\<close>

definition remove_route :: "rstr \<Rightarrow> routes \<Rightarrow> route option \<times> routes" where
  "remove_route name routes =
     (hm_get routes (service_to_alpn name), hm_remove (service_to_alpn name) routes)"

text \<open>The ALPN list that \<open>sync_endpoint_alpns\<close> hands to the endpoint.\<close>

definition route_alpns :: "routes \<Rightarrow> byte list list" where
  "route_alpns routes = hm_keys routes"

definition available_services :: "routes \<Rightarrow> rstr" where
  "available_services routes = join_with (lit '','') (map route_name (hm_values routes))"

definition serve_rows :: "routes \<Rightarrow> (rstr \<times> rstr) list" where
  "serve_rows routes = map (\<lambda>r. (route_name r, target r)) (hm_values routes)"


section \<open>What a table means\<close>

definition served :: "routes \<Rightarrow> rstr \<Rightarrow> rstr option" where
  "served routes name = map_option target (hm_get routes (service_to_alpn name))"

definition route_ok :: "byte list \<times> route \<Rightarrow> bool" where
  "route_ok p \<longleftrightarrow> (case p of (alpn, r) \<Rightarrow>
     alpn = service_to_alpn (route_name r) \<and> valid_str (route_name r) \<and>
     valid_service (route_name r) \<and> trim (target r) \<noteq> [])"

definition routes_ok :: "routes \<Rightarrow> bool" where
  "routes_ok routes \<longleftrightarrow> hm_ok routes \<and> list_all route_ok routes"

lemma routes_ok_empty [simp]: "routes_ok hm_empty"
  by (simp add: routes_ok_def hm_empty_def hm_ok_def)

text \<open>What adding can answer, and what it changes.\<close>

lemma add_serve_route_ok:
  "add_serve_route name tgt routes = (Inr u, routes') \<longleftrightarrow>
     valid_service name \<and> trim tgt \<noteq> [] \<and> hm_get routes (service_to_alpn name) = None \<and>
     routes' = hm_insert (service_to_alpn name) \<lparr>route_name = name, target = tgt\<rparr> routes"
  by (auto simp: add_serve_route_def Let_def hm_contains_def split: sum.splits if_splits)
     (auto simp: with_context_def map_err_def split: sum.splits dest: validate_ok [THEN iffD2])

lemma add_serve_route_err:
  "add_serve_route name tgt routes = (Inl e, routes') \<Longrightarrow> routes' = routes"
  by (auto simp: add_serve_route_def Let_def split: sum.splits if_splits)

lemma add_serve_route_valid:
  assumes "valid_service name"
  shows "add_serve_route name tgt routes =
    (if trim tgt = [] then (Inl (anyhow (lit ''target cannot be empty'')), routes)
     else if served routes name \<noteq> None then
       (Inl (anyhow (lit ''duplicate service name '' @ quoted name)), routes)
     else (Inr (), hm_insert (service_to_alpn name) \<lparr>route_name = name, target = tgt\<rparr> routes))"
proof -
  have v: "validate_service_name name = Inr ()" using assms by simp
  show ?thesis
    unfolding add_serve_route_def v with_context_simps sum.case Let_def hm_contains_def served_def
      map_option_is_None by (rule refl)
qed

lemma add_serve_route_invalid:
  assumes "\<not> valid_service name"
  obtains e where "add_serve_route name tgt routes = (Inl e, routes)"
    and "display_err e = lit ''invalid service name '' @ quoted name"
proof (cases "validate_service_name name")
  case (Inl v)
  show thesis
    by (rule that [OF _ display_context]) (simp only: add_serve_route_def Inl with_context_simps sum.case)
next
  case (Inr u)
  with assms show thesis using validate_ok by blast
qed

lemma add_serve_route_fail:
  assumes "add_serve_route name tgt routes = (Inl e, routes')"
  shows "display_err e =
      (if \<not> valid_service name then lit ''invalid service name '' @ quoted name
       else if trim tgt = [] then lit ''target cannot be empty''
       else lit ''duplicate service name '' @ quoted name) \<and>
    (\<not> valid_service name \<or> trim tgt = [] \<or> served routes name \<noteq> None)"
proof (cases "valid_service name")
  case True
  with assms show ?thesis by (auto simp: add_serve_route_valid split: if_splits)
next
  case False
  then obtain e' where "add_serve_route name tgt routes = (Inl e', routes)"
    "display_err e' = lit ''invalid service name '' @ quoted name"
    by (rule add_serve_route_invalid)
  with assms False show ?thesis by simp
qed

lemma add_serve_route_keeps:
  assumes "valid_str name" and "routes_ok routes"
  shows "routes_ok (snd (add_serve_route name tgt routes))"
proof (cases "add_serve_route name tgt routes")
  case (Pair r routes')
  show ?thesis
  proof (cases r)
    case (Inl e)
    with Pair assms show ?thesis by (auto dest: add_serve_route_err)
  next
    case (Inr u)
    with Pair have *: "valid_service name" "trim tgt \<noteq> []" "hm_get routes (service_to_alpn name) = None"
      "routes' = hm_insert (service_to_alpn name) \<lparr>route_name = name, target = tgt\<rparr> routes"
      by (auto simp: add_serve_route_ok)
    moreover have "hm_ok routes'" using assms * by (simp add: routes_ok_def hm.ok_put)
    ultimately show ?thesis using assms
      by (auto simp: Pair routes_ok_def hm_insert_fresh route_ok_def)
  qed
qed

lemma remove_route_keeps: "routes_ok routes \<Longrightarrow> routes_ok (snd (remove_route name routes))"
  by (auto simp: routes_ok_def remove_route_def hm.ok_del list_all_iff)
     (auto simp: hm_remove_def AList.delete_eq)

lemma served_add:
  assumes "add_serve_route name tgt routes = (Inr u, routes')" "valid_str name" "routes_ok routes"
    and "valid_str n"
  shows "served routes' n = (if n = name then Some tgt else served routes n)"
  using assms by (auto simp: add_serve_route_ok served_def routes_ok_def hm_simps service_to_alpn_inject)

lemma served_remove:
  assumes "routes_ok routes" "valid_str name" "valid_str n"
  shows "served (snd (remove_route name routes)) n = (if n = name then None else served routes n)"
  using assms by (auto simp: remove_route_def served_def routes_ok_def hm_simps service_to_alpn_inject)

lemma serve_rows_served:
  assumes "routes_ok routes" and "valid_str name"
  shows "(name, tgt) \<in> set (serve_rows routes) \<longleftrightarrow> served routes name = Some tgt"
proof
  assume "(name, tgt) \<in> set (serve_rows routes)"
  then obtain alpn r where r: "(alpn, r) \<in> set routes" "name = route_name r" "tgt = target r"
    by (auto simp: serve_rows_def hm_values_def)
  with assms(1) have "hm_get routes alpn = Some r" "alpn = service_to_alpn (route_name r)"
    by (auto simp: routes_ok_def list_all_iff route_ok_def simp flip: hm_set)
  with r show "served routes name = Some tgt" by (simp add: served_def)
next
  assume "served routes name = Some tgt"
  then obtain r where r: "hm_get routes (service_to_alpn name) = Some r" "target r = tgt"
    by (auto simp: served_def)
  with assms have mem: "(service_to_alpn name, r) \<in> set routes" by (simp add: routes_ok_def hm_set)
  with assms have "route_name r = name"
    by (auto simp: routes_ok_def list_all_iff route_ok_def service_to_alpn_inject)
  with mem r show "(name, tgt) \<in> set (serve_rows routes)"
    by (force simp: serve_rows_def hm_values_def)
qed

lemma served_valid:
  "routes_ok routes \<Longrightarrow> valid_str name \<Longrightarrow> served routes name = Some tgt \<Longrightarrow>
     valid_service name \<and> trim tgt \<noteq> []"
  by (auto simp: serve_rows_served [symmetric] serve_rows_def hm_values_def routes_ok_def
      list_all_iff route_ok_def)

lemma serve_rows_length [simp]: "length (serve_rows routes) = hm_len routes"
  by (simp add: serve_rows_def)


section \<open>Properties\<close>

text \<open>A service is added exactly when its name is valid, its target is not blank and the
  name is not served yet; then it is served at that target and no other service changes.
  Otherwise the table stays as it was and the error names the first check that failed.\<close>

theorem add_serve_route_spec:
  assumes "routes_ok routes" and "valid_str name" and "valid_str n"
  shows "(case add_serve_route name tgt routes of
      (Inr u, routes') \<Rightarrow> valid_service name \<and> trim tgt \<noteq> [] \<and> served routes name = None \<and>
        routes_ok routes' \<and> served routes' n = (if n = name then Some tgt else served routes n)
    | (Inl e, routes') \<Rightarrow> routes' = routes \<and> display_err e =
        (if \<not> valid_service name then lit ''invalid service name '' @ quoted name
         else if trim tgt = [] then lit ''target cannot be empty''
         else lit ''duplicate service name '' @ quoted name) \<and>
        (\<not> valid_service name \<or> trim tgt = [] \<or> served routes name \<noteq> None))"
proof (cases "add_serve_route name tgt routes")
  case (Pair r routes')
  show ?thesis
  proof (cases r)
    case (Inr u)
    with Pair have ok: "add_serve_route name tgt routes = (Inr u, routes')" by simp
    have "routes_ok routes'" using add_serve_route_keeps [OF assms(2,1), of tgt] ok by simp
    moreover have "valid_service name" "trim tgt \<noteq> []" "served routes name = None"
      using ok by (auto simp: add_serve_route_ok served_def)
    ultimately show ?thesis using served_add [OF ok assms(2,1,3)] by (simp add: ok)
  next
    case (Inl e)
    with Pair have err: "add_serve_route name tgt routes = (Inl e, routes')" by simp
    from add_serve_route_fail [OF this] add_serve_route_err [OF this] show ?thesis
      by (simp only: err sum.case prod.case)
  qed
qed

theorem add_serve_route_witness:
  "served (snd (add_serve_route [119] [56, 48] hm_empty)) [119] = Some [56, 48] \<and>
   valid_service [119]"
proof -
  have *: "routes_ok hm_empty" "valid_str [119]" by (simp_all add: valid_str_def scalar_def)
  have "add_serve_route [119] [56, 48] hm_empty =
      (Inr (), hm_insert (service_to_alpn [119]) \<lparr>route_name = [119], target = [56, 48]\<rparr> hm_empty)"
    unfolding add_serve_route_ok by (simp add: service_eval trim_def)
  then show ?thesis using add_serve_route_spec [OF * *(2), of "[56, 48]"] by simp
qed

end
