(* ===== verification/Diagnostics.thy ===== *)
theory Diagnostics
  imports Serve_Routes Stream_Pump
begin

text \<open>
  Diagnostics of incoming connections (\<open>src/daemon/diagnostics.rs\<close>): the level at which a
  failure is reported, the description of a connection's paths, and the four log records.
  A log record is its level, its fields in order and its message. What a connection shows of
  itself (paths, counters, peer, negotiated protocol) is a record; the texts of iroh's types
  and the lossy decoding of the ALPN are parameters.
\<close>

section \<open>Levels\<close>

datatype incoming_stage = AcceptStream | ConnectTarget | ProxyStream

fun stage_as_str :: "incoming_stage \<Rightarrow> rstr" where
  "stage_as_str AcceptStream = lit ''accept_stream''"
| "stage_as_str ConnectTarget = lit ''connect_target''"
| "stage_as_str ProxyStream = lit ''proxy_stream''"

record incoming_failure =
  if_stage :: incoming_stage
  if_error :: error

datatype diagnostic_level = LInfo | LWarn | LError

text \<open>Levels are ordered by severity.\<close>

fun severity :: "diagnostic_level \<Rightarrow> nat" where
  "severity LInfo = 0"
| "severity LWarn = 1"
| "severity LError = 2"

lemma severity_inject [simp]: "severity a = severity b \<longleftrightarrow> a = b"
  by (cases a; cases b) simp_all

instantiation diagnostic_level :: linorder
begin

definition less_eq_diagnostic_level :: "diagnostic_level \<Rightarrow> diagnostic_level \<Rightarrow> bool" where
  "less_eq_diagnostic_level a b \<longleftrightarrow> severity a \<le> severity b"

definition less_diagnostic_level :: "diagnostic_level \<Rightarrow> diagnostic_level \<Rightarrow> bool" where
  "less_diagnostic_level a b \<longleftrightarrow> severity a < severity b"

instance
  by standard (auto simp: less_eq_diagnostic_level_def less_diagnostic_level_def simp flip: severity_inject)

end

lemmas level_less = less_eq_diagnostic_level_def less_diagnostic_level_def

fun is_disconnect :: "io_kind \<Rightarrow> bool" where
  "is_disconnect BrokenPipe = True"
| "is_disconnect ConnectionReset = True"
| "is_disconnect ConnectionAborted = True"
| "is_disconnect UnexpectedEof = True"
| "is_disconnect NotConnected = True"
| "is_disconnect _ = False"

definition connection_error_in_chain :: "error \<Rightarrow> conn_error option" where
  "connection_error_in_chain e = find_map (\<lambda>c. conn_of_kind (cause_kind c)) e"

definition io_error_in_chain :: "error \<Rightarrow> io_kind option" where
  "io_error_in_chain e = find_map (\<lambda>c. io_of_kind (cause_kind c)) e"

fun connection_error_level :: "conn_error \<Rightarrow> diagnostic_level" where
  "connection_error_level LocallyClosed = LInfo"
| "connection_error_level (ApplicationClosed code) = (if code = 0 then LInfo else LWarn)"
| "connection_error_level VersionMismatch = LError"
| "connection_error_level CidsExhausted = LError"
| "connection_error_level TransportError = LWarn"
| "connection_error_level ConnectionClosed = LWarn"
| "connection_error_level Reset = LWarn"
| "connection_error_level TimedOut = LWarn"

fun connecting_error_level :: "connecting_error \<Rightarrow> diagnostic_level" where
  "connecting_error_level (ConnectingConnectionError source) = connection_error_level source"
| "connecting_error_level InternalConsistencyError = LError"
| "connecting_error_level HandshakeFailure = LWarn"
| "connecting_error_level LocallyRejected = LWarn"
| "connecting_error_level OtherConnecting = LWarn"

definition incoming_failure_level :: "incoming_failure \<Rightarrow> conn_error option \<Rightarrow> diagnostic_level" where
  "incoming_failure_level f close_reason =
     (case if_stage f of
        ConnectTarget \<Rightarrow> LError
      | AcceptStream \<Rightarrow>
          (case (case connection_error_in_chain (if_error f) of Some e \<Rightarrow> Some e | None \<Rightarrow> close_reason) of
             Some e \<Rightarrow> connection_error_level e
           | None \<Rightarrow> LWarn)
      | ProxyStream \<Rightarrow>
          (case connection_error_in_chain (if_error f) of
             Some reason \<Rightarrow> connection_error_level reason
           | None \<Rightarrow>
               if (case io_error_in_chain (if_error f) of Some k \<Rightarrow> is_disconnect k | None \<Rightarrow> False)
               then (case close_reason of Some r \<Rightarrow> connection_error_level r | None \<Rightarrow> LInfo)
               else LError))"


section \<open>Connections and their paths\<close>

record conn_path =
  cp_selected :: bool
  cp_relay :: bool
  cp_ip :: bool
  cp_remote :: rstr
  cp_local :: rstr
  cp_rtt_ms :: nat

record connection =
  cn_stable_id :: nat
  cn_remote_id :: rstr
  cn_alpn :: "byte list"
  cn_paths :: "conn_path list"
  cn_close_reason :: "conn_error option"
  cn_lost_packets :: nat
  cn_lost_bytes :: nat

record path_diagnostics =
  pd_count :: nat
  has_selected :: bool
  selected_kind :: rstr
  selected_remote :: rstr
  selected_local :: rstr
  selected_rtt_ms :: "nat option"

definition u64_max :: nat where
  "u64_max = 2 ^ 64 - 1"

definition path_diagnostics_of :: "connection \<Rightarrow> path_diagnostics" where
  "path_diagnostics_of c =
     (case find cp_selected (cn_paths c) of
        Some p \<Rightarrow> \<lparr>pd_count = length (cn_paths c), has_selected = True,
          selected_kind = (if cp_relay p then lit ''relay'' else if cp_ip p then lit ''direct''
                           else lit ''unknown''),
          selected_remote = cp_remote p, selected_local = cp_local p,
          selected_rtt_ms = Some (min (cp_rtt_ms p) u64_max)\<rparr>
      | None \<Rightarrow> \<lparr>pd_count = length (cn_paths c), has_selected = False,
          selected_kind = lit ''none'', selected_remote = lit ''<none>'',
          selected_local = lit ''<none>'', selected_rtt_ms = None\<rparr>)"

definition paths_at_failure :: "path_diagnostics \<Rightarrow> path_diagnostics \<Rightarrow> path_diagnostics \<times> rstr" where
  "paths_at_failure current initial =
     (if \<not> has_selected current \<and> has_selected initial then (initial, lit ''handshake_fallback'')
      else (current, lit ''current''))"


section \<open>Log records\<close>

datatype log_record = Log diagnostic_level "(rstr \<times> rstr) list" rstr

fun log_level :: "log_record \<Rightarrow> diagnostic_level" where
  "log_level (Log l fs m) = l"

record log_env =
  show_conn_error :: "conn_error \<Rightarrow> rstr"
  connecting_chain :: "connecting_error \<Rightarrow> error"
  from_utf8_lossy :: "byte list \<Rightarrow> rstr"

definition debug_option :: "nat option \<Rightarrow> rstr" where
  "debug_option v = (case v of None \<Rightarrow> lit ''None'' | Some n \<Rightarrow> lit ''Some('' @ show_nat n @ lit '')'')"

definition path_fields :: "nat \<Rightarrow> path_diagnostics \<Rightarrow> rstr \<Rightarrow> (rstr \<times> rstr) list" where
  "path_fields count paths snapshot =
     [(lit ''path_count'', show_nat count), (lit ''path_snapshot'', snapshot),
      (lit ''selected_path_kind'', selected_kind paths),
      (lit ''selected_path_remote'', selected_remote paths),
      (lit ''selected_path_local'', selected_local paths),
      (lit ''selected_path_rtt_ms'', debug_option (selected_rtt_ms paths))]"

definition log_handshake_failure :: "log_env \<Rightarrow> rstr \<Rightarrow> rstr \<Rightarrow> rstr \<Rightarrow> connecting_error \<Rightarrow> log_record" where
  "log_handshake_failure env peer_addr local_addr available err =
     Log (connecting_error_level err)
       [(lit ''stage'', lit ''handshake''), (lit ''peer_addr'', peer_addr), (lit ''local_addr'', local_addr),
        (lit ''available_services'', available), (lit ''error'', display_chain (connecting_chain env err))]
       (lit ''incoming connection handshake failed'')"

definition log_connection_accepted :: "log_env \<Rightarrow> connection \<Rightarrow> route \<Rightarrow> log_record \<times> path_diagnostics" where
  "log_connection_accepted env c r =
     (let paths = path_diagnostics_of c in
      (Log LInfo
        ([(lit ''stage'', lit ''handshake''), (lit ''connection_id'', show_nat (cn_stable_id c)),
          (lit ''peer'', cn_remote_id c), (lit ''service'', route_name r), (lit ''target'', target r),
          (lit ''alpn'', from_utf8_lossy env (cn_alpn c))] @
         path_fields (pd_count paths) paths (lit ''handshake''))
        (lit ''accepted incoming connection''), paths))"

definition log_established_failure ::
  "log_env \<Rightarrow> connection \<Rightarrow> route \<Rightarrow> path_diagnostics \<Rightarrow> nat \<Rightarrow> incoming_failure \<Rightarrow> log_record" where
  "log_established_failure env c r initial age_ms f =
     (let current = path_diagnostics_of c; (paths, snapshot) = paths_at_failure current initial in
      Log (incoming_failure_level f (cn_close_reason c))
        ([(lit ''stage'', stage_as_str (if_stage f)), (lit ''connection_id'', show_nat (cn_stable_id c)),
          (lit ''connection_age_ms'', show_nat (min age_ms u64_max)), (lit ''peer'', cn_remote_id c),
          (lit ''service'', route_name r), (lit ''target'', target r),
          (lit ''alpn'', from_utf8_lossy env (cn_alpn c))] @
         path_fields (pd_count current) paths snapshot @
         [(lit ''close_reason'', case cn_close_reason c of Some e \<Rightarrow> show_conn_error env e
             | None \<Rightarrow> lit ''<connection still open>''),
          (lit ''quic_lost_packets'', show_nat (cn_lost_packets c)),
          (lit ''quic_lost_bytes'', show_nat (cn_lost_bytes c)),
          (lit ''error'', display_chain (if_error f))])
        (lit ''incoming connection failed''))"

definition log_connection_finished ::
  "log_env \<Rightarrow> connection \<Rightarrow> route \<Rightarrow> path_diagnostics \<Rightarrow> nat \<Rightarrow> pump_stats \<Rightarrow> conn_error \<Rightarrow> log_record" where
  "log_connection_finished env c r initial age_ms stats reason =
     (let current = path_diagnostics_of c; (paths, snapshot) = paths_at_failure current initial in
      Log (connection_error_level reason)
        ([(lit ''stage'', lit ''closed''), (lit ''connection_id'', show_nat (cn_stable_id c)),
          (lit ''connection_age_ms'', show_nat (min age_ms u64_max)), (lit ''peer'', cn_remote_id c),
          (lit ''service'', route_name r),
          (lit ''target_to_peer_bytes'', show_nat (up_bytes stats)),
          (lit ''peer_to_target_bytes'', show_nat (down_bytes stats)),
          (lit ''close_reason'', show_conn_error env reason)] @
         path_fields (pd_count current) paths snapshot @
         [(lit ''quic_lost_packets'', show_nat (cn_lost_packets c)),
          (lit ''quic_lost_bytes'', show_nat (cn_lost_bytes c))])
        (lit ''incoming connection finished''))"


section \<open>Facts\<close>

text \<open>Context messages are transparent: they never hide the error that decides the level.\<close>

lemma chain_context [simp]:
  "connection_error_in_chain (context_err t e) = connection_error_in_chain e"
  "io_error_in_chain (context_err t e) = io_error_in_chain e"
  by (simp_all add: connection_error_in_chain_def io_error_in_chain_def context_err_def msg_def)

lemma chain_io [simp]:
  "connection_error_in_chain (io_chain e) = None"
  "io_error_in_chain (io_chain e) = Some (io_kind e)"
  by (simp_all add: connection_error_in_chain_def io_error_in_chain_def io_chain_def)

lemma level_error_reason:
  "connection_error_level e = LError \<longleftrightarrow> e = VersionMismatch \<or> e = CidsExhausted"
  by (cases e) auto

text \<open>The reason that a failure and the connection's close give together.\<close>

definition failure_reason :: "incoming_failure \<Rightarrow> conn_error option \<Rightarrow> conn_error option" where
  "failure_reason f cr = (case connection_error_in_chain (if_error f) of Some e \<Rightarrow> Some e | None \<Rightarrow> cr)"

definition local_fault :: "incoming_failure \<Rightarrow> bool" where
  "local_fault f \<longleftrightarrow> if_stage f = ConnectTarget \<or>
     if_stage f = ProxyStream \<and> connection_error_in_chain (if_error f) = None \<and>
       (case io_error_in_chain (if_error f) of Some k \<Rightarrow> \<not> is_disconnect k | None \<Rightarrow> True)"

text \<open>The level of a failed connection says whose fault it is. It is an error exactly when
  the local side is at fault (the target cannot be reached, or copying broke for another
  reason than a disconnect), or the reason of the close is a protocol-level breakdown; it
  is only informational exactly when the peer closed without an error code or this side
  closed, or a plain disconnect left no reason; contexts added on the way change nothing.\<close>

theorem incoming_level_spec:
  "(incoming_failure_level f cr = LError \<longleftrightarrow>
      local_fault f \<or> failure_reason f cr \<in> {Some VersionMismatch, Some CidsExhausted}) \<and>
   (incoming_failure_level f cr = LInfo \<longleftrightarrow>
      \<not> local_fault f \<and> (failure_reason f cr \<in> {Some LocallyClosed, Some (ApplicationClosed 0)} \<or>
        failure_reason f cr = None \<and> if_stage f = ProxyStream)) \<and>
   incoming_failure_level (f\<lparr>if_error := context_err t (if_error f)\<rparr>) cr = incoming_failure_level f cr"
proof -
  have info: "connection_error_level e = LInfo \<longleftrightarrow> e = LocallyClosed \<or> e = ApplicationClosed 0" for e
    by (cases e) auto
  show ?thesis
    by (cases "if_stage f")
      (auto simp: incoming_failure_level_def local_fault_def failure_reason_def level_error_reason info
        split: option.splits)
qed

end
