(* ===== verification/Endpoint.thy ===== *)
theory Endpoint
  imports Retry_Policy Diagnostics
begin

text \<open>
  The endpoint of \<open>src/proxy.rs\<close>: how it is built, and how it connects to a remote service. What
  iroh answers is an argument: the bind and the relay's readiness, and for the connections a
  \<open>dialer\<close>, which says for each attempt, endpoint id and ALPN what the attempt gives, and how ids, durations
  (with three decimals and in full) and iroh's errors print.
\<close>

section \<open>Building\<close>

text \<open>The address lookups an endpoint is built with: the flag of the DHT and of mDNS says
  whether this endpoint publishes itself there.\<close>

datatype lookup = LkPkarrResolver | LkDns | LkDht bool | LkMdns bool | LkPkarrPublisher

definition endpoint_lookups :: "bool \<Rightarrow> bool \<Rightarrow> lookup list" where
  "endpoint_lookups publish mdns_enabled =
     [LkPkarrResolver, LkDns, LkDht publish] @
     (if mdns_enabled then [LkMdns publish] else []) @
     (if publish then [LkPkarrPublisher] else [])"

definition endpoint_online_timeout :: nat where
  "endpoint_online_timeout = from_secs 20"

definition as_secs :: "nat \<Rightarrow> nat" where
  "as_secs d = d div 1000000000"

definition log_degraded :: log_record where
  "log_degraded = Log LWarn [(lit ''timeout_secs'', show_nat (as_secs endpoint_online_timeout))]
     (lit ''relay readiness timed out; continuing with a degraded endpoint while iroh reconnects'')"

text \<open>An endpoint is online after some time, if ever.\<close>

definition build_endpoint ::
  "(lookup list \<Rightarrow> error + 'ep) \<Rightarrow> ('ep \<Rightarrow> nat option) \<Rightarrow> bool \<Rightarrow> bool \<Rightarrow> (error + 'ep) \<times> log_record list" where
  "build_endpoint bind online publish mdns_enabled =
     (case bind (endpoint_lookups publish mdns_enabled) of
        Inl e \<Rightarrow> (Inl (context_err (lit ''failed to bind iroh endpoint'') e), [])
      | Inr ep \<Rightarrow>
          (Inr ep,
           (case online ep of
              Some t \<Rightarrow> if t \<le> endpoint_online_timeout then [] else [log_degraded]
            | None \<Rightarrow> [log_degraded])))"

definition announces :: "lookup \<Rightarrow> bool" where
  "announces l = (case l of LkDht b \<Rightarrow> b | LkMdns b \<Rightarrow> b | LkPkarrPublisher \<Rightarrow> True | _ \<Rightarrow> False)"

lemma client_never_announces: "list_ex announces (endpoint_lookups publish mdns) \<longleftrightarrow> publish"
  by (simp add: endpoint_lookups_def announces_def)

lemma mdns_only_if_enabled: "LkMdns b \<in> set (endpoint_lookups publish mdns) \<longleftrightarrow> mdns \<and> b = publish"
  by (auto simp: endpoint_lookups_def)

lemma build_endpoint_ok:
  "fst (build_endpoint bind online publish mdns) = Inr ep \<longleftrightarrow> bind (endpoint_lookups publish mdns) = Inr ep"
  by (simp add: build_endpoint_def split: sum.split)

lemma build_endpoint_cases:
  "fst (build_endpoint bind online publish mdns) =
     with_context (lit ''failed to bind iroh endpoint'') (bind (endpoint_lookups publish mdns))"
  by (simp add: build_endpoint_def split: sum.split del: lit_simps)


section \<open>Connecting\<close>

record ('i, 'c) dialer =
  dl_connect :: "nat \<Rightarrow> 'i \<Rightarrow> byte list \<Rightarrow> (connect_error, 'c) attempt"
  dl_timeout_late :: "nat \<Rightarrow> nat"
  dl_sleep_late :: "nat \<Rightarrow> nat"
  dl_started :: nat
  dl_show_id :: "'i \<Rightarrow> rstr"
  dl_show_secs :: "nat \<Rightarrow> rstr"
  dl_show_f64 :: "nat \<Rightarrow> rstr"
  dl_chain :: "connect_error \<Rightarrow> error"

definition connect_remote :: "('i \<Rightarrow> byte list \<Rightarrow> 'a) \<Rightarrow> 'i remote_path \<Rightarrow> 'a" where
  "connect_remote connect remote = connect (endpoint_id remote) (to_alpn remote)"

definition connect_attempts :: "('i, 'c) dialer \<Rightarrow> 'i remote_path \<Rightarrow> (connect_error, 'c) retry_env" where
  "connect_attempts dl remote =
     \<lparr>attempt_of = (\<lambda>n. connect_remote (dl_connect dl n) remote),
      timeout_late = dl_timeout_late dl, sleep_late = dl_sleep_late dl\<rparr>"

definition connect_remote_with_retry :: "('i, 'c) dialer \<Rightarrow> 'i remote_path \<Rightarrow> retry_policy \<Rightarrow> error + 'c" where
  "connect_remote_with_retry dl remote p =
     with_context (lit ''failed connecting to remote endpoint '' @ dl_show_id dl (endpoint_id remote) @
         lit '' via configured address lookups'')
       (map_err (retry_error_chain (dl_show_secs dl) (dl_chain dl) (lit ''remote connect''))
         (run_result (retry_with_backoff p (connect_attempts dl remote) is_transient_connect_error
           (dl_started dl))))"

text \<open>A connection that is returned is one that some attempt gave, for the id and the ALPN of the
  remote path.\<close>

lemma connect_gives_requested:
  assumes "connect_remote_with_retry dl remote p = Inr c"
  shows "\<exists>n. outcome (dl_connect dl n (endpoint_id remote) (to_alpn remote)) = Inr c"
proof -
  let ?r = "retry_with_backoff p (connect_attempts dl remote) is_transient_connect_error (dl_started dl)"
  have "run_result ?r = Inr c" using assms by (simp add: connect_remote_with_retry_def)
  then have "\<exists>n. outcome (attempt_of (connect_attempts dl remote) n) = Inr c"
    using retry_outcome [of p "connect_attempts dl remote" is_transient_connect_error "dl_started dl"] by metis
  then show ?thesis by (simp add: connect_attempts_def connect_remote_def)
qed

end
