(* ===== verification/Forward_Client.thy ===== *)
theory Forward_Client
  imports Endpoint
begin

text \<open>
  The client side: forwarding one accepted connection (\<open>src/proxy.rs\<close>), and the standalone
  \<open>forward\<close> modes (\<open>src/forward.rs\<close>). The answers of the network (connecting, opening a stream,
  the pump's result under its limit, binding, accepting) are arguments; what the code does with
  them, its log records among them, is a list of effects in order.
\<close>

section \<open>One forwarded connection\<close>

datatype fwd_effect =
    Logged log_record | Connected | Registered rstr | StreamOpened
  | Pumped "nat option" "error + pump_stats" | ConnClosed | Unregistered

definition peer_text :: "rstr option \<Rightarrow> rstr" where
  "peer_text addr = (case addr of Some a \<Rightarrow> a | None \<Rightarrow> lit ''<unknown>'')"

definition forward_fields :: "('i \<Rightarrow> rstr) \<Rightarrow> rstr \<Rightarrow> 'i remote_path \<Rightarrow> (rstr \<times> rstr) list" where
  "forward_fields show_id peer remote =
     [(lit ''src'', peer), (lit ''remote'', show_id (endpoint_id remote)), (lit ''service'', service remote)]"

definition bytes_fields :: "pump_stats \<Rightarrow> (rstr \<times> rstr) list" where
  "bytes_fields stats =
     [(lit ''up_bytes'', show_nat (up_bytes stats)), (lit ''down_bytes'', show_nat (down_bytes stats))]"

definition log_forward_end :: "(nat \<Rightarrow> rstr) \<Rightarrow> (rstr \<times> rstr) list \<Rightarrow> nat \<Rightarrow> pump_stats \<Rightarrow> log_record" where
  "log_forward_end show_f64 about bound stats =
     (if timed_out stats
      then Log LWarn (about @ [(lit ''timeout_secs'', show_f64 bound)])
        (lit ''forward close-on-request timeout reached; connection closed'')
      else Log LInfo (about @ bytes_fields stats) (lit ''forwarding finished''))"

text \<open>The guard that \<open>register\<close> returns is dropped when the function ends.\<close>

definition forward_tcp_conn ::
  "('i, 'c) dialer \<Rightarrow> rstr option \<Rightarrow> 'i remote_path \<Rightarrow> nat \<Rightarrow> ('c \<Rightarrow> error + unit) \<Rightarrow>
   (nat option \<Rightarrow> error + pump_stats) \<Rightarrow> (error + unit) \<times> fwd_effect list" where
  "forward_tcp_conn dl peer remote bound open_bi pumping =
     (let shown = peer_text peer;
          about = forward_fields (dl_show_id dl) shown remote;
          begun = Logged (Log LInfo about (lit ''forwarding connection''))
      in case connect_remote_with_retry dl remote default_policy of
        Inl e \<Rightarrow> (Inl e, [begun])
      | Inr c \<Rightarrow>
          (case open_bi c of
             Inl e \<Rightarrow> (Inl e, [begun, Connected, Registered shown, Unregistered])
           | Inr _ \<Rightarrow>
               let effects = [begun, Connected, Registered shown, StreamOpened,
                     Logged (Log LInfo about (lit ''forward stream established'')),
                     Pumped (Some bound) (pumping (Some bound)), ConnClosed]
               in (case pumping (Some bound) of
                     Inl e \<Rightarrow> (Inl e, effects @ [Unregistered])
                   | Inr stats \<Rightarrow> (Inr (), effects @
                       [Logged (log_forward_end (dl_show_f64 dl) about bound stats), Unregistered]))))"

text \<open>A task that forwards one accepted connection reports the error it ends with.\<close>

definition forward_task_report :: "rstr \<Rightarrow> error + unit \<Rightarrow> log_record list" where
  "forward_task_report peer_addr r =
     (case r of
        Inl e \<Rightarrow> [Log LWarn [(lit ''peer'', peer_addr), (lit ''error'', display_chain e)]
          (lit ''forwarding connection failed'')]
      | Inr _ \<Rightarrow> [])"

definition forward_stdio ::
  "(lookup list \<Rightarrow> error + 'ep) \<Rightarrow> ('ep \<Rightarrow> nat option) \<Rightarrow> ('ep \<Rightarrow> ('i, 'c) dialer) \<Rightarrow> 'i remote_path \<Rightarrow> bool \<Rightarrow>
   ('c \<Rightarrow> error + unit) \<Rightarrow> (nat option \<Rightarrow> error + pump_stats) \<Rightarrow> (error + unit) \<times> fwd_effect list" where
  "forward_stdio bind online dial remote mdns_enabled open_bi pumping =
     (case build_endpoint bind online False mdns_enabled of
        (Inl e, logs) \<Rightarrow> (Inl e, map Logged logs)
      | (Inr ep, logs) \<Rightarrow>
          (case connect_remote_with_retry (dial ep) remote default_policy of
             Inl e \<Rightarrow> (Inl e, map Logged logs)
           | Inr c \<Rightarrow>
               (case open_bi c of
                  Inl e \<Rightarrow> (Inl e, map Logged logs @ [Connected])
                | Inr _ \<Rightarrow>
                    let effects = map Logged logs @ [Connected, StreamOpened, Pumped None (pumping None), ConnClosed]
                    in (case pumping None of
                          Inl e \<Rightarrow> (Inl e, effects)
                        | Inr stats \<Rightarrow> (Inr (), effects @
                            [Logged (Log LInfo (bytes_fields stats) (lit ''forward stdio finished''))])))))"

definition is_pumped :: "fwd_effect \<Rightarrow> bool" where
  "is_pumped e = (case e of Pumped _ _ \<Rightarrow> True | _ \<Rightarrow> False)"

definition is_registered :: "fwd_effect \<Rightarrow> bool" where
  "is_registered e = (case e of Registered _ \<Rightarrow> True | _ \<Rightarrow> False)"


section \<open>The standalone listeners\<close>

record 'i fwd_binding =
  bd_listen :: rstr
  bd_remote :: "'i remote_path"
  bd_timeout :: nat

fun prepare_bindings :: "(rstr \<Rightarrow> io_error + unit) \<Rightarrow> 'i fwd_binding list \<Rightarrow> error + 'i fwd_binding list" where
  "prepare_bindings bind [] = Inr []"
| "prepare_bindings bind (b # bs) =
     (case bind (bd_listen b) of
        Inl e \<Rightarrow> Inl (context_err (lit ''failed to bind local listener '' @ bd_listen b) (io_chain e))
      | Inr _ \<Rightarrow> bind_res (prepare_bindings bind bs) (\<lambda>rest. Inr (b # rest)))"

text \<open>The bindings that listeners are spawned for; the call itself then waits for ever.\<close>

definition forward_bindings ::
  "(lookup list \<Rightarrow> error + 'ep) \<Rightarrow> ('ep \<Rightarrow> nat option) \<Rightarrow> bool \<Rightarrow> (rstr \<Rightarrow> io_error + unit) \<Rightarrow>
   'i fwd_binding list \<Rightarrow> error + 'i fwd_binding list" where
  "forward_bindings bind_endpoint online mdns_enabled bind bindings =
     (if bindings = [] then Inl (anyhow (lit ''at least one forward binding is required''))
      else bind_res (fst (build_endpoint bind_endpoint online False mdns_enabled)) (\<lambda>_.
        prepare_bindings bind bindings))"

text \<open>A listener over the answers of \<open>accept\<close>: the connections it spawned, and its end.\<close>

fun run_forward_listener :: "(io_error + 'c) list \<Rightarrow> 'c list \<times> error option" where
  "run_forward_listener [] = ([], None)"
| "run_forward_listener (Inl e # _) = ([], Some (io_chain e))"
| "run_forward_listener (Inr c # rest) =
     (case run_forward_listener rest of (cs, r) \<Rightarrow> (c # cs, r))"


section \<open>Properties\<close>

lemma prepare_all:
  "prepare_bindings bind bs = Inr bs' \<longleftrightarrow> bs' = bs \<and> list_all (\<lambda>b. is_ok (bind (bd_listen b))) bs"
  by (induction bs arbitrary: bs') (auto simp: bind_res_Inr_iff is_ok_iff split: sum.splits)

lemma forward_bindings_ok:
  "forward_bindings ep online mdns bind bindings = Inr bs \<longleftrightarrow>
     bs = bindings \<and> bindings \<noteq> [] \<and> is_ok (ep (endpoint_lookups False mdns)) \<and>
     list_all (\<lambda>b. is_ok (bind (bd_listen b))) bindings"
  unfolding forward_bindings_def build_endpoint_cases
  by (auto simp: bind_res_Inr_iff prepare_all is_ok_iff simp del: lit_simps)

text \<open>A forwarded connection is torn down in order on every path: an entry that was
  registered is removed last, once; once the pump ran, under the limit of the binding, the remote
  connection is closed right after it and before the entry goes, whether the pump failed, timed
  out or finished; the result is an error exactly when connecting, opening the stream or the pump
  failed, and the last record is a warning exactly when the limit cut the transfer.\<close>

lemma effect_kinds [simp]:
  "is_registered (Logged l) = False" "is_registered Connected = False" "is_registered (Registered s) = True"
  "is_registered StreamOpened = False" "is_registered (Pumped m p) = False" "is_registered ConnClosed = False"
  "is_registered Unregistered = False" "is_pumped (Logged l) = False" "is_pumped Connected = False"
  "is_pumped (Registered s) = False" "is_pumped StreamOpened = False" "is_pumped (Pumped m p) = True"
  "is_pumped ConnClosed = False" "is_pumped Unregistered = False"
  by (simp_all add: is_registered_def is_pumped_def)

theorem forward_conn_teardown:
  fixes dl :: "('i, 'c) dialer" and remote :: "'i remote_path"
  defines "connect \<equiv> connect_remote_with_retry dl remote default_policy"
  shows "case forward_tcp_conn dl peer remote bound open_bi pumping of (r, effects) \<Rightarrow>
     (case connect of
        Inl e \<Rightarrow> r = Inl e \<and> \<not> list_ex is_registered effects \<and> \<not> list_ex is_pumped effects
      | Inr c \<Rightarrow>
          filter is_registered effects = [Registered (peer_text peer)] \<and>
          last effects = Unregistered \<and> length (filter ((=) Unregistered) effects) = 1 \<and>
          (case open_bi c of
             Inl e \<Rightarrow> r = Inl e \<and> \<not> list_ex is_pumped effects
           | Inr _ \<Rightarrow>
               (\<exists>begun log. filter is_pumped begun = [] \<and>
                  effects = begun @ Pumped (Some bound) (pumping (Some bound)) # ConnClosed # log @ [Unregistered] \<and>
                  (case pumping (Some bound) of
                     Inl e \<Rightarrow> r = Inl e \<and> log = []
                   | Inr stats \<Rightarrow> r = Inr () \<and> log = [Logged (log_forward_end (dl_show_f64 dl)
                      (forward_fields (dl_show_id dl) (peer_text peer) remote) bound stats)]))))"
proof (cases connect)
  case (Inl e)
  then show ?thesis by (simp add: forward_tcp_conn_def connect_def Let_def)
next
  case (Inr c)
  show ?thesis
  proof (cases "open_bi c")
    case (Inl e)
    with Inr show ?thesis by (simp add: forward_tcp_conn_def connect_def Let_def)
  next
    case (Inr u)
    with \<open>connect = Inr c\<close> show ?thesis
      by (cases "pumping (Some bound)")
        (auto simp: forward_tcp_conn_def connect_def Let_def Cons_eq_append_conv)
  qed
qed

text \<open>The close of the remote connection is not on every exit path: when opening the stream
  fails, the function returns with the connection established and no close.\<close>

theorem open_failure_skips_close:
  assumes "connect_remote_with_retry dl remote default_policy = Inr c" and "open_bi c = Inl e"
  shows "fst (forward_tcp_conn dl peer remote bound open_bi pumping) = Inl e \<and>
    Connected \<in> set (snd (forward_tcp_conn dl peer remote bound open_bi pumping)) \<and>
    ConnClosed \<notin> set (snd (forward_tcp_conn dl peer remote bound open_bi pumping))"
  using assms by (simp add: forward_tcp_conn_def Let_def)

end
