(* ===== verification/Conn_Registry.thy ===== *)
theory Conn_Registry
  imports Hash_Map Text "HOL-Library.Multiset"
begin

text \<open>
  The registry of in-flight connections (\<open>src/daemon/connections.rs\<close>). \<open>register\<close> hands out
  a guard, which is its identifier; the guard's drop removes the entry. The state-event
  channel is the list of events sent so far: every sender holds a handle of the same
  channel and ignores the result of sending. The entries are compared with the guards as
  multisets: the order in which the map iterates is no part of any statement.
\<close>

section \<open>Definitions\<close>

record active_connection =
  ac_src :: rstr
  ac_kind :: rstr
  ac_dst :: rstr

record registry =
  active :: "(64 word, active_connection) hmap"
  next_id :: "64 word"
  state_tx :: "rstr list"

definition registry_new :: "rstr list \<Rightarrow> registry" where
  "registry_new tx = \<lparr>active = hm_empty, next_id = 1, state_tx = tx\<rparr>"

definition send_event :: "rstr \<Rightarrow> registry \<Rightarrow> registry" where
  "send_event ev r = r\<lparr>state_tx := state_tx r @ [ev]\<rparr>"

text \<open>\<open>fetch_add\<close> wraps; the entry is inserted before the event is sent.\<close>

definition register :: "active_connection \<Rightarrow> registry \<Rightarrow> 64 word \<times> registry" where
  "register info r =
     (let cid = next_id r;
          r1 = r\<lparr>next_id := next_id r + 1\<rparr>;
          r2 = r1\<lparr>active := hm_insert cid info (active r1)\<rparr>
      in (cid, send_event (lit ''connection-opened'') r2))"

definition guard_drop :: "64 word \<Rightarrow> registry \<Rightarrow> registry" where
  "guard_drop cid r =
     send_event (lit ''connection-closed'') (r\<lparr>active := hm_remove cid (active r)\<rparr>)"

definition registry_len :: "registry \<Rightarrow> nat" where
  "registry_len r = hm_len (active r)"

definition snapshot :: "registry \<Rightarrow> (64 word \<times> active_connection) list" where
  "snapshot r = map (\<lambda>(cid, conn). (cid, conn)) (active r)"


section \<open>The registry with its guards\<close>

text \<open>
  The registry beside the guards that are alive, as ownership has them: a guard exists from
  its registration to its drop and is dropped once. \<open>made\<close> counts registrations; the
  steps stop before the identifiers, which start at 1, would wrap around to used ones.
\<close>

record reg_sys =
  reg :: registry
  guards :: "(64 word \<times> active_connection) list"
  made :: nat

inductive reg_step :: "reg_sys \<Rightarrow> reg_sys \<Rightarrow> bool" where
  reg_open: "made s + 1 < 2 ^ 64 \<Longrightarrow> register info (reg s) = (cid, r) \<Longrightarrow>
     reg_step s \<lparr>reg = r, guards = guards s @ [(cid, info)], made = Suc (made s)\<rparr>"
| reg_close: "guards s = gs @ (cid, info) # hs \<Longrightarrow>
     reg_step s (s\<lparr>reg := guard_drop cid (reg s), guards := gs @ hs\<rparr>)"

inductive_cases reg_stepE: "reg_step s t"

definition reg_start :: "rstr list \<Rightarrow> reg_sys" where
  "reg_start tx = \<lparr>reg = registry_new tx, guards = [], made = 0\<rparr>"

definition opened :: rstr where "opened = lit ''connection-opened''"
definition closed :: rstr where "closed = lit ''connection-closed''"

definition reg_inv :: "rstr list \<Rightarrow> reg_sys \<Rightarrow> bool" where
  "reg_inv tx s \<longleftrightarrow>
     mset (active (reg s)) = mset (guards s) \<and> hm_ok (active (reg s)) \<and>
     made s < 2 ^ 64 \<and> next_id (reg s) = of_nat (Suc (made s)) \<and>
     (\<forall>(cid, info)\<in>set (guards s). 0 < unat cid \<and> unat cid \<le> made s) \<and>
     (\<exists>sent. state_tx (reg s) = tx @ sent \<and> length (filter ((=) opened) sent) = made s \<and>
        length (filter ((=) closed) sent) + length (guards s) = made s \<and>
        set sent \<subseteq> {opened, closed})"

lemma opened_closed [simp]: "opened \<noteq> closed" "closed \<noteq> opened"
  by (simp_all add: opened_def closed_def text_eval)

lemma reg_inv_start: "reg_inv tx (reg_start tx)"
  by (simp add: reg_inv_def reg_start_def registry_new_def hm_empty_def hm_ok_def)

lemma snapshot_active [simp]: "snapshot r = active r"
  by (simp add: snapshot_def)

text \<open>An identifier above every registered one is free.\<close>

lemma fresh_id:
  assumes "reg_inv tx s" and "made s + 1 < 2 ^ 64"
  shows "hm_get (active (reg s)) (next_id (reg s)) = None" "unat (next_id (reg s)) = Suc (made s)"
proof -
  show u: "unat (next_id (reg s)) = Suc (made s)"
    using assms by (simp add: reg_inv_def unat_of_nat del: of_nat_Suc)
  show "hm_get (active (reg s)) (next_id (reg s)) = None"
  proof (rule ccontr)
    assume "hm_get (active (reg s)) (next_id (reg s)) \<noteq> None"
    then obtain info where "(next_id (reg s), info) \<in> set (active (reg s))"
      by (auto simp: hm_get_def dest: map_of_SomeD)
    then have "(next_id (reg s), info) \<in> set (guards s)"
      using assms(1) by (metis reg_inv_def mset_eq_setD)
    with assms(1) have "unat (next_id (reg s)) \<le> made s" by (auto simp: reg_inv_def)
    with u show False by simp
  qed
qed

lemma mset_hm_remove:
  assumes "hm_ok m" and "mset m = add_mset (k, v) M"
  shows "mset (hm_remove k m) = M"
proof -
  have "(k, v) \<in> set m" using assms(2) by (metis set_mset_mset union_single_eq_member)
  then obtain xs ys where "m = xs @ (k, v) # ys" by (meson split_list)
  with assms show ?thesis by (simp add: hm_remove_middle)
qed

lemma reg_open_inv:
  assumes "reg_inv tx s" and room: "made s + 1 < 2 ^ 64" and "register info (reg s) = (cid, r)"
  shows "reg_inv tx \<lparr>reg = r, guards = guards s @ [(cid, info)], made = Suc (made s)\<rparr>"
proof -
  obtain sent where sent: "state_tx (reg s) = tx @ sent" "length (filter ((=) opened) sent) = made s"
    "length (filter ((=) closed) sent) + length (guards s) = made s" "set sent \<subseteq> {opened, closed}"
    using assms(1) by (auto simp: reg_inv_def)
  have cid: "cid = next_id (reg s)"
    and r: "r = (reg s)\<lparr>next_id := next_id (reg s) + 1, active := active (reg s) @ [(cid, info)],
      state_tx := tx @ sent @ [opened]\<rparr>"
    using assms(1,3) sent(1) fresh_id [OF assms(1) room]
    by (auto simp: register_def Let_def send_event_def reg_inv_def hm_insert_fresh opened_def)
  have ok: "hm_ok (active (reg s) @ [(cid, info)])"
    using assms(1) fresh_id(1) [OF assms(1) room]
    by (auto simp: reg_inv_def hm_ok_def hm_get_def cid map_of_eq_None_iff)
  have nx: "next_id (reg s) + 1 = of_nat (Suc (Suc (made s)))"
    using assms(1) by (simp add: reg_inv_def add_ac)
  have ids: "\<forall>(j, info)\<in>set (guards s @ [(cid, info)]). 0 < unat j \<and> unat j \<le> Suc (made s)"
    using assms(1) fresh_id(2) [OF assms(1) room] by (auto simp: reg_inv_def cid)
  have ev: "\<exists>sent'. tx @ sent @ [opened] = tx @ sent' \<and>
      length (filter ((=) opened) sent') = Suc (made s) \<and>
      length (filter ((=) closed) sent') + length (guards s @ [(cid, info)]) = Suc (made s) \<and>
      set sent' \<subseteq> {opened, closed}"
    using sent(2-) by (intro exI [of _ "sent @ [opened]"]) auto
  have "mset (active (reg s)) = mset (guards s)" using assms(1) by (simp add: reg_inv_def)
  then show ?thesis unfolding reg_inv_def using ok nx ids ev room by (simp add: r)
qed

lemma reg_close_inv:
  assumes "reg_inv tx s" and gs: "guards s = gs @ (cid, info) # hs"
  shows "reg_inv tx (s\<lparr>reg := guard_drop cid (reg s), guards := gs @ hs\<rparr>)"
proof -
  obtain sent where sent: "state_tx (reg s) = tx @ sent" "length (filter ((=) opened) sent) = made s"
    "length (filter ((=) closed) sent) + length (guards s) = made s" "set sent \<subseteq> {opened, closed}"
    using assms(1) by (auto simp: reg_inv_def)
  have active: "hm_ok (active (reg s))" "mset (active (reg s)) = add_mset (cid, info) (mset (gs @ hs))"
    using assms by (simp_all add: reg_inv_def)
  then have rm: "mset (hm_remove cid (active (reg s))) = mset (gs @ hs)" by (rule mset_hm_remove)
  have ok: "hm_ok (hm_remove cid (active (reg s)))" using active(1) by (rule hm.ok_del)
  have ev: "\<exists>sent'. tx @ sent @ [closed] = tx @ sent' \<and>
      length (filter ((=) opened) sent') = made s \<and>
      length (filter ((=) closed) sent') + length (gs @ hs) = made s \<and>
      set sent' \<subseteq> {opened, closed}"
    using sent(2-) gs by (intro exI [of _ "sent @ [closed]"]) auto
  have "guard_drop cid (reg s) =
      (reg s)\<lparr>active := hm_remove cid (active (reg s)), state_tx := tx @ sent @ [closed]\<rparr>"
    using assms(1) sent(1) by (simp add: guard_drop_def send_event_def reg_inv_def closed_def)
  then show ?thesis unfolding reg_inv_def using assms ok rm ev by (simp add: reg_inv_def)
qed

interpretation registering: step_system reg_step "reg_inv tx" for tx
  by unfold_locales (auto elim!: reg_stepE intro: reg_open_inv reg_close_inv)


section \<open>Properties\<close>

text \<open>C12. After any sequence of registrations and guard drops (up to the wrap of the 64-bit
  counter) the registry lists, in some order, exactly the connections whose guard is alive,
  each once, with the data it registered and under an identifier of its own; its length is
  their number, and
  it equals the number of \<open>connection-opened\<close> events sent minus that of
  \<open>connection-closed\<close> events.\<close>

theorem registry_tracks_guards:
  assumes "reg_step\<^sup>*\<^sup>* (reg_start []) s"
  shows "mset (snapshot (reg s)) = mset (guards s) \<and> distinct (map fst (snapshot (reg s))) \<and>
    registry_len (reg s) = length (guards s) \<and>
    registry_len (reg s) + length (filter ((=) (lit ''connection-closed'')) (state_tx (reg s))) =
      length (filter ((=) (lit ''connection-opened'')) (state_tx (reg s)))"
proof -
  have "reg_inv [] s" by (rule registering.steps_inv [OF assms reg_inv_start])
  then show ?thesis unfolding opened_def [symmetric] closed_def [symmetric]
    by (auto simp: reg_inv_def hm_ok_def registry_len_def hm_len_def dest: mset_eq_length)
qed

theorem registry_tracks_guards_witness:
  "\<exists>s. reg_step\<^sup>*\<^sup>* (reg_start []) s \<and> registry_len (reg s) = 1 \<and>
     mset (snapshot (reg s)) = {#(2, \<lparr>ac_src = [98], ac_kind = [], ac_dst = []\<rparr>)#}"
proof -
  let ?a = "\<lparr>ac_src = [97], ac_kind = [], ac_dst = []\<rparr>"
  let ?b = "\<lparr>ac_src = [98], ac_kind = [], ac_dst = []\<rparr>"
  let ?s0 = "reg_start []"
  let ?s1 = "\<lparr>reg = snd (register ?a (reg ?s0)), guards = [(1, ?a)], made = 1\<rparr>"
  let ?s2 = "\<lparr>reg = snd (register ?b (reg ?s1)), guards = [(1, ?a), (2, ?b)], made = Suc (made ?s1)\<rparr>"
  let ?s3 = "?s2\<lparr>reg := guard_drop 1 (reg ?s2), guards := [(2, ?b)]\<rparr>"
  have "reg_step ?s0 ?s1"
    using reg_open [of ?s0 ?a 1 "snd (register ?a (reg ?s0))"]
    by (simp add: reg_start_def registry_new_def register_def Let_def send_event_def)
  moreover have "reg_step ?s1 ?s2"
    using reg_open [of ?s1 ?b 2 "snd (register ?b (reg ?s1))"]
    by (simp add: reg_start_def registry_new_def register_def Let_def send_event_def)
  moreover have "reg_step ?s2 ?s3"
    using reg_close [of ?s2 "[]" 1 ?a "[(2, ?b)]"] by simp
  ultimately have run: "reg_step\<^sup>*\<^sup>* ?s0 ?s3" by (meson r_into_rtranclp rtranclp_trans)
  from registry_tracks_guards [OF run] run show ?thesis by (intro exI [of _ ?s3]) simp
qed

end
