(* ===== verification/Forward_Table.thy ===== *)
theory Forward_Table
  imports Conn_Registry Remote_Path Errors "HOL-Library.Multiset"
begin

text \<open>
  Forward bindings owned by the daemon (\<open>src/daemon/forwards.rs\<close>): the table of listeners,
  the listener task behind each entry with the connection tasks it holds, and the entries
  those connections have in the registry. Deleting an entry drops its \<open>ForwardRuntime\<close>,
  whose \<open>Drop\<close> asks for the task's abort. The abort takes effect in a later step, which
  closes the listener and drops the task's \<open>JoinSet\<close>; that asks for the abort of the
  connection tasks, each of which is again dropped in a later step of its own. A connection
  task dropped in the middle of a transfer drops the \<open>JoinHandle\<close> of its download task,
  which only detaches the download: it goes on without an owner.
\<close>

section \<open>Definitions\<close>

record 'i forward_binding =
  fb_listen :: rstr
  fb_remote :: "'i remote_path"
  fb_timeout :: nat

record 'i forward_runtime =
  fr_remote :: "'i remote_path"
  fr_persisted :: bool
  fr_task :: nat

text \<open>
  A connection task (\<open>forward_tcp_conn\<close>) is connecting to the remote; established,
  registered and opening its stream; or in \<open>pump_streams\<close>, whose download task is still
  running or not. \<open>cn_abort\<close> is the abort that the drop of the \<open>JoinSet\<close> asks for.
\<close>

datatype conn_stage = Dialing | Live "64 word" | Pumping "64 word" bool

record conn_task =
  cn_stage :: conn_stage
  cn_abort :: bool

record 'i listener_task =
  lt_listen :: rstr
  lt_remote :: "'i remote_path"
  lt_timeout :: nat
  lt_abort :: bool
  lt_running :: bool
  lt_conns :: "conn_task list"

text \<open>
  \<open>serve_guards\<close> are the registry entries that incoming connections hold; \<open>detached\<close> are
  the downloads that run without a connection task, each with the identifier that its
  connection had in the registry.
\<close>

record 'i forwards_state =
  table :: "(rstr, 'i forward_runtime) hmap"
  tasks :: "'i listener_task list"
  conns :: registry
  serve_guards :: "64 word list"
  detached :: "64 word list"

text \<open>\<open>add_forward_binding\<close>; \<open>bind\<close> is the operating system's answer to the bind.\<close>

definition add_forward_binding ::
  "(rstr \<Rightarrow> io_error + unit) \<Rightarrow> 'i forward_binding \<Rightarrow> bool \<Rightarrow> ('i forwards_state, error, unit) act" where
  "add_forward_binding bind binding persisted s =
     (if hm_contains (table s) (fb_listen binding) then
        (Inl (anyhow (lit ''listener '' @ fb_listen binding @ lit '' already exists'')), s)
      else
        case bind (fb_listen binding) of
          Inl e \<Rightarrow> (Inl (context_err (lit ''failed to bind local listener '' @ fb_listen binding)
                      (io_chain e)), s)
        | Inr _ \<Rightarrow>
            let task = \<lparr>lt_listen = fb_listen binding, lt_remote = fb_remote binding,
                  lt_timeout = fb_timeout binding, lt_abort = False, lt_running = True, lt_conns = []\<rparr>;
                runtime = \<lparr>fr_remote = fb_remote binding, fr_persisted = persisted,
                  fr_task = length (tasks s)\<rparr>
            in (Inr (), s\<lparr>tasks := tasks s @ [task],
                  table := hm_insert (fb_listen binding) runtime (table s),
                  conns := send_event (lit ''forward-added'') (conns s)\<rparr>))"

definition upd_task :: "nat \<Rightarrow> ('i listener_task \<Rightarrow> 'i listener_task) \<Rightarrow> 'i forwards_state \<Rightarrow> 'i forwards_state" where
  "upd_task i f s = s\<lparr>tasks := (tasks s)[i := f (tasks s ! i)]\<rparr>"

text \<open>\<open>ForwardRuntime::drop\<close>, and the removal that triggers it (\<open>DelForward\<close>).\<close>

definition runtime_drop :: "'i forward_runtime \<Rightarrow> 'i forwards_state \<Rightarrow> 'i forwards_state" where
  "runtime_drop rt s = upd_task (fr_task rt) (\<lambda>t. t\<lparr>lt_abort := True\<rparr>) s"

definition remove_forward :: "rstr \<Rightarrow> 'i forwards_state \<Rightarrow> bool \<times> 'i forwards_state" where
  "remove_forward listen s =
     (case hm_get (table s) listen of
        None \<Rightarrow> (False, s)
      | Some rt \<Rightarrow> (True, runtime_drop rt (s\<lparr>table := hm_remove listen (table s)\<rparr>)))"

text \<open>Dropping a connection task drops the guard of an established one.\<close>

fun stage_guards :: "conn_stage \<Rightarrow> 64 word list" where
  "stage_guards Dialing = []"
| "stage_guards (Live g) = [g]"
| "stage_guards (Pumping g _) = [g]"

abbreviation conn_guards :: "conn_task \<Rightarrow> 64 word list" where
  "conn_guards c \<equiv> stage_guards (cn_stage c)"

definition drop_conn :: "conn_task \<Rightarrow> registry \<Rightarrow> registry" where
  "drop_conn c r = fold guard_drop (conn_guards c) r"

text \<open>The download that a dropped connection task leaves behind, if it has one running.\<close>

fun running_download :: "conn_stage \<Rightarrow> 64 word list" where
  "running_download (Pumping g True) = [g]"
| "running_download _ = []"

text \<open>
  The end of the listener task, by a failing accept or by its abort: the listener and the
  \<open>JoinSet\<close> are dropped. \<open>set_stage\<close> moves one connection task to its next stage.
\<close>

definition listener_stop :: "nat \<Rightarrow> 'i forwards_state \<Rightarrow> 'i forwards_state" where
  "listener_stop i s = upd_task i (\<lambda>t. t\<lparr>lt_running := False,
     lt_conns := map (\<lambda>c. c\<lparr>cn_abort := True\<rparr>) (lt_conns t)\<rparr>) s"

definition accept_conn :: "nat \<Rightarrow> 'i forwards_state \<Rightarrow> 'i forwards_state" where
  "accept_conn i s = upd_task i (\<lambda>t. t\<lparr>lt_conns := lt_conns t @ [\<lparr>cn_stage = Dialing, cn_abort = False\<rparr>]\<rparr>) s"

abbreviation stage_of :: "'i forwards_state \<Rightarrow> nat \<Rightarrow> nat \<Rightarrow> conn_stage" where
  "stage_of s i j \<equiv> cn_stage (lt_conns (tasks s ! i) ! j)"

definition set_stage :: "nat \<Rightarrow> nat \<Rightarrow> conn_stage \<Rightarrow> 'i forwards_state \<Rightarrow> 'i forwards_state" where
  "set_stage i j st s =
     upd_task i (\<lambda>t. t\<lparr>lt_conns := (lt_conns t)[j := (lt_conns t ! j)\<lparr>cn_stage := st\<rparr>]\<rparr>) s"

text \<open>The \<open>register\<close> closure that the daemon passes to \<open>forward_tcp_conn\<close>.\<close>

definition conn_established ::
  "('i \<Rightarrow> rstr) \<Rightarrow> rstr \<Rightarrow> nat \<Rightarrow> nat \<Rightarrow> 'i forwards_state \<Rightarrow> 'i forwards_state" where
  "conn_established show_id peer i j s =
     (let info = \<lparr>ac_src = peer, ac_kind = lit ''forward'',
            ac_dst = remote_display show_id (lt_remote (tasks s ! i))\<rparr>;
          (g, r) = register info (conns s)
      in (set_stage i j (Live g) s)\<lparr>conns := r\<rparr>)"

definition remove_nth :: "nat \<Rightarrow> 'a list \<Rightarrow> 'a list" where
  "remove_nth j xs = take j xs @ drop (Suc j) xs"

text \<open>
  \<open>forward_tcp_conn\<close> returns: a pump that was running has joined its download or asked for
  its abort. \<open>conn_dropped\<close> is the other end of a connection task, its abort.
\<close>

definition conn_finished :: "nat \<Rightarrow> nat \<Rightarrow> 'i forwards_state \<Rightarrow> 'i forwards_state" where
  "conn_finished i j s =
     (upd_task i (\<lambda>t. t\<lparr>lt_conns := remove_nth j (lt_conns t)\<rparr>) s)
       \<lparr>conns := drop_conn (lt_conns (tasks s ! i) ! j) (conns s)\<rparr>"

definition conn_dropped :: "nat \<Rightarrow> nat \<Rightarrow> 'i forwards_state \<Rightarrow> 'i forwards_state" where
  "conn_dropped i j s =
     (conn_finished i j s)\<lparr>detached := detached s @ running_download (stage_of s i j)\<rparr>"

text \<open>
  The operating system's answer to a bind: an address on which a task of the daemon still
  listens is in use, unless its port is 0, which asks for any free port. \<open>outer\<close> is its
  answer otherwise.
\<close>

definition addr_held :: "'i forwards_state \<Rightarrow> rstr \<Rightarrow> bool" where
  "addr_held s l \<longleftrightarrow> list_ex (\<lambda>t. lt_running t \<and> lt_listen t = l) (tasks s)"

definition any_port :: "rstr \<Rightarrow> bool" where
  "any_port l \<longleftrightarrow> set (takeWhile (\<lambda>c. c \<noteq> 58) (rev l)) \<subseteq> {43, 48}"

definition os_bind :: "(rstr \<Rightarrow> io_error + unit) \<Rightarrow> 'i forwards_state \<Rightarrow> rstr \<Rightarrow> io_error + unit" where
  "os_bind outer s l =
     (if addr_held s l \<and> \<not> any_port l then Inl (IoError AddrInUse (lit ''Address already in use'')) else outer l)"

definition forward_rows :: "('i \<Rightarrow> rstr) \<Rightarrow> 'i forwards_state \<Rightarrow> (rstr \<times> rstr \<times> bool) list" where
  "forward_rows show_id s =
     map (\<lambda>(listen, rt). (listen, remote_display show_id (fr_remote rt), fr_persisted rt)) (table s)"

text \<open>
  The steps: the two control operations, the listener task's loop (accept, a failing
  accept, which ends the task, and its cancellation after an abort), its connections, the
  downloads that lost their connection, and the serve side's use of the same registry. A
  registration takes an identifier that is not in use: the 64-bit counter does not come
  around to one within a connection's life.
\<close>

definition listener_cancels :: "nat \<Rightarrow> 'i forwards_state \<Rightarrow> 'i forwards_state \<Rightarrow> bool" where
  "listener_cancels i s t \<longleftrightarrow> i < length (tasks s) \<and> lt_running (tasks s ! i) \<and> lt_abort (tasks s ! i) \<and>
     t = listener_stop i s"

definition conn_cancels :: "nat \<Rightarrow> 'i forwards_state \<Rightarrow> 'i forwards_state \<Rightarrow> bool" where
  "conn_cancels i s t \<longleftrightarrow> i < length (tasks s) \<and>
     (\<exists>j<length (lt_conns (tasks s ! i)). cn_abort (lt_conns (tasks s ! i) ! j) \<and> t = conn_dropped i j s)"

inductive fwd_step :: "('i \<Rightarrow> rstr) \<Rightarrow> 'i forwards_state \<Rightarrow> 'i forwards_state \<Rightarrow> bool"
  for show_id :: "'i \<Rightarrow> rstr" where
  fwd_add: "fwd_step show_id s (snd (add_forward_binding (os_bind outer s) b p s))"
| fwd_del: "fwd_step show_id s (snd (remove_forward listen s))"
| fwd_accept: "i < length (tasks s) \<Longrightarrow> lt_running (tasks s ! i) \<Longrightarrow> fwd_step show_id s (accept_conn i s)"
| fwd_accept_err: "i < length (tasks s) \<Longrightarrow> lt_running (tasks s ! i) \<Longrightarrow>
     fwd_step show_id s (listener_stop i s)"
| fwd_cancel: "listener_cancels i s t \<Longrightarrow> fwd_step show_id s t"
| fwd_open: "i < length (tasks s) \<Longrightarrow> j < length (lt_conns (tasks s ! i)) \<Longrightarrow>
     stage_of s i j = Dialing \<Longrightarrow> hm_get (active (conns s)) (next_id (conns s)) = None \<Longrightarrow>
     fwd_step show_id s (conn_established show_id peer i j s)"
| fwd_pump: "i < length (tasks s) \<Longrightarrow> j < length (lt_conns (tasks s ! i)) \<Longrightarrow>
     stage_of s i j = Live g \<Longrightarrow> fwd_step show_id s (set_stage i j (Pumping g True) s)"
| fwd_down_end: "i < length (tasks s) \<Longrightarrow> j < length (lt_conns (tasks s ! i)) \<Longrightarrow>
     stage_of s i j = Pumping g True \<Longrightarrow> fwd_step show_id s (set_stage i j (Pumping g False) s)"
| fwd_close: "i < length (tasks s) \<Longrightarrow> j < length (lt_conns (tasks s ! i)) \<Longrightarrow>
     fwd_step show_id s (conn_finished i j s)"
| fwd_conn_cancel: "conn_cancels i s t \<Longrightarrow> fwd_step show_id s t"
| fwd_detached_end: "detached s = gs @ g # hs \<Longrightarrow> fwd_step show_id s (s\<lparr>detached := gs @ hs\<rparr>)"
| fwd_serve_open: "hm_get (active (conns s)) (next_id (conns s)) = None \<Longrightarrow>
     register info (conns s) = (g, r) \<Longrightarrow>
     fwd_step show_id s (s\<lparr>conns := r, serve_guards := serve_guards s @ [g]\<rparr>)"
| fwd_serve_close: "serve_guards s = gs @ g # hs \<Longrightarrow>
     fwd_step show_id s (s\<lparr>conns := guard_drop g (conns s), serve_guards := gs @ hs\<rparr>)"

inductive_cases fwd_stepE: "fwd_step show_id s t"

definition fwd_start :: "'i forwards_state" where
  "fwd_start = \<lparr>table = hm_empty, tasks = [], conns = registry_new [], serve_guards = [], detached = []\<rparr>"



section \<open>The table and its tasks\<close>

text \<open>
  Every entry has a task of its own that listens where the entry says and has not been told
  to stop; every running task that has not been told to stop belongs to an entry; the
  connections of a task that is not running have been told to stop.
\<close>

definition entry_ok :: "'i listener_task list \<Rightarrow> rstr \<Rightarrow> 'i forward_runtime \<Rightarrow> bool" where
  "entry_ok ts l rt \<longleftrightarrow> fr_task rt < length ts \<and> lt_listen (ts ! fr_task rt) = l \<and>
     lt_remote (ts ! fr_task rt) = fr_remote rt \<and> \<not> lt_abort (ts ! fr_task rt)"

definition task_ok :: "(rstr, 'i forward_runtime) hmap \<Rightarrow> nat \<Rightarrow> 'i listener_task \<Rightarrow> bool" where
  "task_ok tb i t \<longleftrightarrow>
     (lt_running t \<longrightarrow> \<not> lt_abort t \<longrightarrow> map_option fr_task (hm_get tb (lt_listen t)) = Some i) \<and>
     (\<not> lt_running t \<longrightarrow> list_all cn_abort (lt_conns t))"

definition table_inv :: "'i forwards_state \<Rightarrow> bool" where
  "table_inv s \<longleftrightarrow> hm_ok (table s) \<and>
     (\<forall>l rt. hm_get (table s) l = Some rt \<longrightarrow> entry_ok (tasks s) l rt) \<and>
     (\<forall>i<length (tasks s). task_ok (table s) i (tasks s ! i))"

lemma table_inv_start: "table_inv fwd_start"
  by (simp add: table_inv_def fwd_start_def)

text \<open>Steps that change one task but not what it listens to, nor start or abort it.\<close>

lemma table_invD:
  assumes "table_inv s"
  shows "hm_ok (table s)"
    and "hm_get (table s) l = Some rt \<Longrightarrow> entry_ok (tasks s) l rt"
    and "i < length (tasks s) \<Longrightarrow> task_ok (table s) i (tasks s ! i)"
  using assms by (simp_all add: table_inv_def)

lemma table_invI:
  assumes "hm_ok (table s)"
    and "\<And>l rt. hm_get (table s) l = Some rt \<Longrightarrow> entry_ok (tasks s) l rt"
    and "\<And>i. i < length (tasks s) \<Longrightarrow> task_ok (table s) i (tasks s ! i)"
  shows "table_inv s"
  using assms by (simp add: table_inv_def)

lemma entry_ok_upd:
  assumes "entry_ok ts l rt"
    and "lt_listen t = lt_listen (ts ! i)" "lt_remote t = lt_remote (ts ! i)"
    and "fr_task rt = i \<Longrightarrow> lt_abort t = lt_abort (ts ! i)"
  shows "entry_ok (ts[i := t]) l rt"
  using assms by (cases "fr_task rt = i") (auto simp: entry_ok_def)

lemma table_inv_upd:
  assumes inv: "table_inv s" and i: "i < length (tasks s)"
    and t: "lt_listen t = lt_listen (tasks s ! i)" "lt_remote t = lt_remote (tasks s ! i)"
      "lt_abort t = lt_abort (tasks s ! i)"
    and run: "lt_running t \<longrightarrow> lt_running (tasks s ! i)" "\<not> lt_running t \<longrightarrow> list_all cn_abort (lt_conns t)"
    and s': "table s' = table s" "tasks s' = (tasks s)[i := t]"
  shows "table_inv s'"
proof (rule table_invI)
  show "hm_ok (table s')" using table_invD(1) [OF inv] by (simp add: s')
  show "entry_ok (tasks s') l rt" if "hm_get (table s') l = Some rt" for l rt
    using entry_ok_upd [OF table_invD(2) [OF inv]] that t by (simp add: s')
  have "task_ok (table s) i t"
    using table_invD(3) [OF inv i] t run by (simp add: task_ok_def)
  then show "task_ok (table s') k (tasks s' ! k)" if "k < length (tasks s')" for k
    using table_invD(3) [OF inv, of k] that by (cases "k = i") (simp_all add: s')
qed

lemma table_inv_add:
  assumes "table_inv s"
  shows "table_inv (snd (add_forward_binding bind b p s))"
proof (cases "hm_get (table s) (fb_listen b) = None \<and> is_ok (bind (fb_listen b))")
  case False
  then show ?thesis using assms
    by (auto simp: add_forward_binding_def hm_contains_def split: sum.splits)
next
  case True
  then obtain u where free: "hm_get (table s) (fb_listen b) = None" "bind (fb_listen b) = Inr u"
    by (auto simp: is_ok_iff)
  note ok = table_invD [OF assms]
  show ?thesis
  proof (rule table_invI)
    show "hm_ok (table (snd (add_forward_binding bind b p s)))"
      using free ok(1) by (simp add: add_forward_binding_def hm_contains_def Let_def hm.ok_put)
    show "entry_ok (tasks (snd (add_forward_binding bind b p s))) l rt"
      if "hm_get (table (snd (add_forward_binding bind b p s))) l = Some rt" for l rt
      using free ok(1) ok(2) [of l rt] that
      by (auto simp: add_forward_binding_def hm_contains_def Let_def hm.get_put entry_ok_def nth_append
          split: if_splits)
    show "task_ok (table (snd (add_forward_binding bind b p s))) k
        (tasks (snd (add_forward_binding bind b p s)) ! k)"
      if "k < length (tasks (snd (add_forward_binding bind b p s)))" for k
      using free ok(1) ok(3) [of k] that
      by (auto simp: add_forward_binding_def hm_contains_def Let_def hm.get_put task_ok_def nth_append
          less_Suc_eq)
  qed
qed

lemma table_inv_del:
  assumes "table_inv s"
  shows "table_inv (snd (remove_forward listen s))"
proof (cases "hm_get (table s) listen")
  case None
  then show ?thesis using assms by (simp add: remove_forward_def)
next
  case (Some rt)
  note ok = table_invD [OF assms]
  have rt: "entry_ok (tasks s) listen rt" using Some by (rule ok)
  let ?s = "snd (remove_forward listen s)"
  have tb: "table ?s = hm_remove listen (table s)"
    and ts: "tasks ?s = (tasks s)[fr_task rt := (tasks s ! fr_task rt)\<lparr>lt_abort := True\<rparr>]"
    using Some by (simp_all add: remove_forward_def runtime_drop_def upd_task_def)
  show ?thesis
  proof (rule table_invI)
    show "hm_ok (table ?s)" using ok(1) by (simp add: tb hm.ok_del)
    show "entry_ok (tasks ?s) l rt'" if "hm_get (table ?s) l = Some rt'" for l rt'
    proof -
      have l: "l \<noteq> listen" "entry_ok (tasks s) l rt'"
        using that ok(1) ok(2) [of l rt'] by (auto simp: tb hm.get_del split: if_splits)
      then have "fr_task rt' \<noteq> fr_task rt" using rt by (auto simp: entry_ok_def)
      with l(2) show ?thesis by (auto simp: ts entry_ok_def)
    qed
    show "task_ok (table ?s) k (tasks ?s ! k)" if "k < length (tasks ?s)" for k
    proof (cases "k = fr_task rt")
      case True
      with that ok(3) [of k] show ?thesis by (simp add: ts task_ok_def)
    next
      case False
      with that ok(1) ok(3) [of k] Some show ?thesis
        by (auto simp: tb ts task_ok_def hm.get_del)
    qed
  qed
qed

text \<open>What each step of a listener task leaves of the state.\<close>

lemma task_frames [simp]:
  "table (upd_task i f s) = table s" "tasks (upd_task i f s) = (tasks s)[i := f (tasks s ! i)]"
  "conns (upd_task i f s) = conns s" "serve_guards (upd_task i f s) = serve_guards s"
  "detached (upd_task i f s) = detached s"
  "table (accept_conn i s) = table s" "conns (accept_conn i s) = conns s"
  "serve_guards (accept_conn i s) = serve_guards s"
  "table (listener_stop i s) = table s" "serve_guards (listener_stop i s) = serve_guards s"
  "conns (listener_stop i s) = conns s" "detached (listener_stop i s) = detached s"
  "table (set_stage i j st s) = table s" "serve_guards (set_stage i j st s) = serve_guards s"
  "conns (set_stage i j st s) = conns s"
  "table (conn_finished i j s) = table s" "serve_guards (conn_finished i j s) = serve_guards s"
  "table (conn_dropped i j s) = table s" "serve_guards (conn_dropped i j s) = serve_guards s"
  "tasks (conn_dropped i j s) = tasks (conn_finished i j s)"
  "conns (conn_dropped i j s) = conns (conn_finished i j s)"
  "detached (conn_dropped i j s) = detached s @ running_download (stage_of s i j)"
  "table (conn_established sid a i j s) = table s"
  "serve_guards (conn_established sid a i j s) = serve_guards s"
  by (simp_all add: upd_task_def accept_conn_def listener_stop_def conn_finished_def conn_dropped_def
      set_stage_def conn_established_def Let_def split: prod.splits)

lemma task_effects:
  "tasks (accept_conn i s) = (tasks s)[i := (tasks s ! i)
     \<lparr>lt_conns := lt_conns (tasks s ! i) @ [\<lparr>cn_stage = Dialing, cn_abort = False\<rparr>]\<rparr>]"
  "tasks (listener_stop i s) = (tasks s)[i := (tasks s ! i)\<lparr>lt_running := False,
     lt_conns := map (\<lambda>c. c\<lparr>cn_abort := True\<rparr>) (lt_conns (tasks s ! i))\<rparr>]"
  "tasks (set_stage i j st s) = (tasks s)[i := (tasks s ! i)\<lparr>lt_conns :=
     (lt_conns (tasks s ! i))[j := (lt_conns (tasks s ! i) ! j)\<lparr>cn_stage := st\<rparr>]\<rparr>]"
  "tasks (conn_finished i j s) =
     (tasks s)[i := (tasks s ! i)\<lparr>lt_conns := remove_nth j (lt_conns (tasks s ! i))\<rparr>]"
  "conns (conn_finished i j s) = drop_conn (lt_conns (tasks s ! i) ! j) (conns s)"
  "tasks (conn_established sid a i j s) = tasks (set_stage i j (Live (next_id (conns s))) s)"
  "conns (conn_established sid a i j s) = snd (register \<lparr>ac_src = a, ac_kind = lit ''forward'',
     ac_dst = remote_display sid (lt_remote (tasks s ! i))\<rparr> (conns s))"
  by (simp_all add: accept_conn_def listener_stop_def conn_finished_def conn_established_def
      set_stage_def register_def Let_def)

text \<open>What the two ways a connection task changes leave of the aborts asked for.\<close>

lemma aborts_stage:
  "list_all cn_abort cs \<Longrightarrow> list_all cn_abort (cs[j := (cs ! j)\<lparr>cn_stage := st\<rparr>])"
  by (cases "j < length cs") (auto simp: list_all_length nth_list_update list_update_beyond)

lemma aborts_remove: "list_all cn_abort cs \<Longrightarrow> list_all cn_abort (remove_nth j cs)"
  by (auto simp: list_all_iff remove_nth_def dest: in_set_takeD in_set_dropD)

lemma table_inv_stage:
  assumes "table_inv s" and "i < length (tasks s)"
    and "table s' = table s" and "tasks s' = tasks (set_stage i j st s)"
  shows "table_inv s'"
  using table_invD(3) [OF assms(1,2)] assms(3,4)
  by - (rule table_inv_upd [OF assms(1,2)], simp_all add: task_effects task_ok_def aborts_stage)

lemma table_inv_close:
  assumes "table_inv s" and "i < length (tasks s)"
    and "table s' = table s" and "tasks s' = tasks (conn_finished i j s)"
  shows "table_inv s'"
  using table_invD(3) [OF assms(1,2)] assms(3,4)
  by - (rule table_inv_upd [OF assms(1,2)], simp_all add: task_effects task_ok_def aborts_remove)

lemma table_inv_stop:
  assumes "table_inv s" and "i < length (tasks s)"
  shows "table_inv (listener_stop i s)"
  by (rule table_inv_upd [OF assms _ _ _ _ _ _ task_effects(2)]) (simp_all add: list_all_length)

lemma table_inv_same:
  "table_inv s \<Longrightarrow> table_inv (s\<lparr>detached := ds\<rparr>)"
  "table_inv s \<Longrightarrow> table_inv (s\<lparr>conns := r, serve_guards := gs\<rparr>)"
  by (simp_all add: table_inv_def)

lemma table_inv_accept:
  assumes "table_inv s" and "i < length (tasks s)" and "lt_running (tasks s ! i)"
  shows "table_inv (accept_conn i s)"
  by (rule table_inv_upd [OF assms(1,2) _ _ _ _ _ _ task_effects(1)]) (simp_all add: assms(3))

lemma table_inv_step:
  assumes "table_inv s" and "fwd_step show_id s s'"
  shows "table_inv s'"
  using assms(2)
proof cases
  case (fwd_cancel i)
  then show ?thesis using table_inv_stop [OF assms(1)] by (auto simp: listener_cancels_def)
next
  case (fwd_open i j peer)
  then show ?thesis using table_inv_stage [OF assms(1)] by (simp add: task_effects)
next
  case (fwd_conn_cancel i)
  then show ?thesis using table_inv_close [OF assms(1)] by (auto simp: conn_cancels_def)
next
  case (fwd_close i j)
  then show ?thesis using table_inv_close [OF assms(1)] by simp
next
  case (fwd_pump i j g)
  then show ?thesis using table_inv_stage [OF assms(1)] by simp
next
  case (fwd_down_end i j g)
  then show ?thesis using table_inv_stage [OF assms(1)] by simp
qed (simp_all add: table_inv_same table_inv_add table_inv_del table_inv_accept table_inv_stop assms(1))


section \<open>The registry\<close>

text \<open>The registry holds exactly the entries of the connections that are alive.\<close>

definition task_guards :: "'i listener_task \<Rightarrow> 64 word list" where
  "task_guards t = concat (map conn_guards (lt_conns t))"

definition live_guards :: "'i forwards_state \<Rightarrow> 64 word list" where
  "live_guards s = serve_guards s @ concat (map task_guards (tasks s))"

definition conns_inv :: "'i forwards_state \<Rightarrow> bool" where
  "conns_inv s \<longleftrightarrow> hm_ok (active (conns s)) \<and>
     mset (hm_keys (active (conns s))) = mset (live_guards s)"

lemma conns_inv_start: "conns_inv fwd_start"
  by (simp add: conns_inv_def fwd_start_def registry_new_def live_guards_def hm_keys_def hm_empty_def hm_ok_def)

lemma mset_concat_update:
  "i < length xs \<Longrightarrow>
     mset (concat (map f (xs[i := x]))) + mset (f (xs ! i)) = mset (concat (map f xs)) + mset (f x)"
proof (induction xs arbitrary: i)
  case (Cons a xs)
  show ?case
  proof (cases i)
    case (Suc k)
    with Cons.IH [of k] Cons.prems show ?thesis by (simp add: add_ac)
  qed (simp add: add_ac)
qed simp

lemma mset_remove_nth:
  assumes "j < length xs"
  shows "mset (concat (map f (remove_nth j xs))) + mset (f (xs ! j)) = mset (concat (map f xs))"
proof -
  have "concat (map f xs) = concat (map f (take j xs @ xs ! j # drop (Suc j) xs))"
    using assms by (simp add: id_take_nth_drop [symmetric])
  then show ?thesis by (simp add: remove_nth_def add_ac)
qed

lemma keys_remove:
  assumes "hm_ok m" and "mset (hm_keys m) = add_mset g M"
  shows "hm_ok (hm_remove g m)" "mset (hm_keys (hm_remove g m)) = M"
proof -
  show "hm_ok (hm_remove g m)" using assms(1) by (rule hm.ok_del)
  have "g \<in> set (hm_keys m)" using assms(2) by (metis set_mset_mset union_single_eq_member)
  then obtain v where "(g, v) \<in> set m" by (auto simp: hm_keys_def)
  then obtain xs ys where m: "m = xs @ (g, v) # ys" by (meson split_list)
  with assms show "mset (hm_keys (hm_remove g m)) = M"
    by (simp add: hm_remove_middle) (simp add: hm_keys_def)
qed

lemma drop_conn_keys:
  assumes "hm_ok (active r)" and "mset (hm_keys (active r)) = mset (conn_guards c) + M"
  shows "hm_ok (active (drop_conn c r)) \<and> mset (hm_keys (active (drop_conn c r))) = M"
  using assms keys_remove [of "active r"]
  by (cases "cn_stage c") (simp_all add: drop_conn_def guard_drop_def send_event_def)

lemma register_keys:
  assumes "hm_ok (active r)" and "hm_get (active r) (next_id r) = None"
    and "register info r = (g, r')"
  shows "hm_ok (active r')" "mset (hm_keys (active r')) = add_mset g (mset (hm_keys (active r)))"
proof -
  have r': "active r' = hm_insert (next_id r) info (active r)" and g: "g = next_id r"
    using assms(3) by (auto simp: register_def Let_def send_event_def)
  show "hm_ok (active r')" using assms(1) by (simp add: r' hm.ok_put)
  show "mset (hm_keys (active r')) = add_mset g (mset (hm_keys (active r)))"
    using assms(2) by (simp add: r' g hm_insert_fresh) (simp add: hm_keys_def)
qed

text \<open>Replacing one task's connections, with the registry adjusted accordingly.\<close>

lemma conns_inv_upd:
  assumes "conns_inv s" and "i < length (tasks s)"
    and "hm_ok (active (conns s'))"
    and "mset (hm_keys (active (conns s'))) + mset (task_guards (tasks s ! i)) =
      mset (hm_keys (active (conns s))) + mset (task_guards t)"
    and "tasks s' = (tasks s)[i := t]" "serve_guards s' = serve_guards s"
  shows "conns_inv s'"
proof -
  have "mset (live_guards s') + mset (task_guards (tasks s ! i)) =
      mset (live_guards s) + mset (task_guards t)"
    using mset_concat_update [OF assms(2), of task_guards t] assms(5,6)
    by (simp add: live_guards_def add_ac)
  with assms(1,3,4) show ?thesis by (simp add: conns_inv_def) (metis add_right_cancel)
qed

lemma task_guards_le:
  assumes "conns_inv s" and "i < length (tasks s)"
  obtains M where "mset (hm_keys (active (conns s))) = mset (task_guards (tasks s ! i)) + M"
proof
  have "concat (map task_guards (tasks s)) =
      concat (map task_guards (take i (tasks s) @ tasks s ! i # drop (Suc i) (tasks s)))"
    using assms(2) by (simp add: id_take_nth_drop [symmetric])
  then show "mset (hm_keys (active (conns s))) = mset (task_guards (tasks s ! i)) +
      (mset (serve_guards s) + mset (concat (map task_guards (take i (tasks s)))) +
       mset (concat (map task_guards (drop (Suc i) (tasks s)))))"
    using assms(1) by (simp add: conns_inv_def live_guards_def add_ac)
qed


text \<open>Steps that leave the connections and the registry's entries alone.\<close>

lemma conns_inv_same:
  assumes "conns_inv s" "active (conns s') = active (conns s)" "serve_guards s' = serve_guards s"
    and "map task_guards (tasks s') = map task_guards (tasks s)"
  shows "conns_inv s'"
  using assms by (simp add: conns_inv_def live_guards_def)

lemma task_guards_eq: "lt_conns t = lt_conns u \<Longrightarrow> task_guards t = task_guards u"
  by (simp add: task_guards_def)

lemma map_task_guards_upd:
  "task_guards t = task_guards (ts ! i) \<Longrightarrow> map task_guards (ts[i := t]) = map task_guards ts"
  by (cases "i < length ts") (simp_all add: map_update list_update_same_conv list_update_beyond)

lemma conns_inv_add:
  assumes "conns_inv s"
  shows "conns_inv (snd (add_forward_binding bind b p s))"
  using assms by (auto simp: add_forward_binding_def conns_inv_def live_guards_def send_event_def
      task_guards_def Let_def split: sum.splits)

lemma conns_inv_del:
  assumes "conns_inv s"
  shows "conns_inv (snd (remove_forward listen s))"
  using assms
  by (auto simp: remove_forward_def runtime_drop_def split: option.splits
      intro!: conns_inv_same [OF assms] map_task_guards_upd task_guards_eq)

lemma conns_inv_stop: "conns_inv s \<Longrightarrow> conns_inv (listener_stop i s)"
  by (erule conns_inv_same)
    (simp_all add: task_effects, rule map_task_guards_upd, simp add: task_guards_def o_def)

text \<open>A connection that moves to another stage with the same guards.\<close>

lemma stage_guards_upd:
  assumes "j < length cs"
  shows "mset (concat (map conn_guards (cs[j := (cs ! j)\<lparr>cn_stage := st\<rparr>]))) + mset (conn_guards (cs ! j)) =
    mset (concat (map conn_guards cs)) + mset (stage_guards st)"
  using mset_concat_update [OF assms, of conn_guards "(cs ! j)\<lparr>cn_stage := st\<rparr>"] by simp

lemma conns_inv_stage:
  assumes "conns_inv s" and "i < length (tasks s)" and "j < length (lt_conns (tasks s ! i))"
    and "stage_guards st = stage_guards (stage_of s i j)"
  shows "conns_inv (set_stage i j st s)"
  using stage_guards_upd [OF assms(3), of st] assms(4) assms(1)
  by - (rule conns_inv_upd [OF assms(1,2) _ _ task_effects(3)],
    simp_all add: task_guards_def conns_inv_def)

lemma conns_inv_open:
  assumes "conns_inv s" and "i < length (tasks s)" and "j < length (lt_conns (tasks s ! i))"
    and "stage_of s i j = Dialing"
    and "hm_get (active (conns s)) (next_id (conns s)) = None"
  shows "conns_inv (conn_established show_id peer i j s)"
proof -
  let ?g = "next_id (conns s)"
  let ?info = "\<lparr>ac_src = peer, ac_kind = lit ''forward'',
    ac_dst = remote_display show_id (lt_remote (tasks s ! i))\<rparr>"
  have "register ?info (conns s) = (?g, snd (register ?info (conns s)))"
    by (simp add: register_def Let_def)
  note reg = register_keys [OF _ assms(5) this]
  have tasks: "tasks (conn_established show_id peer i j s) = (tasks s)[i := (tasks s ! i)\<lparr>lt_conns :=
      (lt_conns (tasks s ! i))[j := (lt_conns (tasks s ! i) ! j)\<lparr>cn_stage := Live ?g\<rparr>]\<rparr>]"
    by (simp add: task_effects)
  show ?thesis
    using reg assms(1) stage_guards_upd [OF assms(3), of "Live ?g"] assms(4)
    by - (rule conns_inv_upd [OF assms(1,2) _ _ tasks],
      simp_all add: task_effects(7) conns_inv_def task_guards_def)
qed

lemma conns_inv_close:
  assumes "conns_inv s" and "i < length (tasks s)" and "j < length (lt_conns (tasks s ! i))"
  shows "conns_inv (conn_finished i j s)"
proof (rule task_guards_le [OF assms(1,2)])
  let ?cs = "lt_conns (tasks s ! i)"
  fix M assume M: "mset (hm_keys (active (conns s))) = mset (task_guards (tasks s ! i)) + M"
  have ok: "hm_ok (active (conns s))" using assms(1) by (simp add: conns_inv_def)
  have split: "mset (concat (map conn_guards (remove_nth j ?cs))) + mset (conn_guards (?cs ! j)) =
      mset (task_guards (tasks s ! i))"
    using mset_remove_nth [OF assms(3), of conn_guards] by (simp add: task_guards_def)
  with M have "mset (hm_keys (active (conns s))) = mset (conn_guards (?cs ! j)) +
      (mset (concat (map conn_guards (remove_nth j ?cs))) + M)"
    by (simp add: add_ac)
  from drop_conn_keys [OF ok this] M split show ?thesis
    by - (rule conns_inv_upd [OF assms(1,2) _ _ task_effects(4)],
      simp_all add: task_effects(5) task_guards_def add_ac)
qed

lemma conns_inv_same_guards:
  "conns_inv s \<Longrightarrow> tasks s' = tasks s \<Longrightarrow> conns s' = conns s \<Longrightarrow> serve_guards s' = serve_guards s \<Longrightarrow>
     conns_inv s'"
  by (simp add: conns_inv_def live_guards_def)

lemma conns_inv_step:
  assumes "conns_inv s" and "fwd_step show_id s s'"
  shows "conns_inv s'"
  using assms(2)
proof cases
  case (fwd_accept i)
  then show ?thesis
    by (auto simp: task_effects task_guards_def intro!: conns_inv_same [OF assms(1)] map_task_guards_upd)
next
  case (fwd_serve_open info g r)
  have "hm_ok (active (conns s))" using assms(1) by (simp add: conns_inv_def)
  from register_keys [OF this fwd_serve_open(2,3)] show ?thesis
    using assms(1) by (simp add: fwd_serve_open(1) conns_inv_def live_guards_def)
next
  case (fwd_serve_close gs g hs)
  have "hm_ok (active (conns s))" using assms(1) by (simp add: conns_inv_def)
  moreover have "mset (hm_keys (active (conns s))) =
      add_mset g (mset (gs @ hs) + mset (concat (map task_guards (tasks s))))"
    using assms(1) fwd_serve_close(2) by (simp add: conns_inv_def live_guards_def)
  ultimately show ?thesis
    using keys_remove [of "active (conns s)" g]
    by (simp add: fwd_serve_close(1) conns_inv_def live_guards_def guard_drop_def send_event_def)
next
  case (fwd_cancel i)
  then show ?thesis using conns_inv_stop [OF assms(1)] by (auto simp: listener_cancels_def)
next
  case (fwd_conn_cancel i)
  then obtain j where "i < length (tasks s)" "j < length (lt_conns (tasks s ! i))" "s' = conn_dropped i j s"
    by (auto simp: conn_cancels_def)
  with conns_inv_close [OF assms(1)] show ?thesis
    using conns_inv_same_guards [of "conn_finished i j s" s'] by simp
next
  case (fwd_detached_end gs g hs)
  then show ?thesis using conns_inv_same_guards [OF assms(1)] by simp
next
  case (fwd_pump i j g)
  then show ?thesis using conns_inv_stage [OF assms(1), of i j "Pumping g True"] by simp
next
  case (fwd_down_end i j g)
  then show ?thesis using conns_inv_stage [OF assms(1), of i j "Pumping g False"] by simp
qed (simp_all add: conns_inv_add conns_inv_del conns_inv_stop conns_inv_open conns_inv_close assms(1))

definition fwd_inv :: "'i forwards_state \<Rightarrow> bool" where
  "fwd_inv s \<longleftrightarrow> table_inv s \<and> conns_inv s"

interpretation forwarding: step_system "fwd_step show_id" fwd_inv for show_id
  by unfold_locales (auto simp: fwd_inv_def intro: table_inv_step conns_inv_step)

lemma fwd_reach_inv: "(fwd_step show_id)\<^sup>*\<^sup>* fwd_start s \<Longrightarrow> fwd_inv s"
  by (erule forwarding.steps_inv) (simp add: fwd_inv_def table_inv_start conns_inv_start)



section \<open>Properties\<close>

lemma live_guards_distinct:
  assumes "conns_inv s"
  shows "distinct (live_guards s)"
  using assms hm_keys_distinct [of "active (conns s)"]
  by (auto simp: conns_inv_def dest: mset_eq_imp_distinct_iff)

lemma keys_live: "conns_inv s \<Longrightarrow> set (hm_keys (active (conns s))) = set (live_guards s)"
  by (auto simp: conns_inv_def dest!: mset_eq_setD)

lemma registry_len_live: "conns_inv s \<Longrightarrow> registry_len (conns s) = length (live_guards s)"
  by (metis conns_inv_def hm_keys_def hm_len_def length_map registry_len_def size_mset)

text \<open>An abort request and a task's place last.\<close>

lemma abort_upd: "lt_abort (ts ! i) \<Longrightarrow> lt_abort (ts[k := (ts ! k)\<lparr>lt_abort := True\<rparr>] ! i)"
  by (cases "k = i"; cases "i < length ts") (simp_all add: list_update_beyond)

lemma step_task_mono:
  assumes "fwd_step show_id s t" and "i < length (tasks s)"
  shows "i < length (tasks t) \<and> (lt_abort (tasks s ! i) \<longrightarrow> lt_abort (tasks t ! i))"
  using assms
  by cases (auto simp: add_forward_binding_def remove_forward_def runtime_drop_def task_effects
      listener_cancels_def conn_cancels_def nth_append nth_list_update Let_def abort_upd
      split: sum.splits option.splits)

lemma steps_task_mono:
  "(fwd_step show_id)\<^sup>*\<^sup>* s t \<Longrightarrow> i < length (tasks s) \<Longrightarrow>
     i < length (tasks t) \<and> (lt_abort (tasks s ! i) \<longrightarrow> lt_abort (tasks t ! i))"
  by (induction rule: rtranclp_induct) (auto dest: step_task_mono)

text \<open>C31. Whatever the control operations, listeners and connections do: every listed
  forward has a task of its own that was bound to its address for its remote and was not
  told to stop; every task that runs without having been told to stop is listed; the
  registry has one entry for each established connection and no other.\<close>

theorem forward_table_sound:
  assumes "(fwd_step show_id)\<^sup>*\<^sup>* fwd_start s"
  shows "(hm_get (table s) l = Some rt \<longrightarrow> entry_ok (tasks s) l rt) \<and>
    (hm_get (table s) l = Some rt \<and> hm_get (table s) l' = Some rt' \<and> fr_task rt = fr_task rt' \<longrightarrow> l = l') \<and>
    (i < length (tasks s) \<and> lt_running (tasks s ! i) \<and> \<not> lt_abort (tasks s ! i) \<longrightarrow>
       map_option fr_task (hm_get (table s) (lt_listen (tasks s ! i))) = Some i) \<and>
    registry_len (conns s) = length (live_guards s) \<and> distinct (live_guards s) \<and>
    set (hm_keys (active (conns s))) = set (live_guards s)"
proof -
  have inv: "table_inv s" "conns_inv s" using fwd_reach_inv [OF assms] by (simp_all add: fwd_inv_def)
  note ok = table_invD [OF inv(1)]
  have "l = l'" if "hm_get (table s) l = Some rt" "hm_get (table s) l' = Some rt'" "fr_task rt = fr_task rt'"
    using ok(2) [OF that(1)] ok(2) [OF that(2)] that(3) by (auto simp: entry_ok_def)
  moreover have "map_option fr_task (hm_get (table s) (lt_listen (tasks s ! i))) = Some i"
    if "i < length (tasks s)" "lt_running (tasks s ! i)" "\<not> lt_abort (tasks s ! i)"
    using ok(3) [OF that(1)] that by (simp add: task_ok_def)
  ultimately show ?thesis
    using ok(2) registry_len_live [OF inv(2)] live_guards_distinct [OF inv(2)] keys_live [OF inv(2)]
    by blast
qed

text \<open>A listener with one established connection, for the witnesses.\<close>

definition sample_remote :: "nat remote_path" where
  "sample_remote = \<lparr>endpoint_id = 7, service = [119]\<rparr>"

definition sample_listening :: "nat forwards_state" where
  "sample_listening = snd (add_forward_binding (os_bind (\<lambda>_. Inr ()) (fwd_start :: nat forwards_state))
     \<lparr>fb_listen = [58, 56], fb_remote = sample_remote, fb_timeout = 0\<rparr> True fwd_start)"

definition sample_connected :: "nat forwards_state" where
  "sample_connected = conn_established show_nat [112] 0 0 (accept_conn 0 sample_listening)"

lemma sample_simps:
  "table sample_listening = [([58, 56], \<lparr>fr_remote = sample_remote, fr_persisted = True, fr_task = 0\<rparr>)]"
  "tasks sample_listening = [\<lparr>lt_listen = [58, 56], lt_remote = sample_remote, lt_timeout = 0,
     lt_abort = False, lt_running = True, lt_conns = []\<rparr>]"
  "active (conns sample_listening) = []" "next_id (conns sample_listening) = 1"
  "serve_guards sample_listening = []" "detached sample_listening = []"
  by (simp_all add: sample_listening_def add_forward_binding_def fwd_start_def hm_contains_def Let_def
      hm_insert_def hm_empty_def hm_get_def send_event_def registry_new_def os_bind_def addr_held_def)

lemma sample_reach: "(fwd_step show_nat)\<^sup>*\<^sup>* fwd_start sample_connected"
proof -
  have "fwd_step show_nat fwd_start sample_listening"
    unfolding sample_listening_def by (rule fwd_add)
  moreover have "fwd_step show_nat sample_listening (accept_conn 0 sample_listening)"
    by (rule fwd_accept) (simp_all add: sample_simps)
  moreover have "fwd_step show_nat (accept_conn 0 sample_listening) sample_connected"
    unfolding sample_connected_def
    by (rule fwd_open) (simp_all add: task_effects sample_simps hm_get_def)
  ultimately show ?thesis by (meson r_into_rtranclp rtranclp_trans)
qed

lemma sample_connected_simps:
  "table sample_connected = table sample_listening"
  "tasks sample_connected = [\<lparr>lt_listen = [58, 56], lt_remote = sample_remote, lt_timeout = 0,
     lt_abort = False, lt_running = True,
     lt_conns = [\<lparr>cn_stage = Live 1, cn_abort = False\<rparr>]\<rparr>]"
  "serve_guards sample_connected = []"
  by (simp_all add: sample_connected_def task_effects sample_simps)

theorem forward_table_sound_witness:
  "registry_len (conns sample_connected) = 1 \<and> hm_keys (active (conns sample_connected)) = [1]"
  using forward_table_sound [OF sample_reach]
  by (simp add: live_guards_def task_guards_def sample_connected_simps registry_len_def hm_len_def
      hm_keys_def length_Suc_conv) force

text \<open>C35. A failing accept ends the listener's task but leaves its entry: the forward is
  still listed, nothing listens on its address, and adding it again is refused as a
  duplicate until it is deleted.\<close>

theorem accept_error_leaves_entry:
  assumes "(fwd_step show_id)\<^sup>*\<^sup>* fwd_start s" and "hm_get (table s) listen = Some rt"
    and "lt_running (tasks s ! fr_task rt)" and "fb_listen b = listen"
  shows "fwd_step show_id s (listener_stop (fr_task rt) s) \<and>
    forward_rows show_id (listener_stop (fr_task rt) s) = forward_rows show_id s \<and>
    \<not> lt_running (tasks (listener_stop (fr_task rt) s) ! fr_task rt) \<and>
    \<not> is_ok (fst (add_forward_binding bind b p (listener_stop (fr_task rt) s)))"
proof -
  have inv: "table_inv s" using fwd_reach_inv [OF assms(1)] by (simp add: fwd_inv_def)
  have len: "fr_task rt < length (tasks s)"
    using table_invD(2) [OF inv assms(2)] by (simp add: entry_ok_def)
  show ?thesis
    using fwd_accept_err [OF len assms(3)] len assms(2,4)
    by (simp add: forward_rows_def task_effects add_forward_binding_def hm_contains_def)
qed

theorem accept_error_leaves_entry_witness:
  "length (forward_rows show_nat (listener_stop 0 sample_connected)) = 1 \<and>
   \<not> lt_running (tasks (listener_stop 0 sample_connected) ! 0)"
proof -
  have *: "hm_get (table sample_connected) [58, 56] =
      Some \<lparr>fr_remote = sample_remote, fr_persisted = True, fr_task = 0\<rparr>"
    "lt_running (tasks sample_connected ! 0)"
    by (simp_all add: sample_connected_simps sample_simps hm_get_def)
  have "forward_rows show_nat (listener_stop 0 sample_connected) = forward_rows show_nat sample_connected"
    "\<not> lt_running (tasks (listener_stop 0 sample_connected) ! 0)"
    using accept_error_leaves_entry [OF sample_reach *(1),
        of "\<lparr>fb_listen = [58, 56], fb_remote = sample_remote, fb_timeout = 0\<rparr>"] *(2)
    by simp_all
  then show ?thesis by (simp add: forward_rows_def sample_connected_simps sample_simps)
qed

end
