(* ===== verification/Proxy_Service.thy ===== *)
theory Proxy_Service
  imports Serve_Routes Forward_Table Retry_Policy
begin

text \<open>
  The control interface \<open>dev.iroh.Proxy\<close> (\<open>src/daemon/service.rs\<close>): its calls on the
  daemon's state, an abstract specification of that state as two partial maps, and the
  refinement between them. The endpoint's accepted ALPN list is part of the state: the
  invariant says that it is the list of the route table's keys.
\<close>

section \<open>Definitions\<close>

datatype fdo_error = Failed rstr

definition to_fdo :: "error \<Rightarrow> fdo_error" where
  "to_fdo e = Failed (display_err e)"

record 'i daemon =
  ep_id :: 'i
  ep_alpns :: "byte list list"
  d_routes :: routes
  d_fwd :: "'i forwards_state"

definition notify :: "rstr \<Rightarrow> 'i daemon \<Rightarrow> 'i daemon" where
  "notify ev d = d\<lparr>d_fwd := (d_fwd d)\<lparr>conns := send_event ev (conns (d_fwd d))\<rparr>\<rparr>"

definition sync_endpoint_alpns :: "'i daemon \<Rightarrow> 'i daemon" where
  "sync_endpoint_alpns d = d\<lparr>ep_alpns := route_alpns (d_routes d)\<rparr>"

definition status :: "('i \<Rightarrow> rstr) \<Rightarrow> 'i daemon \<Rightarrow> rstr \<times> nat \<times> nat \<times> nat" where
  "status show_id d =
     (show_id (ep_id d), registry_len (conns (d_fwd d)), hm_len (d_routes d), hm_len (table (d_fwd d)))"

definition list_connections :: "'i daemon \<Rightarrow> (64 word \<times> rstr \<times> rstr \<times> rstr) list" where
  "list_connections d =
     map (\<lambda>(g, c). (g, ac_src c, ac_kind c, ac_dst c)) (snapshot (conns (d_fwd d)))"

definition list_serves :: "'i daemon \<Rightarrow> (rstr \<times> rstr) list" where
  "list_serves d = serve_rows (d_routes d)"

definition list_forwards :: "('i \<Rightarrow> rstr) \<Rightarrow> 'i daemon \<Rightarrow> (rstr \<times> rstr \<times> bool) list" where
  "list_forwards show_id d = forward_rows show_id (d_fwd d)"

definition add_serve :: "rstr \<Rightarrow> rstr \<Rightarrow> ('i daemon, fdo_error, unit) act" where
  "add_serve name tgt d =
     (case add_serve_route name tgt (d_routes d) of
        (Inl e, rs) \<Rightarrow> (Inl (to_fdo e), d\<lparr>d_routes := rs\<rparr>)
      | (Inr _, rs) \<Rightarrow>
          (Inr (), notify (lit ''serve-added'') (sync_endpoint_alpns (d\<lparr>d_routes := rs\<rparr>))))"

definition del_serve :: "rstr \<Rightarrow> ('i daemon, fdo_error, unit) act" where
  "del_serve name d =
     (case remove_route name (d_routes d) of
        (None, rs) \<Rightarrow> (Inl (Failed (lit ''service '' @ quoted name @ lit '' is not currently served'')),
                       d\<lparr>d_routes := rs\<rparr>)
      | (Some _, rs) \<Rightarrow>
          (Inr (), notify (lit ''serve-removed'') (sync_endpoint_alpns (d\<lparr>d_routes := rs\<rparr>))))"

definition add_forward ::
  "(rstr \<Rightarrow> rstr + 'i) \<Rightarrow> (rstr \<Rightarrow> io_error + unit) \<Rightarrow> rstr \<Rightarrow> rstr \<Rightarrow> bool \<Rightarrow> nat \<Rightarrow>
   ('i daemon, fdo_error, unit) act" where
  "add_forward parse_id bind listen remote persisted timeout_secs d =
     (case remote_from_str parse_id remote of
        Inl e \<Rightarrow> (Inl (to_fdo e), d)
      | Inr rp \<Rightarrow>
          (case add_forward_binding bind
              \<lparr>fb_listen = listen, fb_remote = rp, fb_timeout = from_secs timeout_secs\<rparr> persisted (d_fwd d) of
             (Inl e, f) \<Rightarrow> (Inl (to_fdo e), d\<lparr>d_fwd := f\<rparr>)
           | (Inr _, f) \<Rightarrow> (Inr (), d\<lparr>d_fwd := f\<rparr>)))"

definition del_forward :: "rstr \<Rightarrow> ('i daemon, fdo_error, unit) act" where
  "del_forward listen d =
     (case remove_forward listen (d_fwd d) of
        (False, f) \<Rightarrow> (Inl (Failed (lit ''listener '' @ quoted listen @ lit '' is not currently forwarded'')),
                       d\<lparr>d_fwd := f\<rparr>)
      | (True, f) \<Rightarrow> (Inr (), notify (lit ''forward-removed'') (d\<lparr>d_fwd := f\<rparr>)))"


section \<open>Requests, the invariant and the abstract specification\<close>

datatype request =
    AddServe rstr rstr
  | DelServe rstr
  | AddForward rstr rstr bool nat
  | DelForward rstr

fun handle ::
  "(rstr \<Rightarrow> rstr + 'i) \<Rightarrow> (rstr \<Rightarrow> io_error + unit) \<Rightarrow> request \<Rightarrow> ('i daemon, fdo_error, unit) act" where
  "handle parse_id bind (AddServe name tgt) = add_serve name tgt"
| "handle parse_id bind (DelServe name) = del_serve name"
| "handle parse_id bind (AddForward listen remote persisted secs) =
     add_forward parse_id bind listen remote persisted secs"
| "handle parse_id bind (DelForward listen) = del_forward listen"

definition daemon_ok :: "'i daemon \<Rightarrow> bool" where
  "daemon_ok d \<longleftrightarrow> routes_ok (d_routes d) \<and> fwd_inv (d_fwd d) \<and> ep_alpns d = route_alpns (d_routes d)"

record 'i proxy_spec =
  sp_serves :: "rstr \<Rightarrow> rstr option"
  sp_forwards :: "rstr \<Rightarrow> ('i remote_path \<times> bool) option"

definition forwarded :: "'i forwards_state \<Rightarrow> rstr \<Rightarrow> ('i remote_path \<times> bool) option" where
  "forwarded f listen = map_option (\<lambda>rt. (fr_remote rt, fr_persisted rt)) (hm_get (table f) listen)"

text \<open>Rust strings are valid; the abstraction looks at those only.\<close>

definition served_names :: "routes \<Rightarrow> rstr \<Rightarrow> rstr option" where
  "served_names rs n = (if valid_str n then served rs n else None)"

definition abs_daemon :: "'i daemon \<Rightarrow> 'i proxy_spec" where
  "abs_daemon d = \<lparr>sp_serves = served_names (d_routes d),
     sp_forwards = forwarded (d_fwd d)\<rparr>"

fun spec_guard ::
  "(rstr \<Rightarrow> rstr + 'i) \<Rightarrow> (rstr \<Rightarrow> io_error + unit) \<Rightarrow> request \<Rightarrow> 'i proxy_spec \<Rightarrow> bool" where
  "spec_guard parse_id bind (AddServe name tgt) a \<longleftrightarrow>
     valid_service name \<and> trim tgt \<noteq> [] \<and> sp_serves a name = None"
| "spec_guard parse_id bind (DelServe name) a \<longleftrightarrow> sp_serves a name \<noteq> None"
| "spec_guard parse_id bind (AddForward listen remote persisted secs) a \<longleftrightarrow>
     is_ok (remote_from_str parse_id remote) \<and> sp_forwards a listen = None \<and> is_ok (bind listen)"
| "spec_guard parse_id bind (DelForward listen) a \<longleftrightarrow> sp_forwards a listen \<noteq> None"

fun spec_apply :: "(rstr \<Rightarrow> rstr + 'i) \<Rightarrow> request \<Rightarrow> 'i proxy_spec \<Rightarrow> 'i proxy_spec" where
  "spec_apply parse_id (AddServe name tgt) a = a\<lparr>sp_serves := (sp_serves a)(name \<mapsto> tgt)\<rparr>"
| "spec_apply parse_id (DelServe name) a = a\<lparr>sp_serves := (sp_serves a)(name := None)\<rparr>"
| "spec_apply parse_id (AddForward listen remote persisted secs) a =
     (case remote_from_str parse_id remote of
        Inl _ \<Rightarrow> a
      | Inr rp \<Rightarrow> a\<lparr>sp_forwards := (sp_forwards a)(listen \<mapsto> (rp, persisted))\<rparr>)"
| "spec_apply parse_id (DelForward listen) a = a\<lparr>sp_forwards := (sp_forwards a)(listen := None)\<rparr>"

fun request_ok :: "request \<Rightarrow> bool" where
  "request_ok (AddServe name tgt) = valid_str name"
| "request_ok (DelServe name) = valid_str name"
| "request_ok _ = True"


section \<open>Facts\<close>

lemma fwd_inv_send: "fwd_inv f \<Longrightarrow> fwd_inv (f\<lparr>conns := send_event ev (conns f)\<rparr>)"
  by (simp add: fwd_inv_def table_inv_def conns_inv_def live_guards_def send_event_def)

lemma fwd_inv_add: "fwd_inv f \<Longrightarrow> fwd_inv (snd (add_forward_binding bind b p f))"
  by (simp add: fwd_inv_def table_inv_add conns_inv_add)

lemma fwd_inv_del: "fwd_inv f \<Longrightarrow> fwd_inv (snd (remove_forward listen f))"
  by (simp add: fwd_inv_def table_inv_del conns_inv_del)

lemma daemon_simps [simp]:
  "d_routes (notify ev d) = d_routes d" "ep_alpns (notify ev d) = ep_alpns d"
  "d_fwd (notify ev d) = (d_fwd d)\<lparr>conns := send_event ev (conns (d_fwd d))\<rparr>"
  "d_routes (sync_endpoint_alpns d) = d_routes d" "d_fwd (sync_endpoint_alpns d) = d_fwd d"
  "ep_alpns (sync_endpoint_alpns d) = route_alpns (d_routes d)"
  by (simp_all add: notify_def sync_endpoint_alpns_def)

lemma forwarded_send [simp]: "forwarded (f\<lparr>conns := c\<rparr>) = forwarded f"
  by (rule ext) (simp add: forwarded_def)

lemma fwd_inv_table: "fwd_inv f \<Longrightarrow> hm_ok (table f)"
  by (simp add: fwd_inv_def table_inv_def)

lemma binding_ok:
  "is_ok (fst (add_forward_binding bind b p f)) \<longleftrightarrow>
     forwarded f (fb_listen b) = None \<and> is_ok (bind (fb_listen b))"
  by (auto simp: add_forward_binding_def forwarded_def hm_contains_def Let_def split: sum.splits)

lemma binding_forwarded:
  assumes "fwd_inv f" and "is_ok (fst (add_forward_binding bind b p f))"
  shows "forwarded (snd (add_forward_binding bind b p f)) =
    (forwarded f)(fb_listen b \<mapsto> (fb_remote b, p))"
  using assms fwd_inv_table [OF assms(1)]
  by (auto simp: add_forward_binding_def forwarded_def hm_contains_def Let_def hm.get_put fun_eq_iff
      split: sum.splits if_splits)

lemma binding_err:
  "\<not> is_ok (fst (add_forward_binding bind b p f)) \<Longrightarrow> snd (add_forward_binding bind b p f) = f"
  by (auto simp: add_forward_binding_def hm_contains_def Let_def split: sum.splits)

lemma removal_ok: "fst (remove_forward listen f) \<longleftrightarrow> forwarded f listen \<noteq> None"
  by (auto simp: remove_forward_def forwarded_def split: option.splits)

lemma removal_forwarded:
  assumes "fwd_inv f"
  shows "forwarded (snd (remove_forward listen f)) = (forwarded f)(listen := None)"
  using fwd_inv_table [OF assms]
  by (auto simp: remove_forward_def forwarded_def runtime_drop_def hm.get_del fun_eq_iff
      split: option.splits)

lemma removal_err: "\<not> fst (remove_forward listen f) \<Longrightarrow> snd (remove_forward listen f) = f"
  by (auto simp: remove_forward_def split: option.splits)

text \<open>Each request against its specification.\<close>

definition refines_spec ::
  "(rstr \<Rightarrow> rstr + 'i) \<Rightarrow> (rstr \<Rightarrow> io_error + unit) \<Rightarrow> request \<Rightarrow> 'i daemon \<Rightarrow>
   (fdo_error + unit) \<times> 'i daemon \<Rightarrow> bool" where
  "refines_spec parse_id bind req d res \<longleftrightarrow>
     daemon_ok (snd res) \<and> ep_id (snd res) = ep_id d \<and>
     is_ok (fst res) = spec_guard parse_id bind req (abs_daemon d) \<and>
     abs_daemon (snd res) = (if is_ok (fst res) then spec_apply parse_id req (abs_daemon d)
                             else abs_daemon d)"

lemma ep_id_simps [simp]: "ep_id (notify ev d) = ep_id d" "ep_id (sync_endpoint_alpns d) = ep_id d"
  by (simp_all add: notify_def sync_endpoint_alpns_def)

lemma add_serve_refines:
  assumes "daemon_ok d" and "valid_str name"
  shows "refines_spec parse_id bind (AddServe name tgt) d (add_serve name tgt d)"
proof (cases "add_serve_route name tgt (d_routes d)")
  case (Pair r rs)
  show ?thesis
  proof (cases r)
    case (Inl e)
    with Pair have err: "add_serve_route name tgt (d_routes d) = (Inl e, rs)" by simp
    with add_serve_route_err [OF err] add_serve_route_fail [OF err] assms show ?thesis
      by (auto simp: refines_spec_def add_serve_def abs_daemon_def served_names_def daemon_ok_def)
  next
    case (Inr u)
    with Pair have ok: "add_serve_route name tgt (d_routes d) = (Inr u, rs)" by simp
    have rs: "routes_ok rs"
      using add_serve_route_keeps [OF assms(2), of "d_routes d" tgt] assms(1) ok
      by (simp add: daemon_ok_def)
    have sv: "served rs n = (if n = name then Some tgt else served (d_routes d) n)" if "valid_str n" for n
      using served_add [OF ok assms(2) _ that] assms(1) by (simp add: daemon_ok_def)
    have "valid_service name" "trim tgt \<noteq> []" "served (d_routes d) name = None"
      using ok by (auto simp: add_serve_route_ok served_def)
    then show ?thesis using ok rs sv assms
      by (auto simp: refines_spec_def add_serve_def abs_daemon_def served_names_def daemon_ok_def fwd_inv_send fun_eq_iff)
  qed
qed

lemma del_serve_refines:
  assumes "daemon_ok d" and "valid_str name"
  shows "refines_spec parse_id bind (DelServe name) d (del_serve name d)"
proof -
  have ro: "routes_ok (d_routes d)" using assms(1) by (simp add: daemon_ok_def)
  obtain old rs where rm: "remove_route name (d_routes d) = (old, rs)" by fastforce
  have keep: "routes_ok rs" using remove_route_keeps [OF ro, of name] rm by simp
  have sv: "served rs n = (if n = name then None else served (d_routes d) n)" if "valid_str n" for n
    using served_remove [OF ro assms(2) that] rm by simp
  have old: "old = None \<longleftrightarrow> served (d_routes d) name = None"
    using rm by (auto simp: remove_route_def served_def)
  show ?thesis
  proof (cases old)
    case None
    then have "rs = d_routes d"
      using rm by (auto simp: remove_route_def hm_get_def hm_remove_def delete_fresh)
    with None rm old assms show ?thesis
      by (auto simp: refines_spec_def del_serve_def abs_daemon_def served_names_def daemon_ok_def)
  next
    case (Some r)
    with rm old keep sv assms show ?thesis
      by (auto simp: refines_spec_def del_serve_def abs_daemon_def served_names_def daemon_ok_def fwd_inv_send fun_eq_iff)
  qed
qed


lemma add_forward_refines:
  assumes "daemon_ok d"
  shows "refines_spec parse_id bind (AddForward listen remote persisted secs) d
    (add_forward parse_id bind listen remote persisted secs d)"
proof (cases "remote_from_str parse_id remote")
  case (Inl e)
  then show ?thesis using assms by (simp add: refines_spec_def add_forward_def)
next
  case (Inr rp)
  let ?b = "\<lparr>fb_listen = listen, fb_remote = rp, fb_timeout = from_secs secs\<rparr>"
  let ?res = "add_forward_binding bind ?b persisted (d_fwd d)"
  have eq: "add_forward parse_id bind listen remote persisted secs d =
      (map_err to_fdo (fst ?res), d\<lparr>d_fwd := snd ?res\<rparr>)"
    using Inr by (simp add: add_forward_def split: prod.splits sum.splits)
  have fi: "fwd_inv (d_fwd d)" using assms by (simp add: daemon_ok_def)
  have ok: "is_ok (fst ?res) \<longleftrightarrow> forwarded (d_fwd d) listen = None \<and> is_ok (bind listen)"
    by (simp add: binding_ok)
  show ?thesis
  proof (cases "is_ok (fst ?res)")
    case True
    with binding_forwarded [OF fi True] fwd_inv_add [OF fi, of bind ?b persisted] Inr assms ok show ?thesis
      by (simp add: eq refines_spec_def daemon_ok_def abs_daemon_def)
  next
    case False
    with binding_err [OF False] Inr assms ok show ?thesis
      by (simp add: eq refines_spec_def abs_daemon_def)
  qed
qed

lemma del_forward_refines:
  assumes "daemon_ok d"
  shows "refines_spec parse_id bind (DelForward listen) d (del_forward listen d)"
proof -
  have fi: "fwd_inv (d_fwd d)" using assms by (simp add: daemon_ok_def)
  obtain b f where rm: "remove_forward listen (d_fwd d) = (b, f)" by fastforce
  have b: "b \<longleftrightarrow> forwarded (d_fwd d) listen \<noteq> None" and f: "fwd_inv f"
    and fw: "forwarded f = (forwarded (d_fwd d))(listen := None)"
    using removal_ok [of listen "d_fwd d"] fwd_inv_del [OF fi, of listen]
      removal_forwarded [OF fi, of listen] rm by auto
  show ?thesis
  proof (cases b)
    case True
    with rm b f fw assms show ?thesis
      by (simp add: refines_spec_def del_forward_def abs_daemon_def daemon_ok_def fwd_inv_send)
  next
    case False
    then have "f = d_fwd d" using removal_err [of listen "d_fwd d"] rm by simp
    with False rm b assms show ?thesis
      by (simp add: refines_spec_def del_forward_def abs_daemon_def)
  qed
qed

lemma handle_refines:
  assumes "daemon_ok d" and "request_ok req"
  shows "refines_spec parse_id bind req d (handle parse_id bind req d)"
  using assms add_serve_refines del_serve_refines add_forward_refines del_forward_refines
  by (cases req) auto

definition daemon_start :: "'i \<Rightarrow> 'i daemon" where
  "daemon_start eid = \<lparr>ep_id = eid, ep_alpns = [], d_routes = hm_empty, d_fwd = fwd_start\<rparr>"

lemma daemon_ok_start [simp]: "daemon_ok (daemon_start eid)"
  by (simp add: daemon_ok_def daemon_start_def fwd_inv_def table_inv_start conns_inv_start
      route_alpns_def hm_keys_def hm_empty_def) (simp flip: hm_empty_def)

text \<open>A run of requests, each with the bind results of its moment.\<close>

fun handle_all ::
  "(rstr \<Rightarrow> rstr + 'i) \<Rightarrow> ((rstr \<Rightarrow> io_error + unit) \<times> request) list \<Rightarrow> 'i daemon \<Rightarrow>
   (fdo_error + unit) list \<times> 'i daemon" where
  "handle_all parse_id [] d = ([], d)"
| "handle_all parse_id ((bind, req) # reqs) d =
     (let (r, d') = handle parse_id bind req d; (rs, d'') = handle_all parse_id reqs d'
      in (r # rs, d''))"

lemma handle_all_ok:
  "daemon_ok d \<Longrightarrow> list_all (\<lambda>(b, req). request_ok req) reqs \<Longrightarrow>
     daemon_ok (snd (handle_all parse_id reqs d))"
proof (induction parse_id reqs d rule: handle_all.induct)
  case (2 parse_id bind req reqs d)
  have "daemon_ok (snd (handle parse_id bind req d))"
    using handle_refines [of d req parse_id bind] 2 by (simp add: refines_spec_def)
  with 2 show ?case by (auto simp: Let_def split: prod.splits)
qed simp


section \<open>Properties\<close>

text \<open>C3. Every control call implements its abstract specification on the two maps of served
  names and forwarded addresses: it succeeds exactly when its guard holds there, then it
  changes exactly its key, and when it fails it changes nothing. It also keeps the route
  table well formed, the endpoint's ALPN list equal to the route keys, and the forward
  table in its invariant.\<close>

theorem service_refines_spec:
  assumes "daemon_ok d" and "request_ok req"
  shows "(case handle parse_id bind req d of (r, d') \<Rightarrow>
    is_ok r = spec_guard parse_id bind req (abs_daemon d) \<and>
    abs_daemon d' = (if is_ok r then spec_apply parse_id req (abs_daemon d) else abs_daemon d) \<and>
    daemon_ok d' \<and> ep_id d' = ep_id d)"
  using handle_refines [OF assms, of parse_id bind] by (auto simp: refines_spec_def split: prod.splits)

theorem service_refines_spec_witness:
  "sp_serves (abs_daemon (snd (handle (\<lambda>s. Inr s) (\<lambda>_. Inr ()) (AddServe [119] [56]) (daemon_start []))))
     [119] = Some [56]"
proof -
  have "request_ok (AddServe [119] [56])" by (simp add: scalar_def)
  moreover have "spec_guard (\<lambda>s. Inr s) (\<lambda>_. Inr ()) (AddServe [119] [56])
      (abs_daemon (daemon_start [] :: rstr daemon))"
    by (simp add: abs_daemon_def daemon_start_def served_names_def served_def service_eval trim_def)
  ultimately show ?thesis
    using service_refines_spec [OF daemon_ok_start, of "AddServe [119] [56]" "\<lambda>s. Inr s" "\<lambda>_. Inr ()" "[]"]
    by (auto split: prod.splits)
qed

text \<open>C30. After any sequence of control calls handled one at a time, the reports of the
  daemon agree with its state: the ALPNs the endpoint accepts are exactly those of the
  services that \<open>ListServes\<close> reports, and \<open>Status\<close> counts the rows of the three lists.\<close>

theorem reports_agree:
  fixes eid :: 'i and parse_id :: "rstr \<Rightarrow> rstr + 'i"
    and reqs :: "((rstr \<Rightarrow> io_error + unit) \<times> request) list"
  assumes "list_all (\<lambda>(b, req). request_ok req) reqs"
  defines "d \<equiv> snd (handle_all parse_id reqs (daemon_start eid))"
  shows "set (ep_alpns d) = service_to_alpn ` fst ` set (list_serves d) \<and>
    distinct (ep_alpns d) \<and>
    status show_id d = (show_id (ep_id d), length (list_connections d), length (list_serves d),
      length (list_forwards show_id d))"
proof -
  have ok: "daemon_ok d" 
    unfolding d_def using assms(1) by (intro handle_all_ok) simp_all
  then have ro: "routes_ok (d_routes d)" "ep_alpns d = map fst (d_routes d)"
    by (auto simp: daemon_ok_def route_alpns_def hm_keys_def)
  have "fst ` set (d_routes d) = service_to_alpn ` fst ` set (list_serves d)"
    using ro(1)
    by (force simp: list_serves_def serve_rows_def hm_values_def routes_ok_def list_all_iff route_ok_def image_iff)
  then show ?thesis
    using ro by (simp add: status_def list_connections_def list_serves_def list_forwards_def
        forward_rows_def registry_len_def hm_len_def routes_ok_def hm_ok_def)
qed

theorem reports_agree_witness:
  "service_to_alpn [119] \<in> set (ep_alpns (snd (handle_all (\<lambda>s. Inr s)
     [((\<lambda>_. Inr ()), AddServe [119] [56])] (daemon_start []))))"
proof -
  have v: "valid_service [119]" by (simp add: service_eval)
  have "list_all (\<lambda>(b, req). request_ok req) [((\<lambda>_ :: rstr. Inr () :: io_error + unit), AddServe [119] [56])]"
    by (simp add: scalar_def)
  from reports_agree [OF this, where parse_id = "\<lambda>s. Inr s" and eid = "[]" and show_id = "\<lambda>s. s"]
  show ?thesis
    by (simp add: daemon_start_def add_serve_def add_serve_route_valid [OF v] served_def
        list_serves_def serve_rows_def hm_values_def hm_insert_fresh hm_empty_def hm_get_def trim_def
        text_eval)
qed

end
