(* ===== verification/Fault_Fs.thy ===== *)
theory Fault_Fs
  imports Errors "HOL-Library.Word"
begin

text \<open>
  The file system as the program sees it through the standard library: files with contents
  and permission bits, directories, advisory locks. Every call takes one turn of the
  environment first: other processes may change files, and the call may fail with any I/O
  error (a failing write may have written part of its bytes). After every call the state of
  all files is recorded in \<open>hist\<close>, so a property of every recorded state is a property of
  every point where the process may be killed. Paths are absolute, as their components.
\<close>

section \<open>State\<close>

type_synonym path = "rstr list"

record fentry =
  content :: "byte list"
  fmode :: nat

datatype turn = Turn (others: "(path \<times> fentry option) list") (fault: "(io_error \<times> nat) option")

record fs =
  files :: "path \<Rightarrow> fentry option"
  dirs :: "path \<Rightarrow> bool"
  locked :: "path \<Rightarrow> bool"
  turns :: "turn list"
  hist :: "(path \<Rightarrow> fentry option) list"
  pid :: nat
  temp_counter :: "64 word"

definition path_parent :: "path \<Rightarrow> path option" where
  "path_parent p = (if p = [] then None else Some (butlast p))"

definition path_file_name :: "path \<Rightarrow> rstr option" where
  "path_file_name p = (if p = [] then None else Some (last p))"

definition with_file_name :: "rstr \<Rightarrow> path \<Rightarrow> path" where
  "with_file_name n p = butlast p @ [n]"

definition path_display :: "path \<Rightarrow> rstr" where
  "path_display p = (if p = [] then [47] else concat (map (\<lambda>c. 47 # c) p))"

definition log_state :: "fs \<Rightarrow> fs" where
  "log_state s = s\<lparr>hist := hist s @ [files s]\<rparr>"

definition apply_others :: "(path \<times> fentry option) list \<Rightarrow> fs \<Rightarrow> fs" where
  "apply_others cs s = s\<lparr>files := fold (\<lambda>(p, f) m. m(p := f)) cs (files s)\<rparr>"

definition take_turn :: "fs \<Rightarrow> (io_error \<times> nat) option \<times> fs" where
  "take_turn s =
     (case turns s of
        [] \<Rightarrow> (None, s)
      | t # ts \<Rightarrow> (fault t, apply_others (others t) (s\<lparr>turns := ts\<rparr>)))"

text \<open>A call: its effect when it runs, and what a failure after \<open>n\<close> bytes leaves.\<close>

definition fs_op ::
  "(fs \<Rightarrow> (io_error + 'a) \<times> fs) \<Rightarrow> (nat \<Rightarrow> fs \<Rightarrow> fs) \<Rightarrow> (fs, io_error, 'a) act" where
  "fs_op body partial s =
     (case take_turn s of
        (Some (e, n), s1) \<Rightarrow> (Inl e, log_state (partial n s1))
      | (None, s1) \<Rightarrow> (case body s1 of (r, s2) \<Rightarrow> (r, log_state s2)))"

definition no_effect :: "nat \<Rightarrow> fs \<Rightarrow> fs" where
  "no_effect n s = s"

definition not_found :: io_error where
  "not_found = IoError NotFound (lit ''No such file or directory (os error 2)'')"

definition already_exists :: io_error where
  "already_exists = IoError AlreadyExists (lit ''File exists (os error 17)'')"

definition is_directory :: io_error where
  "is_directory = IoError OtherIo (lit ''Is a directory (os error 21)'')"

definition invalid_utf8 :: io_error where
  "invalid_utf8 = IoError InvalidData (lit ''stream did not contain valid UTF-8'')"

definition would_block :: io_error where
  "would_block = IoError WouldBlock (lit ''lock acquisition failed because the operation would block'')"


section \<open>Calls\<close>

definition create_dir_all :: "path \<Rightarrow> (fs, io_error, unit) act" where
  "create_dir_all p = fs_op (\<lambda>s.
     if \<exists>n\<le>length p. files s (take n p) \<noteq> None then (Inl already_exists, s)
     else (Inr (), s\<lparr>dirs := (\<lambda>q. dirs s q \<or> (\<exists>n\<le>length p. q = take n p))\<rparr>)) no_effect"

definition fs_read :: "path \<Rightarrow> (fs, io_error, byte list) act" where
  "fs_read p = fs_op (\<lambda>s.
     case files s p of
       Some f \<Rightarrow> (Inr (content f), s)
     | None \<Rightarrow> (Inl (if dirs s p then is_directory else not_found), s)) no_effect"

definition read_to_string :: "path \<Rightarrow> (fs, io_error, rstr) act" where
  "read_to_string p = fs_op (\<lambda>s.
     case files s p of
       Some f \<Rightarrow> (case utf8_decode (content f) of Some t \<Rightarrow> (Inr t, s) | None \<Rightarrow> (Inl invalid_utf8, s))
     | None \<Rightarrow> (Inl (if dirs s p then is_directory else not_found), s)) no_effect"

text \<open>\<open>Path::exists\<close> is false when the path cannot be inspected.\<close>

definition path_exists :: "path \<Rightarrow> (fs, 'e, bool) act" where
  "path_exists p s =
     (case fs_op (\<lambda>s. (Inr (files s p \<noteq> None \<or> dirs s p), s)) no_effect s of
        (Inl _, s') \<Rightarrow> (Inr False, s') | (Inr b, s') \<Rightarrow> (Inr b, s'))"

text \<open>\<open>OpenOptions::create_new\<close>, with the permission bits of a new file.\<close>

definition create_new :: "nat \<Rightarrow> path \<Rightarrow> (fs, io_error, unit) act" where
  "create_new m p = fs_op (\<lambda>s.
     if files s p \<noteq> None \<or> dirs s p then (Inl already_exists, s)
     else (Inr (), s\<lparr>files := (files s)(p \<mapsto> \<lparr>content = [], fmode = m\<rparr>)\<rparr>)) no_effect"

text \<open>\<open>write_all\<close> at the end of an open file.\<close>

definition append_to :: "path \<Rightarrow> byte list \<Rightarrow> fs \<Rightarrow> fs" where
  "append_to p bs s =
     (case files s p of
        Some f \<Rightarrow> s\<lparr>files := (files s)(p \<mapsto> f\<lparr>content := content f @ bs\<rparr>)\<rparr>
      | None \<Rightarrow> s)"

definition write_all :: "path \<Rightarrow> byte list \<Rightarrow> (fs, io_error, unit) act" where
  "write_all p bs = fs_op (\<lambda>s. (Inr (), append_to p bs s)) (\<lambda>n. append_to p (take n bs))"

definition sync_file :: "path \<Rightarrow> (fs, io_error, unit) act" where
  "sync_file p = fs_op (\<lambda>s. (Inr (), s)) no_effect"

definition rename :: "path \<Rightarrow> path \<Rightarrow> (fs, io_error, unit) act" where
  "rename from to = fs_op (\<lambda>s.
     case files s from of
       Some f \<Rightarrow>
         if dirs s to then (Inl is_directory, s)
         else (Inr (), s\<lparr>files := (files s)(from := None, to := Some f)\<rparr>)
     | None \<Rightarrow> (Inl not_found, s)) no_effect"

definition remove_file :: "path \<Rightarrow> (fs, io_error, unit) act" where
  "remove_file p = fs_op (\<lambda>s.
     case files s p of
       Some f \<Rightarrow> (Inr (), s\<lparr>files := (files s)(p := None)\<rparr>)
     | None \<Rightarrow> (Inl not_found, s)) no_effect"

definition metadata_mode :: "path \<Rightarrow> (fs, io_error, nat) act" where
  "metadata_mode p = fs_op (\<lambda>s.
     case files s p of Some f \<Rightarrow> (Inr (fmode f), s) | None \<Rightarrow> (Inl not_found, s)) no_effect"

definition set_permissions :: "path \<Rightarrow> nat \<Rightarrow> (fs, io_error, unit) act" where
  "set_permissions p m = fs_op (\<lambda>s.
     case files s p of
       Some f \<Rightarrow> (Inr (), s\<lparr>files := (files s)(p \<mapsto> f\<lparr>fmode := m\<rparr>)\<rparr>)
     | None \<Rightarrow> (Inl not_found, s)) no_effect"

text \<open>Opening without truncating, creating the file when there is none.\<close>

definition open_or_create :: "nat \<Rightarrow> path \<Rightarrow> (fs, io_error, unit) act" where
  "open_or_create m p = fs_op (\<lambda>s.
     if dirs s p then (Inl is_directory, s)
     else case files s p of
       Some f \<Rightarrow> (Inr (), s)
     | None \<Rightarrow> (Inr (), s\<lparr>files := (files s)(p \<mapsto> \<lparr>content = [], fmode = m\<rparr>)\<rparr>)) no_effect"

definition set_len_zero :: "path \<Rightarrow> (fs, io_error, unit) act" where
  "set_len_zero p = fs_op (\<lambda>s.
     case files s p of
       Some f \<Rightarrow> (Inr (), s\<lparr>files := (files s)(p \<mapsto> f\<lparr>content := []\<rparr>)\<rparr>)
     | None \<Rightarrow> (Inr (), s)) no_effect"

text \<open>Moving the cursor of an open file, and taking its advisory lock.\<close>

definition seek_start :: "path \<Rightarrow> (fs, io_error, unit) act" where
  "seek_start p = fs_op (\<lambda>s. (Inr (), s)) no_effect"

definition try_lock :: "path \<Rightarrow> (fs, io_error, unit) act" where
  "try_lock p = fs_op (\<lambda>s.
     if locked s p then (Inl would_block, s)
     else (Inr (), s\<lparr>locked := (locked s)(p := True)\<rparr>)) no_effect"

text \<open>A call's error with the context that the code adds.\<close>

definition ctx :: "rstr \<Rightarrow> (fs, io_error, 'a) act \<Rightarrow> (fs, error, 'a) act" where
  "ctx t m = mapErrA (\<lambda>e. context_err t (io_chain e)) m"


section \<open>Facts\<close>

lemma fs_op_cases:
  assumes "fs_op body partial s = (r, t)"
  obtains (failed) e n s1 where "take_turn s = (Some (e, n), s1)" "r = Inl e" "t = log_state (partial n s1)"
  | (ran) s1 s2 where "take_turn s = (None, s1)" "body s1 = (r, s2)" "t = log_state s2"
  using assms by (auto simp: fs_op_def split: prod.splits option.splits)

text \<open>No other process touches the paths of \<open>P\<close> from now on.\<close>

definition quiet_turn :: "(path \<Rightarrow> bool) \<Rightarrow> turn \<Rightarrow> bool" where
  "quiet_turn P t \<longleftrightarrow> list_all (\<lambda>(p, f). \<not> P p) (others t)"

definition quiet :: "(path \<Rightarrow> bool) \<Rightarrow> fs \<Rightarrow> bool" where
  "quiet P s \<longleftrightarrow> list_all (quiet_turn P) (turns s)"

lemma fold_others:
  "list_all (\<lambda>(p, f). \<not> P p) cs \<Longrightarrow> P q \<Longrightarrow> fold (\<lambda>(p, f) m. m(p := f)) cs m q = m q"
proof (induction cs arbitrary: m)
  case (Cons c cs)
  obtain p f where c: "c = (p, f)" by (cases c)
  with Cons.prems have "p \<noteq> q" by auto
  then show ?case using Cons by (simp add: c)
qed simp

lemma take_turn_frame:
  assumes "take_turn s = (f, s1)"
  shows "dirs s1 = dirs s" "locked s1 = locked s" "hist s1 = hist s" "pid s1 = pid s"
    "temp_counter s1 = temp_counter s"
  using assms by (auto simp: take_turn_def apply_others_def split: list.splits)

lemma take_turn_quiet:
  assumes "take_turn s = (f, s1)" and "quiet P s"
  shows "quiet P s1" and "P p \<Longrightarrow> files s1 p = files s p"
  using assms
  by (auto simp: take_turn_def apply_others_def quiet_def quiet_turn_def fold_others split: list.splits)

lemma log_state_simps [simp]:
  "files (log_state s) = files s" "dirs (log_state s) = dirs s" "turns (log_state s) = turns s"
  "locked (log_state s) = locked s" "pid (log_state s) = pid s"
  "temp_counter (log_state s) = temp_counter s" "hist (log_state s) = hist s @ [files s]"
  "quiet P (log_state s) = quiet P s"
  by (simp_all add: log_state_def quiet_def)

lemma append_to_simps [simp]:
  "dirs (append_to p bs s) = dirs s" "turns (append_to p bs s) = turns s"
  "hist (append_to p bs s) = hist s" "locked (append_to p bs s) = locked s"
  "files (append_to p bs s) q =
     (if q = p then map_option (\<lambda>f. f\<lparr>content := content f @ bs\<rparr>) (files s p) else files s q)"
  by (auto simp: append_to_def split: option.splits)

text \<open>The Hoare rule of a call.\<close>

lemma hoare_fs_op:
  assumes "\<And>s f s1. I s \<Longrightarrow> take_turn s = (f, s1) \<Longrightarrow> J s1"
    and "\<And>s a s'. J s \<Longrightarrow> body s = (Inr a, s') \<Longrightarrow> Q a (log_state s')"
    and "\<And>s e s'. J s \<Longrightarrow> body s = (Inl e, s') \<Longrightarrow> E e (log_state s')"
    and "\<And>s e n. J s \<Longrightarrow> E e (log_state (partial n s))"
  shows "hoare I (fs_op body partial) Q E"
proof (rule hoareI)
  fix s a s' assume "I s" and run: "fs_op body partial s = (Inr a, s')"
  from run show "Q a s'"
    by (cases rule: fs_op_cases) (use \<open>I s\<close> assms in blast)+
next
  fix s e s' assume "I s" and run: "fs_op body partial s = (Inl e, s')"
  from run show "E e s'"
    by (cases rule: fs_op_cases) (use \<open>I s\<close> assms in blast)+
qed


type_synonym history = "(path \<Rightarrow> fentry option) list"

text \<open>The states recorded since a history \<open>h0\<close> satisfy \<open>V\<close>.\<close>

definition seen :: "'h list \<Rightarrow> ('h \<Rightarrow> bool) \<Rightarrow> 'h list \<Rightarrow> bool" where
  "seen h0 V hs \<longleftrightarrow> (\<exists>h. hs = h0 @ h \<and> list_all V h)"

lemma seen_start [simp]: "seen h0 V h0"
  by (simp add: seen_def)

lemma seen_snoc [intro!]: "seen h0 V hs \<Longrightarrow> V x \<Longrightarrow> seen h0 V (hs @ [x])"
  by (auto simp: seen_def)

lemma keeps_ctx: "keeps P m \<Longrightarrow> keeps P (ctx t m)"
  unfolding ctx_def by (rule keeps_mapErr)

lemma hoare_ctx: "hoare P m Q (\<lambda>_. R) \<Longrightarrow> hoare P (ctx t m) Q (\<lambda>_. R)"
  unfolding ctx_def by (rule hoare_mapErr)

end
