(* ===== verification/Config_File.thy ===== *)
theory Config_File
  imports Fault_Fs Remote_Path
begin

text \<open>
  The configuration file (\<open>src/config.rs\<close>): loading it, replacing it through a temporary file,
  and the persistent rules. The TOML library is a parameter: a printer that may fail and a
  parser. What the rules rely on is that parsing a printed configuration gives it back.
\<close>

section \<open>Definitions\<close>

record serve_service =
  sv_name :: rstr
  sv_target :: rstr

record forward_service =
  fw_listen :: rstr
  fw_remote :: rstr
  fw_secs :: nat

record serve_section =
  serve_services :: "serve_service list"

record forward_section =
  forward_services :: "forward_service list"

record config =
  c_serve :: "serve_section option"
  c_forward :: "forward_section option"

record toml =
  to_toml :: "config \<Rightarrow> rstr + rstr"
  from_toml :: "rstr \<Rightarrow> rstr + config"

definition default_close_on_request_timeout_secs :: nat where
  "default_close_on_request_timeout_secs = 2"

definition config_default :: config where
  "config_default = \<lparr>c_serve = None, c_forward = None\<rparr>"

definition load_config :: "toml \<Rightarrow> path \<Rightarrow> (fs, error, config) act" where
  "load_config tm p =
     bindA (ctx (lit ''failed to read config '' @ path_display p) (read_to_string p)) (\<lambda>raw.
     liftA (with_context (lit ''invalid TOML in '' @ path_display p) (map_err anyhow (from_toml tm raw))))"

definition load_config_or_default :: "toml \<Rightarrow> path \<Rightarrow> (fs, error, config) act" where
  "load_config_or_default tm p =
     bindA (path_exists p) (\<lambda>there. if there then load_config tm p else retA config_default)"

text \<open>The name of the temporary file: the counter is global and wraps.\<close>

definition temp_config_path :: "path \<Rightarrow> (fs, 'e, path) act" where
  "temp_config_path p s =
     (let counter = temp_counter s;
          file_name = (case path_file_name p of Some n \<Rightarrow> n | None \<Rightarrow> lit ''config.toml'')
      in (Inr (with_file_name (lit ''.'' @ file_name @ lit ''.'' @ show_nat (pid s) @ lit ''.'' @
                 show_nat (unat counter) @ lit ''.tmp'') p),
          s\<lparr>temp_counter := counter + 1\<rparr>))"

definition replace_file :: "path \<Rightarrow> path \<Rightarrow> (fs, error, unit) act" where
  "replace_file from to = ctx (lit ''failed to replace config '' @ path_display to) (rename from to)"

text \<open>The Windows variant removes the old file first.\<close>

definition replace_file_windows :: "path \<Rightarrow> path \<Rightarrow> (fs, error, unit) act" where
  "replace_file_windows from to =
     bindA (path_exists to) (\<lambda>there.
     bindA (if there then ctx (lit ''failed to remove existing config '' @ path_display to) (remove_file to)
            else retA ()) (\<lambda>_.
     ctx (lit ''failed to replace config '' @ path_display to) (rename from to)))"

definition write_temp ::
  "(path \<Rightarrow> path \<Rightarrow> (fs, error, unit) act) \<Rightarrow> path \<Rightarrow> path \<Rightarrow> byte list \<Rightarrow> (fs, error, unit) act" where
  "write_temp replace temp p bytes =
     bindA (ctx (lit ''failed to create temp config '' @ path_display temp) (create_new 438 temp)) (\<lambda>_.
     bindA (ctx (lit ''failed to write temp config '' @ path_display temp) (write_all temp bytes)) (\<lambda>_.
     bindA (ctx (lit ''failed to sync temp config '' @ path_display temp) (sync_file temp)) (\<lambda>_.
     replace temp p)))"

definition write_config_atomic ::
  "(path \<Rightarrow> path \<Rightarrow> (fs, error, unit) act) \<Rightarrow> path \<Rightarrow> byte list \<Rightarrow> (fs, error, unit) act" where
  "write_config_atomic replace p bytes =
     bindA (temp_config_path p) (\<lambda>temp.
     bindA (attemptA (write_temp replace temp p bytes)) (\<lambda>result.
     bindA (if is_ok result then retA () else bindA (attemptA (remove_file temp)) (\<lambda>_. retA ())) (\<lambda>_.
     liftA result)))"

definition write_config_with ::
  "(path \<Rightarrow> path \<Rightarrow> (fs, error, unit) act) \<Rightarrow> toml \<Rightarrow> path \<Rightarrow> config \<Rightarrow> (fs, error, unit) act" where
  "write_config_with replace tm p c =
     bindA (case path_parent p of
        None \<Rightarrow> retA ()
      | Some parent \<Rightarrow> ctx (lit ''failed to create config dir '' @ path_display parent) (create_dir_all parent)) (\<lambda>_.
     bindA (liftA (with_context (lit ''failed to serialize config'') (map_err anyhow (to_toml tm c)))) (\<lambda>raw.
     write_config_atomic replace p (utf8 raw)))"

abbreviation write_config :: "toml \<Rightarrow> path \<Rightarrow> config \<Rightarrow> (fs, error, unit) act" where
  "write_config \<equiv> write_config_with replace_file"


section \<open>Persistent rules\<close>

definition serve_entries :: "config \<Rightarrow> serve_service list" where
  "serve_entries c = (case c_serve c of None \<Rightarrow> [] | Some s \<Rightarrow> serve_services s)"

definition forward_entries :: "config \<Rightarrow> forward_service list" where
  "forward_entries c = (case c_forward c of None \<Rightarrow> [] | Some s \<Rightarrow> forward_services s)"

definition push_serve :: "serve_service \<Rightarrow> config \<Rightarrow> config" where
  "push_serve r c = c\<lparr>c_serve := Some \<lparr>serve_services = serve_entries c @ [r]\<rparr>\<rparr>"

definition push_forward :: "forward_service \<Rightarrow> config \<Rightarrow> config" where
  "push_forward r c = c\<lparr>c_forward := Some \<lparr>forward_services = forward_entries c @ [r]\<rparr>\<rparr>"

definition add_persistent_serve_rule :: "toml \<Rightarrow> path \<Rightarrow> rstr \<Rightarrow> rstr \<Rightarrow> (fs, error, unit) act" where
  "add_persistent_serve_rule tm p name tgt =
     bindA (liftA (with_context (lit ''invalid service name '' @ quoted name) (validate_service_name name))) (\<lambda>_.
     if trim tgt = [] then failA (anyhow (lit ''target cannot be empty''))
     else
       bindA (load_config_or_default tm p) (\<lambda>c.
       case find (\<lambda>e. sv_name e = name) (serve_entries c) of
         Some existing \<Rightarrow>
           if sv_target existing = tgt then retA ()
           else failA (anyhow (lit ''service '' @ quoted name @ lit '' already exists in '' @
             path_display p @ lit '' with target '' @ quoted (sv_target existing)))
       | None \<Rightarrow> write_config tm p (push_serve \<lparr>sv_name = name, sv_target = tgt\<rparr> c)))"

definition add_persistent_forward_rule ::
  "(rstr \<Rightarrow> rstr + 'i) \<Rightarrow> toml \<Rightarrow> path \<Rightarrow> rstr \<Rightarrow> rstr \<Rightarrow> nat \<Rightarrow> (fs, error, unit) act" where
  "add_persistent_forward_rule parse_id tm p listen remote secs =
     (if trim listen = [] then failA (anyhow (lit ''listen address cannot be empty''))
      else
       bindA (liftA (with_context (lit ''invalid remote path '' @ quoted remote)
         (remote_from_str parse_id remote))) (\<lambda>_.
       bindA (load_config_or_default tm p) (\<lambda>c.
       case find (\<lambda>e. fw_listen e = listen) (forward_entries c) of
         Some existing \<Rightarrow>
           if fw_remote existing = remote \<and> fw_secs existing = secs then retA ()
           else failA (anyhow (lit ''forward '' @ quoted listen @ lit '' already exists in '' @
             path_display p @ lit '' with remote '' @ quoted (fw_remote existing) @ lit '' and timeout '' @
             show_nat (fw_secs existing) @ lit ''s''))
       | None \<Rightarrow> write_config tm p
           (push_forward \<lparr>fw_listen = listen, fw_remote = remote, fw_secs = secs\<rparr> c))))"

text \<open>\<open>remove_persistent_forward_rule_inner\<close>: what is left of the configuration, if it changes.\<close>

definition retain_forwards :: "(forward_service \<Rightarrow> bool) \<Rightarrow> config \<Rightarrow> config option" where
  "retain_forwards matches c =
     (case c_forward c of
        None \<Rightarrow> None
      | Some f \<Rightarrow>
          let kept = filter (\<lambda>e. \<not> matches e) (forward_services f) in
          if length kept = length (forward_services f) then None
          else if kept = [] then Some (c\<lparr>c_forward := None\<rparr>)
          else Some (c\<lparr>c_forward := Some (f\<lparr>forward_services := kept\<rparr>)\<rparr>))"

definition remove_persistent_forward_rule_inner ::
  "toml \<Rightarrow> path \<Rightarrow> (forward_service \<Rightarrow> bool) \<Rightarrow> (fs, error, bool) act" where
  "remove_persistent_forward_rule_inner tm p matches =
     bindA (load_config_or_default tm p) (\<lambda>c.
     case retain_forwards matches c of
       None \<Rightarrow> retA False
     | Some c' \<Rightarrow> bindA (write_config tm p c') (\<lambda>_. retA True))"

definition remove_persistent_forward_rule :: "toml \<Rightarrow> path \<Rightarrow> rstr \<Rightarrow> rstr \<Rightarrow> (fs, error, bool) act" where
  "remove_persistent_forward_rule tm p listen remote =
     remove_persistent_forward_rule_inner tm p (\<lambda>e. fw_listen e = listen \<and> fw_remote e = remote)"

definition remove_persistent_forward_rule_by_listen ::
  "toml \<Rightarrow> path \<Rightarrow> rstr \<Rightarrow> (fs, error, bool) act" where
  "remove_persistent_forward_rule_by_listen tm p listen =
     remove_persistent_forward_rule_inner tm p (\<lambda>e. fw_listen e = listen)"



section \<open>Replacing the file\<close>

text \<open>
  While nobody else writes in the configuration's directory: the file is \<open>old\<close> now, and at
  every moment recorded since \<open>h0\<close> it was \<open>old\<close> or \<open>new\<close>.
\<close>

definition old_or_new :: "path \<Rightarrow> fentry option \<Rightarrow> fentry option \<Rightarrow> (path \<Rightarrow> fentry option) \<Rightarrow> bool" where
  "old_or_new p old new m \<longleftrightarrow> m p = old \<or> m p = new"

definition cfg_inv :: "path \<Rightarrow> history \<Rightarrow> fentry option \<Rightarrow> fentry option \<Rightarrow> fs \<Rightarrow> bool" where
  "cfg_inv p h0 old new s \<longleftrightarrow> quiet (\<lambda>q. butlast q = butlast p) s \<and> files s p = old \<and>
     seen h0 (old_or_new p old new) (hist s)"

definition cfg_temp ::
  "path \<Rightarrow> history \<Rightarrow> fentry option \<Rightarrow> fentry option \<Rightarrow> path \<Rightarrow> fentry option \<Rightarrow> fs \<Rightarrow> bool" where
  "cfg_temp p h0 old new t x s \<longleftrightarrow> cfg_inv p h0 old new s \<and> files s t = x"

definition cfg_done :: "path \<Rightarrow> history \<Rightarrow> fentry option \<Rightarrow> fentry option \<Rightarrow> fs \<Rightarrow> bool" where
  "cfg_done p h0 old new s \<longleftrightarrow> quiet (\<lambda>q. butlast q = butlast p) s \<and> files s p = new \<and>
     seen h0 (old_or_new p old new) (hist s)"

lemma old_or_new_simps [simp]:
  "m p = old \<Longrightarrow> old_or_new p old new m" "m p = new \<Longrightarrow> old_or_new p old new m"
  by (simp_all add: old_or_new_def)

lemma cfg_inv_turn: "cfg_inv p h0 old new s \<Longrightarrow> take_turn s = (f, s1) \<Longrightarrow> cfg_inv p h0 old new s1"
  using take_turn_quiet [of s f s1 "\<lambda>q. butlast q = butlast p"] take_turn_frame(3) [of s f s1]
  by (auto simp: cfg_inv_def)

lemma cfg_temp_turn:
  "cfg_temp p h0 old new t x s \<Longrightarrow> butlast t = butlast p \<Longrightarrow> take_turn s = (f, s1) \<Longrightarrow>
     cfg_temp p h0 old new t x s1"
  using take_turn_quiet [of s f s1 "\<lambda>q. butlast q = butlast p"] cfg_inv_turn [of p h0 old new s f s1]
  by (auto simp: cfg_temp_def cfg_inv_def)

text \<open>Calls that leave the file, the record of states and the environment alone.\<close>

lemma cfg_keeps:
  assumes "\<And>s r s'. body s = (r, s') \<Longrightarrow> files s' p = files s p \<and> hist s' = hist s \<and> turns s' = turns s"
    and "\<And>n s. files (partial n s) p = files s p \<and> hist (partial n s) = hist s \<and> turns (partial n s) = turns s"
  shows "keeps (cfg_inv p h0 old new) (fs_op body partial)"
proof -
  have log: "cfg_inv p h0 old new (log_state s')"
    if "cfg_inv p h0 old new s" "files s' p = files s p \<and> hist s' = hist s \<and> turns s' = turns s" for s s'
    using that by (auto simp: cfg_inv_def quiet_def)
  show ?thesis
    by (rule hoare_fs_op [where J = "cfg_inv p h0 old new"])
      (erule (1) cfg_inv_turn, (erule log, erule assms)+, erule log, rule assms)
qed

lemma cfg_keeps_create_dir: "keeps (cfg_inv p h0 old new) (create_dir_all d)"
  unfolding create_dir_all_def by (rule cfg_keeps) (auto simp: no_effect_def split: if_splits)

lemma cfg_keeps_remove: "t \<noteq> p \<Longrightarrow> keeps (cfg_inv p h0 old new) (remove_file t)"
  unfolding remove_file_def by (rule cfg_keeps) (auto simp: no_effect_def split: option.splits)

lemma cfg_create:
  assumes "t \<noteq> p" "butlast t = butlast p"
  shows "hoare (cfg_inv p h0 old new) (create_new m t)
    (\<lambda>_. cfg_temp p h0 old new t (Some \<lparr>content = [], fmode = m\<rparr>)) (\<lambda>_. cfg_inv p h0 old new)"
  unfolding create_new_def
  by (rule hoare_fs_op [where J = "cfg_inv p h0 old new", OF cfg_inv_turn])
    (use assms in \<open>auto simp: cfg_temp_def cfg_inv_def no_effect_def quiet_def
      split: if_splits\<close>)

lemma cfg_write:
  assumes "t \<noteq> p" "butlast t = butlast p"
  shows "hoare (cfg_temp p h0 old new t (Some \<lparr>content = [], fmode = m\<rparr>)) (write_all t bs)
    (\<lambda>_. cfg_temp p h0 old new t (Some \<lparr>content = bs, fmode = m\<rparr>)) (\<lambda>_. cfg_inv p h0 old new)"
  unfolding write_all_def
  by (rule hoare_fs_op [where J = "cfg_temp p h0 old new t (Some \<lparr>content = [], fmode = m\<rparr>)", OF cfg_temp_turn [OF _ assms(2)]])
    (use assms in \<open>auto simp: cfg_temp_def cfg_inv_def quiet_def\<close>)

lemma cfg_sync:
  assumes "t \<noteq> p" "butlast t = butlast p"
  shows "hoare (cfg_temp p h0 old new t x) (sync_file t)
    (\<lambda>_. cfg_temp p h0 old new t x) (\<lambda>_. cfg_inv p h0 old new)"
  unfolding sync_file_def
  by (rule hoare_fs_op [where J = "cfg_temp p h0 old new t x", OF cfg_temp_turn [OF _ assms(2)]])
    (use assms in \<open>auto simp: cfg_temp_def cfg_inv_def no_effect_def quiet_def\<close>)

lemma cfg_rename:
  assumes "t \<noteq> p" "butlast t = butlast p"
  shows "hoare (cfg_temp p h0 old new t new) (rename t p) (\<lambda>_. cfg_done p h0 old new) (\<lambda>_. cfg_inv p h0 old new)"
  unfolding rename_def
  by (rule hoare_fs_op [where J = "cfg_temp p h0 old new t new", OF cfg_temp_turn [OF _ assms(2)]])
    (use assms in \<open>auto simp: cfg_temp_def cfg_inv_def cfg_done_def no_effect_def quiet_def
      split: option.splits if_splits\<close>)

text \<open>A freshly written configuration file (mode \<open>0o666\<close>, the default of \<open>OpenOptions\<close>).\<close>

definition fresh_file :: "byte list \<Rightarrow> fentry option" where
  "fresh_file bs = Some \<lparr>content = bs, fmode = 438\<rparr>"

lemma cfg_write_temp:
  assumes "t \<noteq> p" "butlast t = butlast p"
  shows "hoare (cfg_inv p h0 old (fresh_file bs)) (write_temp replace_file t p bs)
    (\<lambda>_. cfg_done p h0 old (fresh_file bs)) (\<lambda>_. cfg_inv p h0 old (fresh_file bs))"
  unfolding write_temp_def replace_file_def fresh_file_def
  by (rule hoare_bind, rule hoare_ctx, rule cfg_create [OF assms],
      rule hoare_bind, rule hoare_ctx, rule cfg_write [OF assms],
      rule hoare_bind, rule hoare_ctx, rule cfg_sync [OF assms],
      rule hoare_ctx, rule cfg_rename [OF assms])

lemma dotted_longer: "lit ''.'' @ n @ e \<noteq> n"
  by (rule notI, drule arg_cong [where f = length]) simp

lemma temp_path_other: "p \<noteq> [] \<Longrightarrow> with_file_name (lit ''.'' @ last p @ e) p \<noteq> p"
  by (metis append_butlast_last_id dotted_longer last_snoc with_file_name_def)

lemma cfg_atomic:
  assumes "p \<noteq> []"
  shows "hoare (cfg_inv p h0 old (fresh_file bs)) (write_config_atomic replace_file p bs)
    (\<lambda>_. cfg_done p h0 old (fresh_file bs)) (\<lambda>_. cfg_inv p h0 old (fresh_file bs))"
proof -
  let ?new = "fresh_file bs"
  have temp: "hoare (cfg_inv p h0 old ?new) (temp_config_path p)
      (\<lambda>t s. cfg_inv p h0 old ?new s \<and> t \<noteq> p \<and> butlast t = butlast p) E" for E :: "error \<Rightarrow> fs \<Rightarrow> bool"
    using assms temp_path_other [OF assms]
    by (auto simp: hoare_def temp_config_path_def Let_def path_file_name_def cfg_inv_def quiet_def
        with_file_name_def split del: if_split)
  have attempt: "hoare (\<lambda>s. cfg_inv p h0 old ?new s \<and> t \<noteq> p \<and> butlast t = butlast p)
      (attemptA (write_temp replace_file t p bs))
      (\<lambda>r s. t \<noteq> p \<and> (if is_ok r then cfg_done p h0 old ?new s else cfg_inv p h0 old ?new s)) E" for t E
  proof (cases "t \<noteq> p \<and> butlast t = butlast p")
    case True
    then show ?thesis by (intro hoare_attempt hoare_conseq [OF cfg_write_temp]) auto
  next
    case False
    then show ?thesis by (auto simp: hoare_def)
  qed
  have clean: "hoare (\<lambda>s. t \<noteq> p \<and> (if is_ok r then cfg_done p h0 old ?new s else cfg_inv p h0 old ?new s))
      (if is_ok r then retA () else bindA (attemptA (remove_file t)) (\<lambda>_. retA ()))
      (\<lambda>_ s. if is_ok r then cfg_done p h0 old ?new s else cfg_inv p h0 old ?new s)
      (\<lambda>_ s. cfg_inv p h0 old ?new s)" for t and r :: "error + unit"
  proof (cases "is_ok r \<or> t = p")
    case True
    then show ?thesis by (auto simp: hoare_def retA_def)
  next
    case False
    then have "keeps (cfg_inv p h0 old ?new) (remove_file t)" by (intro cfg_keeps_remove) simp
    from keeps_bind [OF keeps_attempt [OF this] keeps_ret] False show ?thesis
      by (simp add: hoare_def)
  qed
  have final: "hoare (\<lambda>s. if is_ok r then cfg_done p h0 old ?new s else cfg_inv p h0 old ?new s) (liftA r)
      (\<lambda>_. cfg_done p h0 old ?new) (\<lambda>_. cfg_inv p h0 old ?new)" for r :: "error + unit"
    by (cases r) (auto simp: hoare_def liftA_def)
  show ?thesis unfolding write_config_atomic_def
    by (rule hoare_bind [OF temp], rule hoare_bind [OF attempt], rule hoare_bind [OF clean], rule final)
qed

lemma cfg_write_config:
  assumes "p \<noteq> []"
  shows "hoare (cfg_inv p h0 old (fresh_file (utf8 raw)))
    (write_config_with replace_file tm p c)
    (\<lambda>_ s. is_ok (to_toml tm c) \<and> (to_toml tm c = Inr raw \<longrightarrow> cfg_done p h0 old (fresh_file (utf8 raw)) s))
    (\<lambda>_ s. to_toml tm c = Inr raw \<or> \<not> is_ok (to_toml tm c) \<longrightarrow> cfg_inv p h0 old (fresh_file (utf8 raw)) s)"
proof -
  let ?I = "cfg_inv p h0 old (fresh_file (utf8 raw))"
  have dir: "keeps ?I (case path_parent p of None \<Rightarrow> retA () | Some parent \<Rightarrow>
      ctx (lit ''failed to create config dir '' @ path_display parent) (create_dir_all parent))"
    using keeps_ctx [OF cfg_keeps_create_dir] keeps_ret by (auto split: option.splits)
  have conv: "hoare ?I (liftA (with_context t (map_err anyhow (to_toml tm c))))
      (\<lambda>r s. ?I s \<and> to_toml tm c = Inr r) (\<lambda>_. ?I)" for t
    by (cases "to_toml tm c") (auto simp: hoare_def liftA_def)
  have at: "hoare (\<lambda>s. ?I s \<and> to_toml tm c = Inr r) (write_config_atomic replace_file p (utf8 r))
      (\<lambda>_ s. is_ok (to_toml tm c) \<and> (to_toml tm c = Inr raw \<longrightarrow> cfg_done p h0 old (fresh_file (utf8 raw)) s))
      (\<lambda>_ s. to_toml tm c = Inr raw \<or> \<not> is_ok (to_toml tm c) \<longrightarrow> ?I s)" for r
    using cfg_atomic [OF assms, of h0 old "utf8 raw"]
    by (cases "r = raw") (auto simp: hoare_def split: sum.splits prod.splits)
  show ?thesis unfolding write_config_with_def
    by (rule hoare_bind [OF hoare_conseq [OF dir]], assumption, assumption, simp)
      (rule hoare_bind [OF hoare_conseq [OF conv] at], simp_all)
qed



section \<open>Loading\<close>

text \<open>The configuration that the file holds: none at all is the default one.\<close>

definition on_disk :: "toml \<Rightarrow> path \<Rightarrow> fs \<Rightarrow> config option" where
  "on_disk tm p s =
     (case files s p of
        None \<Rightarrow> if dirs s p then None else Some config_default
      | Some f \<Rightarrow>
          (case utf8_decode (content f) of
             None \<Rightarrow> None
           | Some t \<Rightarrow> (case from_toml tm t of Inl _ \<Rightarrow> None | Inr c \<Rightarrow> Some c)))"

text \<open>What the rules rely on of the TOML library.\<close>

definition toml_ok :: "toml \<Rightarrow> bool" where
  "toml_ok tm \<longleftrightarrow> (\<forall>c raw. to_toml tm c = Inr raw \<longrightarrow> valid_str raw \<and> from_toml tm raw = Inr c)"

lemma on_disk_fresh:
  assumes "toml_ok tm" "to_toml tm c = Inr raw" "files s p = fresh_file (utf8 raw)"
  shows "on_disk tm p s = Some c"
  using assms by (simp add: on_disk_def fresh_file_def toml_ok_def)

lemma cfg_read:
  "hoare (cfg_inv p h0 old new) (read_to_string p)
    (\<lambda>raw s. cfg_inv p h0 old new s \<and> (\<exists>f. old = Some f \<and> utf8_decode (content f) = Some raw))
    (\<lambda>_. cfg_inv p h0 old new)"
  unfolding read_to_string_def
  by (rule hoare_fs_op [where J = "cfg_inv p h0 old new", OF cfg_inv_turn])
    (auto simp: cfg_inv_def no_effect_def quiet_def split: option.splits)

lemma cfg_load:
  "hoare (cfg_inv p h0 old new) (load_config tm p)
    (\<lambda>c s. cfg_inv p h0 old new s \<and> (\<exists>f t. old = Some f \<and> utf8_decode (content f) = Some t \<and> from_toml tm t = Inr c))
    (\<lambda>_. cfg_inv p h0 old new)"
  unfolding load_config_def
proof (rule hoare_bind [OF hoare_ctx [OF cfg_read]])
  fix raw
  show "hoare (\<lambda>s. cfg_inv p h0 old new s \<and> (\<exists>f. old = Some f \<and> utf8_decode (content f) = Some raw))
      (liftA (with_context (lit ''invalid TOML in '' @ path_display p) (map_err anyhow (from_toml tm raw))))
      (\<lambda>c s. cfg_inv p h0 old new s \<and>
        (\<exists>f t. old = Some f \<and> utf8_decode (content f) = Some t \<and> from_toml tm t = Inr c))
      (\<lambda>_. cfg_inv p h0 old new)"
    by (cases "from_toml tm raw") (auto simp: hoare_def liftA_def)
qed

text \<open>Loading, when the check that the file exists is not itself hit by an error.\<close>

lemma load_spec:
  assumes inv: "cfg_inv p h0 old new s" and turn: "take_turn s = (None, s1)"
    and run: "load_config_or_default tm p s = (r, t)"
  shows "cfg_inv p h0 old new t" and "r = Inr c \<Longrightarrow> on_disk tm p s = Some c"
proof -
  have s1: "cfg_inv p h0 old new s1" "files s1 p = files s p" "dirs s1 = dirs s"
    using cfg_inv_turn [OF inv turn] inv take_turn_frame [OF turn] by (auto simp: cfg_inv_def)
  have ex: "(path_exists p :: (fs, error, bool) act) s = (Inr (files s p \<noteq> None \<or> dirs s p), log_state s1)"
    using turn s1(2,3) by (simp add: path_exists_def fs_op_def)
  have log: "cfg_inv p h0 old new (log_state s1)"
    using s1(1) by (auto simp: cfg_inv_def)
  have old: "files s p = old" using inv by (simp add: cfg_inv_def)
  show "cfg_inv p h0 old new t" "r = Inr c \<Longrightarrow> on_disk tm p s = Some c"
  proof (atomize (full), cases "files s p \<noteq> None \<or> dirs s p")
    case True
    then have ld: "load_config tm p (log_state s1) = (r, t)"
      using run ex by (simp add: load_config_or_default_def bindA_def)
    from hoareD_ok [OF cfg_load log, of tm] hoareD_err [OF cfg_load log, of tm] ld old
    show "cfg_inv p h0 old new t \<and> (r = Inr c \<longrightarrow> on_disk tm p s = Some c)"
      by (cases r) (fastforce simp: on_disk_def)+
  next
    case False
    then have "r = Inr config_default" "t = log_state s1"
      using run ex by (auto simp: load_config_or_default_def bindA_def retA_def)
    with False log show "cfg_inv p h0 old new t \<and> (r = Inr c \<longrightarrow> on_disk tm p s = Some c)"
      by (simp add: on_disk_def)
  qed
qed


section \<open>Editing the configuration\<close>

text \<open>The shape the rule operations share: load, decide, write what changed.\<close>

definition edit_config ::
  "toml \<Rightarrow> path \<Rightarrow> (config \<Rightarrow> error + 'a \<times> config option) \<Rightarrow> (fs, error, 'a) act" where
  "edit_config tm p decide =
     bindA (load_config_or_default tm p) (\<lambda>c.
     case decide c of
       Inl e \<Rightarrow> failA e
     | Inr (a, None) \<Rightarrow> retA a
     | Inr (a, Some c') \<Rightarrow> bindA (write_config tm p c') (\<lambda>_. retA a))"

lemma bindA_ret: "bindA m retA = m"
  by (rule ext) (auto simp: bindA_def retA_def split: prod.splits sum.splits)

definition edited :: "toml \<Rightarrow> path \<Rightarrow> (config \<Rightarrow> error + 'a \<times> config option) \<Rightarrow> fs \<Rightarrow> error + 'a \<Rightarrow> fs \<Rightarrow> bool" where
  "edited tm p decide s r t \<longleftrightarrow>
     (case r of
        Inl e \<Rightarrow> files t p = files s p
      | Inr a \<Rightarrow> (\<exists>c d. on_disk tm p s = Some c \<and> decide c = Inr (a, d) \<and>
          (case d of None \<Rightarrow> files t p = files s p | Some c' \<Rightarrow> on_disk tm p t = Some c')))"

lemma write_config_spec:
  assumes tm: "toml_ok tm" and p: "p \<noteq> []" and q: "quiet (\<lambda>q. butlast q = butlast p) s"
    and run: "write_config tm p c s = (r, t)"
  shows "r = Inr () \<Longrightarrow> on_disk tm p t = Some c" and "r = Inl e \<Longrightarrow> files t p = files s p"
proof -
  have inv: "cfg_inv p (hist s) (files s p) new s" for new using q by (simp add: cfg_inv_def)
  show "on_disk tm p t = Some c" if "r = Inr ()"
  proof -
    have fin: "is_ok (to_toml tm c) \<and>
        (to_toml tm c = Inr raw \<longrightarrow> cfg_done p (hist s) (files s p) (fresh_file (utf8 raw)) t)" for raw
      using hoareD_ok [OF cfg_write_config [OF p, where raw = raw and tm = tm and c = c] inv] run that
      by simp
    have "is_ok (to_toml tm c)" by (rule conjunct1 [OF fin [of "[]"]])
    then obtain raw where raw: "to_toml tm c = Inr raw" by (auto simp: is_ok_iff)
    with fin [of raw] run that have "files t p = fresh_file (utf8 raw)" by (simp add: cfg_done_def)
    with tm raw show ?thesis by (rule on_disk_fresh)
  qed
  show "files t p = files s p" if "r = Inl e"
  proof (cases "to_toml tm c")
    case (Inl m)
    with hoareD_err [OF cfg_write_config [OF p, where raw = "[]" and tm = tm and c = c] inv] run that show ?thesis
      by (simp add: cfg_inv_def)
  next
    case (Inr raw)
    with hoareD_err [OF cfg_write_config [OF p, where raw = raw and tm = tm and c = c] inv] run that show ?thesis
      by (simp add: cfg_inv_def)
  qed
qed

lemma edit_config_spec:
  assumes tm: "toml_ok tm" and p: "p \<noteq> []" and q: "quiet (\<lambda>q. butlast q = butlast p) s"
    and turn: "take_turn s = (None, s1)" and run: "edit_config tm p decide s = (r, t)"
  shows "edited tm p decide s r t"
proof -
  have inv: "cfg_inv p (hist s) (files s p) None s" using q by (simp add: cfg_inv_def)
  show ?thesis
    using run unfolding edit_config_def
  proof (cases rule: bindA_cases)
    case (fail e)
    from load_spec(1) [OF inv turn this(1)] fail show ?thesis by (simp add: edited_def cfg_inv_def)
  next
    case (ok c u)
    have "cfg_inv p (hist s) (files s p) None u" by (rule load_spec(1) [OF inv turn ok(1)])
    then have u: "quiet (\<lambda>q. butlast q = butlast p) u" "files u p = files s p"
      by (simp_all add: cfg_inv_def)
    have c: "on_disk tm p s = Some c" by (rule load_spec(2) [OF inv turn ok(1)]) simp
    show ?thesis
    proof (cases "\<exists>a c'. decide c = Inr (a, Some c')")
      case False
      with ok(2) u c show ?thesis
        by (auto simp: edited_def failA_def retA_def split: sum.splits option.splits)
    next
      case True
      then obtain a c' where dec: "decide c = Inr (a, Some c')" by blast
      with ok(2) have wr: "bindA (write_config tm p c') (\<lambda>_. retA a) u = (r, t)" by simp
      from wr show ?thesis
      proof (cases rule: bindA_cases)
        case (fail e)
        with write_config_spec(2) [OF tm p u(1) fail(1)] u(2) show ?thesis by (simp add: edited_def)
      next
        case (ok x v)
        then have "on_disk tm p t = Some c'"
          using write_config_spec(1) [OF tm p u(1) ok(1)] by (simp add: retA_def)
        with ok c dec show ?thesis by (auto simp: edited_def retA_def)
      qed
    qed
  qed
qed



section \<open>Keyed rule lists\<close>

text \<open>What both \<open>add_persistent\<close> operations decide: keep, refuse or append.\<close>

definition decide_add ::
  "(config \<Rightarrow> 'r list) \<Rightarrow> ('r \<Rightarrow> config \<Rightarrow> config) \<Rightarrow> ('r \<Rightarrow> rstr) \<Rightarrow> ('r \<Rightarrow> error) \<Rightarrow> 'r \<Rightarrow>
   config \<Rightarrow> error + unit \<times> config option" where
  "decide_add entries push key conflict r c =
     (case find (\<lambda>e. key e = key r) (entries c) of
        Some e \<Rightarrow> if e = r then Inr ((), None) else Inl (conflict e)
      | None \<Rightarrow> Inr ((), Some (push r c)))"

lemma find_append: "find P (xs @ ys) = (case find P xs of None \<Rightarrow> find P ys | Some x \<Rightarrow> Some x)"
  by (induction xs) auto

text \<open>
  The interface of a list of rules inside the configuration: appending to it changes nothing
  else. Its laws give what a decision to add means.
\<close>

locale rule_list =
  fixes entries :: "config \<Rightarrow> 'r list"
    and push :: "'r \<Rightarrow> config \<Rightarrow> config"
    and key :: "'r \<Rightarrow> rstr"
    and rest :: "config \<Rightarrow> 'o"
  assumes entries_push: "entries (push r c) = entries c @ [r]"
    and rest_push: "rest (push r c) = rest c"
    and entries_default: "entries config_default = []"
begin

lemma decide_keep:
  "decide_add entries push key cf r c = Inr (u, None) \<Longrightarrow> find (\<lambda>e. key e = key r) (entries c) = Some r"
  by (auto simp: decide_add_def split: option.splits if_splits)

lemma decide_push:
  "decide_add entries push key cf r c = Inr (u, Some c') \<Longrightarrow>
     entries c' = entries c @ [r] \<and> rest c' = rest c \<and> key r \<notin> key ` set (entries c)"
  by (auto simp: decide_add_def entries_push rest_push find_None_iff split: option.splits if_splits)

lemma decide_again:
  assumes "decide_add entries push key cf r c = Inr (u, Some c')"
  shows "decide_add entries push key cf r c' = Inr ((), None)"
proof -
  have "entries c' = entries c @ [r]" and new: "key r \<notin> key ` set (entries c)"
    using decide_push [OF assms] by auto
  moreover have "find (\<lambda>e. key e = key r) (entries c) = None"
    unfolding find_None_iff
  proof
    assume "\<exists>x. x \<in> set (entries c) \<and> key x = key r"
    then obtain x where "x \<in> set (entries c)" "key x = key r" by blast
    then have "key r \<in> key ` set (entries c)" by (metis imageI)
    with new show False by blast
  qed
  ultimately have "entries c' = entries c @ [r]" "find (\<lambda>e. key e = key r) (entries c) = None" by auto
  then have "find (\<lambda>e. key e = key r) (entries c') = Some r"
    by (simp add: find_append)
  then show ?thesis by (simp add: decide_add_def)
qed

lemma edited_add:
  assumes "edited tm p (decide_add entries push key cf r) s (Inr u) t"
  shows "\<exists>c c'. on_disk tm p s = Some c \<and> on_disk tm p t = Some c' \<and> rest c' = rest c \<and>
    find (\<lambda>e. key e = key r) (entries c') = Some r \<and>
    entries c' = (if key r \<in> key ` set (entries c) then entries c else entries c @ [r]) \<and>
    (key r \<in> key ` set (entries c) \<longrightarrow> files t p = files s p)"
proof -
  obtain c d where c: "on_disk tm p s = Some c" "decide_add entries push key cf r c = Inr (u, d)"
    and d: "case d of None \<Rightarrow> files t p = files s p | Some c' \<Rightarrow> on_disk tm p t = Some c'"
    using assms by (auto simp: edited_def)
  show ?thesis
  proof (cases d)
    case None
    with c have fnd: "find (\<lambda>e. key e = key r) (entries c) = Some r" by (auto dest: decide_keep)
    then have "entries c \<noteq> []" "key r \<in> key ` set (entries c)"
      by (auto simp: find_Some_iff)
    with c(1) have "files s p \<noteq> None" 
      by (cases "files s p") (auto simp: on_disk_def entries_default split: if_splits)
    with c(1) d None have "on_disk tm p t = Some c" by (auto simp: on_disk_def)
    with c fnd d None \<open>key r \<in> _\<close> show ?thesis by auto
  next
    case (Some c')
    with c have "decide_add entries push key cf r c = Inr (u, Some c')" by simp
    from decide_push [OF this] decide_again [OF this] c d Some show ?thesis
      by (auto dest: decide_keep)
  qed
qed

end

interpretation serve_rules: rule_list serve_entries push_serve sv_name c_forward
  by unfold_locales (simp_all add: serve_entries_def push_serve_def config_default_def)

interpretation forward_rules: rule_list forward_entries push_forward fw_listen c_serve
  by unfold_locales (simp_all add: forward_entries_def push_forward_def config_default_def)


text \<open>The rule operations in that shape.\<close>

definition serve_conflict :: "path \<Rightarrow> serve_service \<Rightarrow> error" where
  "serve_conflict p e = anyhow (lit ''service '' @ quoted (sv_name e) @ lit '' already exists in '' @
     path_display p @ lit '' with target '' @ quoted (sv_target e))"

definition forward_conflict :: "path \<Rightarrow> forward_service \<Rightarrow> error" where
  "forward_conflict p e = anyhow (lit ''forward '' @ quoted (fw_listen e) @ lit '' already exists in '' @
     path_display p @ lit '' with remote '' @ quoted (fw_remote e) @ lit '' and timeout '' @
     show_nat (fw_secs e) @ lit ''s'')"

lemma find_key: "find (\<lambda>e. P e) xs = Some e \<Longrightarrow> P e"
  by (auto simp: find_Some_iff)

lemma add_serve_rule_edit:
  assumes "valid_service name" and "trim tgt \<noteq> []"
  shows "add_persistent_serve_rule tm p name tgt =
    edit_config tm p (decide_add serve_entries push_serve sv_name (serve_conflict p)
      \<lparr>sv_name = name, sv_target = tgt\<rparr>)"
proof -
  have v: "validate_service_name name = Inr ()" using assms by simp
  have "(case find (\<lambda>e. sv_name e = name) (serve_entries c) of
         Some existing \<Rightarrow>
           if sv_target existing = tgt then retA ()
           else failA (anyhow (lit ''service '' @ quoted name @ lit '' already exists in '' @
             path_display p @ lit '' with target '' @ quoted (sv_target existing)))
       | None \<Rightarrow> write_config tm p (push_serve \<lparr>sv_name = name, sv_target = tgt\<rparr> c)) =
     (case decide_add serve_entries push_serve sv_name (serve_conflict p)
         \<lparr>sv_name = name, sv_target = tgt\<rparr> c of
       Inl e \<Rightarrow> failA e
     | Inr (a, None) \<Rightarrow> retA a
     | Inr (a, Some c') \<Rightarrow> bindA (write_config tm p c') (\<lambda>_. retA a))" for c
    by (auto simp: decide_add_def serve_conflict_def bindA_ret dest!: find_key split: option.splits)
  then show ?thesis
    using assms(2)
    by (simp only: add_persistent_serve_rule_def v with_context_simps edit_config_def if_False)
      (rule ext, simp add: bindA_def liftA_def)
qed

lemma add_forward_rule_edit:
  assumes "trim listen \<noteq> []" and "remote_from_str parse_id remote = Inr rp"
  shows "add_persistent_forward_rule parse_id tm p listen remote secs =
    edit_config tm p (decide_add forward_entries push_forward fw_listen (forward_conflict p)
      \<lparr>fw_listen = listen, fw_remote = remote, fw_secs = secs\<rparr>)"
proof -
  have "(case find (\<lambda>e. fw_listen e = listen) (forward_entries c) of
         Some existing \<Rightarrow>
           if fw_remote existing = remote \<and> fw_secs existing = secs then retA ()
           else failA (anyhow (lit ''forward '' @ quoted listen @ lit '' already exists in '' @
             path_display p @ lit '' with remote '' @ quoted (fw_remote existing) @ lit '' and timeout '' @
             show_nat (fw_secs existing) @ lit ''s''))
       | None \<Rightarrow> write_config tm p
           (push_forward \<lparr>fw_listen = listen, fw_remote = remote, fw_secs = secs\<rparr> c)) =
     (case decide_add forward_entries push_forward fw_listen (forward_conflict p)
         \<lparr>fw_listen = listen, fw_remote = remote, fw_secs = secs\<rparr> c of
       Inl e \<Rightarrow> failA e
     | Inr (a, None) \<Rightarrow> retA a
     | Inr (a, Some c') \<Rightarrow> bindA (write_config tm p c') (\<lambda>_. retA a))" for c
    by (auto simp: decide_add_def forward_conflict_def bindA_ret dest!: find_key split: option.splits)
  then show ?thesis
    using assms
    by (simp only: add_persistent_forward_rule_def with_context_simps edit_config_def if_False)
      (rule ext, simp add: bindA_def liftA_def)
qed

lemma remove_rule_edit:
  "remove_persistent_forward_rule_inner tm p matches =
     edit_config tm p (\<lambda>c. Inr (retain_forwards matches c \<noteq> None, retain_forwards matches c))"
  by (rule ext) (auto simp: remove_persistent_forward_rule_inner_def edit_config_def bindA_def
      split: option.splits prod.splits sum.splits)



section \<open>Properties\<close>

text \<open>A configuration and a TOML library for the witnesses.\<close>

definition sample_config :: "rstr list \<Rightarrow> config" where
  "sample_config names = \<lparr>c_serve = Some \<lparr>serve_services = map (\<lambda>n. \<lparr>sv_name = n, sv_target = [56]\<rparr>) names\<rparr>,
     c_forward = None\<rparr>"

definition sample_forward :: forward_service where
  "sample_forward = \<lparr>fw_listen = [58], fw_remote = [97, 47, 116, 99, 112, 47, 119], fw_secs = 2\<rparr>"

definition sample_toml :: toml where
  "sample_toml = \<lparr>to_toml = (\<lambda>c. if c = sample_config [[119]] then Inr [65]
       else if c = sample_config [[120]] then Inr [66]
       else if c = push_forward sample_forward config_default then Inr [67]
       else if c = config_default then Inr [68] else Inl []),
     from_toml = (\<lambda>t. if t = [65] then Inr (sample_config [[119]])
       else if t = [66] then Inr (sample_config [[120]])
       else if t = [67] then Inr (push_forward sample_forward config_default)
       else if t = [68] then Inr config_default else Inl [])\<rparr>"

definition sample_fs :: fs where
  "sample_fs = \<lparr>files = (\<lambda>_. None), dirs = (\<lambda>_. False), locked = (\<lambda>_. False), turns = [], hist = [],
     pid = 7, temp_counter = 0\<rparr>"

lemma sample_toml_ok: "toml_ok sample_toml"
  by (auto simp: toml_ok_def sample_toml_def scalar_def sample_config_def push_forward_def config_default_def)

lemmas write_config_eval = write_config_with_def write_config_atomic_def write_temp_def replace_file_def
  ctx_def sample_fs_def create_dir_all_def create_new_def write_all_def sync_file_def rename_def
  fs_op_def take_turn_def bindA_def mapErrA_def attemptA_def liftA_def retA_def temp_config_path_def
  with_file_name_def path_parent_def path_file_name_def append_to_def log_state_def Let_def

lemma sample_run:
  "to_toml tm c = Inr raw \<Longrightarrow> fst (write_config tm [[99]] c sample_fs) = Inr ()"
  by (simp add: write_config_eval)

text \<open>C4. Writing the configuration is atomic: whatever calls fail, and at every moment at
  which the process may be killed, the file is either what it was before or the complete
  new configuration; after a success it is the new one, after an error the old one. (Other
  processes are assumed not to write in the directory.)\<close>

theorem write_config_atomically:
  assumes "p \<noteq> []" and "quiet (\<lambda>q. butlast q = butlast p) s" and "to_toml tm c = Inr raw"
    and "write_config tm p c s = (r, t)"
  shows "(\<exists>h. hist t = hist s @ h \<and>
      list_all (\<lambda>m. m p = files s p \<or> m p = fresh_file (utf8 raw)) h) \<and>
    files t p = (if is_ok r then fresh_file (utf8 raw) else files s p)"
proof -
  have inv: "cfg_inv p (hist s) (files s p) (fresh_file (utf8 raw)) s"
    using assms(2) by (simp add: cfg_inv_def)
  note w = cfg_write_config [OF assms(1), where raw = raw and tm = tm and c = c]
  show ?thesis
  proof (cases r)
    case (Inl e)
    with hoareD_err [OF w inv] assms(3,4) show ?thesis
      by (simp add: cfg_inv_def seen_def old_or_new_def [abs_def])
  next
    case (Inr u)
    with hoareD_ok [OF w inv] assms(3,4) show ?thesis
      by (simp add: cfg_done_def seen_def old_or_new_def [abs_def])
  qed
qed

theorem write_config_atomically_witness:
  "files (snd (write_config sample_toml [[99]] (sample_config [[119]]) sample_fs)) [[99]] =
     Some \<lparr>content = utf8 [65], fmode = 438\<rparr>"
proof -
  have tm: "to_toml sample_toml (sample_config [[119]]) = Inr [65]" by (simp add: sample_toml_def)
  have "quiet (\<lambda>q. butlast q = butlast [[99]]) sample_fs" by (simp add: quiet_def sample_fs_def)
  from write_config_atomically [OF _ this tm surjective_pairing] sample_run [OF tm]
  show ?thesis by (simp add: fresh_file_def)
qed

lemma add_serve_rule_result:
  assumes "toml_ok tm" and "p \<noteq> []" and "quiet (\<lambda>q. butlast q = butlast p) s"
    and "take_turn s = (None, s1)" and "add_persistent_serve_rule tm p name tgt s = (r, t)"
  shows "if is_ok r then
      valid_service name \<and> trim tgt \<noteq> [] \<and>
      (\<exists>c c'. on_disk tm p s = Some c \<and> on_disk tm p t = Some c' \<and> c_forward c' = c_forward c \<and>
        find (\<lambda>e. sv_name e = name) (serve_entries c') = Some \<lparr>sv_name = name, sv_target = tgt\<rparr> \<and>
        serve_entries c' = (if name \<in> sv_name ` set (serve_entries c) then serve_entries c
          else serve_entries c @ [\<lparr>sv_name = name, sv_target = tgt\<rparr>]))
    else files t p = files s p"
proof (cases "valid_service name \<and> trim tgt \<noteq> []")
  case True
  then have "edited tm p (decide_add serve_entries push_serve sv_name (serve_conflict p)
      \<lparr>sv_name = name, sv_target = tgt\<rparr>) s r t"
    using edit_config_spec [OF assms(1-4)] assms(5) by (simp add: add_serve_rule_edit)
  with serve_rules.edited_add [of tm p "serve_conflict p" "\<lparr>sv_name = name, sv_target = tgt\<rparr>" s _ t] True
  show ?thesis by (cases r) (fastforce simp: edited_def)+
next
  case False
  have "\<not> is_ok r \<and> t = s"
  proof (cases "valid_service name")
    case True
    then have "validate_service_name name = Inr ()" by simp
    with False True assms(5) show ?thesis
      by (auto simp: add_persistent_serve_rule_def bindA_def liftA_def failA_def simp del: validate_ok)
  next
    case False
    then obtain e where "validate_service_name name = Inl e"
      using validate_ok by (cases "validate_service_name name") auto
    with assms(5) show ?thesis
      by (auto simp: add_persistent_serve_rule_def bindA_def liftA_def)
  qed
  then show ?thesis by auto
qed

text \<open>C25. A persistent serve rule that is reported as added is in the file: the name is valid,
  its target not blank, the configuration read back has exactly the old rules and, if the
  name was new, the rule at the end; an existing rule with the same target leaves the file
  untouched, and after an error the file is untouched too.\<close>

theorem add_serve_rule_persists:
  assumes "toml_ok tm" and "p \<noteq> []" and "quiet (\<lambda>q. butlast q = butlast p) s"
    and "take_turn s = (None, s1)" and "add_persistent_serve_rule tm p name tgt s = (r, t)"
  shows "if is_ok r then
      valid_service name \<and> trim tgt \<noteq> [] \<and>
      (\<exists>c c'. on_disk tm p s = Some c \<and> on_disk tm p t = Some c' \<and> c_forward c' = c_forward c \<and>
        find (\<lambda>e. sv_name e = name) (serve_entries c') = Some \<lparr>sv_name = name, sv_target = tgt\<rparr> \<and>
        serve_entries c' = (if name \<in> sv_name ` set (serve_entries c) then serve_entries c
          else serve_entries c @ [\<lparr>sv_name = name, sv_target = tgt\<rparr>]))
    else files t p = files s p"
  using add_serve_rule_result [OF assms] .

lemma sample_load:
  "load_config_or_default tm [[99]] sample_fs = (Inr config_default, log_state sample_fs)"
  by (simp add: load_config_or_default_def bindA_def retA_def path_exists_def fs_op_def take_turn_def
      sample_fs_def)

lemma sample_add_ok:
  "is_ok (fst (add_persistent_serve_rule sample_toml [[99]] [119] [56] sample_fs))"
proof -
  have v: "valid_service [119]" "trim [56] \<noteq> []" by (simp_all add: service_eval trim_def)
  have push: "push_serve \<lparr>sv_name = [119], sv_target = [56]\<rparr> config_default = sample_config [[119]]"
    by (simp add: push_serve_def serve_entries_def sample_config_def config_default_def)
  have tm: "to_toml sample_toml (sample_config [[119]]) = Inr [65]" by (simp add: sample_toml_def)
  have "fst (write_config sample_toml [[99]] (sample_config [[119]]) (log_state sample_fs)) = Inr ()"
    using tm by (simp add: write_config_eval)
  then obtain u where "write_config sample_toml [[99]] (sample_config [[119]]) (log_state sample_fs) = (Inr (), u)"
    by (metis eq_fst_iff)
  then show ?thesis
    using v by (simp add: add_serve_rule_edit edit_config_def bindA_def sample_load decide_add_def
        serve_rules.entries_default push retA_def split: prod.splits sum.splits)
qed

theorem add_serve_rule_persists_witness:
  "\<exists>c'. on_disk sample_toml [[99]]
       (snd (add_persistent_serve_rule sample_toml [[99]] [119] [56] sample_fs)) = Some c' \<and>
     serve_entries c' = [\<lparr>sv_name = [119], sv_target = [56]\<rparr>]"
proof -
  let ?res = "add_persistent_serve_rule sample_toml [[99]] [119] [56] sample_fs"
  note ok = sample_add_ok
  have q: "quiet (\<lambda>q. butlast q = butlast [[99]]) sample_fs" by (simp add: quiet_def sample_fs_def)
  have turn: "take_turn sample_fs = (None, sample_fs)" by (simp add: take_turn_def sample_fs_def)
  have "on_disk sample_toml [[99]] sample_fs = Some config_default"
    by (simp add: on_disk_def sample_fs_def)
  with add_serve_rule_persists [OF sample_toml_ok _ q turn surjective_pairing, of "[119]" "[56]"] ok
  show ?thesis by (auto simp: serve_rules.entries_default)
qed

lemma add_forward_rule_result:
  assumes "toml_ok tm" and "p \<noteq> []" and "quiet (\<lambda>q. butlast q = butlast p) s"
    and "take_turn s = (None, s1)"
    and "add_persistent_forward_rule parse_id tm p listen remote secs s = (r, t)"
  shows "if is_ok r then
      trim listen \<noteq> [] \<and> is_ok (remote_from_str parse_id remote) \<and>
      (\<exists>c c'. on_disk tm p s = Some c \<and> on_disk tm p t = Some c' \<and> c_serve c' = c_serve c \<and>
        find (\<lambda>e. fw_listen e = listen) (forward_entries c') =
          Some \<lparr>fw_listen = listen, fw_remote = remote, fw_secs = secs\<rparr> \<and>
        forward_entries c' = (if listen \<in> fw_listen ` set (forward_entries c) then forward_entries c
          else forward_entries c @ [\<lparr>fw_listen = listen, fw_remote = remote, fw_secs = secs\<rparr>]))
    else files t p = files s p"
proof (cases "trim listen \<noteq> [] \<and> is_ok (remote_from_str parse_id remote)")
  case True
  then obtain rp where rp: "remote_from_str parse_id remote = Inr rp" by (auto simp: is_ok_iff)
  with True have "edited tm p (decide_add forward_entries push_forward fw_listen (forward_conflict p)
      \<lparr>fw_listen = listen, fw_remote = remote, fw_secs = secs\<rparr>) s r t"
    using edit_config_spec [OF assms(1-4)] assms(5) by (simp add: add_forward_rule_edit [OF _ rp])
  with forward_rules.edited_add [of tm p "forward_conflict p"
      "\<lparr>fw_listen = listen, fw_remote = remote, fw_secs = secs\<rparr>" s _ t] True
  show ?thesis by (cases r) (fastforce simp: edited_def)+
next
  case False
  then have "\<not> is_ok r \<and> t = s"
    using assms(5)
    by (cases "remote_from_str parse_id remote")
      (auto simp: add_persistent_forward_rule_def bindA_def liftA_def failA_def split: if_splits)
  then show ?thesis by auto
qed

text \<open>The same for a persistent forward rule, whose address must not be blank and whose
  remote path must parse: an existing rule is kept only when remote and timeout agree.\<close>

theorem add_forward_rule_persists:
  assumes "toml_ok tm" and "p \<noteq> []" and "quiet (\<lambda>q. butlast q = butlast p) s"
    and "take_turn s = (None, s1)"
    and "add_persistent_forward_rule parse_id tm p listen remote secs s = (r, t)"
  shows "if is_ok r then
      trim listen \<noteq> [] \<and> is_ok (remote_from_str parse_id remote) \<and>
      (\<exists>c c'. on_disk tm p s = Some c \<and> on_disk tm p t = Some c' \<and> c_serve c' = c_serve c \<and>
        find (\<lambda>e. fw_listen e = listen) (forward_entries c') =
          Some \<lparr>fw_listen = listen, fw_remote = remote, fw_secs = secs\<rparr> \<and>
        forward_entries c' = (if listen \<in> fw_listen ` set (forward_entries c) then forward_entries c
          else forward_entries c @ [\<lparr>fw_listen = listen, fw_remote = remote, fw_secs = secs\<rparr>]))
    else files t p = files s p"
  using add_forward_rule_result [OF assms] .


theorem add_forward_rule_persists_witness:
  "\<exists>c'. on_disk sample_toml [[99]]
       (snd (add_persistent_forward_rule (\<lambda>e. Inr e) sample_toml [[99]] [58] [97, 47, 116, 99, 112, 47, 119] 2 sample_fs))
       = Some c' \<and> forward_entries c' = [sample_forward]"
proof -
  let ?res = "add_persistent_forward_rule (\<lambda>e. Inr e) sample_toml [[99]] [58] [97, 47, 116, 99, 112, 47, 119] 2 sample_fs"
  have rp: "remote_from_str (\<lambda>e. Inr e) [97, 47, 116, 99, 112, 47, 119] = Inr \<lparr>endpoint_id = [97], service = [119]\<rparr>"
  proof -
    have "validate_service_name [119] = Inr ()" by (simp add: service_eval)
    then show ?thesis by (simp add: remote_from_str_def slash_def del: validate_ok)
  qed
  have l: "trim [58] \<noteq> []" by (simp add: trim_def text_eval)
  have tm: "to_toml sample_toml (push_forward sample_forward config_default) = Inr [67]"
    by (simp add: sample_toml_def sample_config_def push_forward_def config_default_def)
  have "fst (write_config sample_toml [[99]] (push_forward sample_forward config_default) (log_state sample_fs)) = Inr ()"
    using tm by (simp add: write_config_eval)
  then obtain u where "write_config sample_toml [[99]] (push_forward sample_forward config_default)
      (log_state sample_fs) = (Inr (), u)"
    by (metis eq_fst_iff)
  then have ok: "is_ok (fst ?res)"
    using l by (simp add: add_forward_rule_edit [OF _ rp] edit_config_def bindA_def sample_load decide_add_def
        forward_rules.entries_default sample_forward_def retA_def split: prod.splits sum.splits)
  have q: "quiet (\<lambda>q. butlast q = butlast [[99]]) sample_fs" by (simp add: quiet_def sample_fs_def)
  have turn: "take_turn sample_fs = (None, sample_fs)" by (simp add: take_turn_def sample_fs_def)
  have "on_disk sample_toml [[99]] sample_fs = Some config_default"
    by (simp add: on_disk_def sample_fs_def)
  with add_forward_rule_persists [OF sample_toml_ok _ q turn surjective_pairing,
      of "\<lambda>e. Inr e" "[58]" "[97, 47, 116, 99, 112, 47, 119]" 2] ok
  show ?thesis by (auto simp: forward_rules.entries_default sample_forward_def)
qed


lemma length_filter_same: "length (filter P xs) = length xs \<longleftrightarrow> list_all P xs"
proof (induction xs)
  case (Cons x xs)
  have "length (filter P xs) < Suc (length xs)" by (simp add: le_imp_less_Suc)
  with Cons show ?case by auto
qed simp

text \<open>What removing leaves: everything but the matching forwards.\<close>

lemma retain_spec:
  "retain_forwards matches c = Some c' \<Longrightarrow>
     forward_entries c' = filter (\<lambda>e. \<not> matches e) (forward_entries c) \<and> c_serve c' = c_serve c \<and>
     list_ex matches (forward_entries c)"
  by (auto simp: retain_forwards_def forward_entries_def Let_def list_ex_iff length_filter_same
      list_all_iff split: option.splits if_splits)

lemma retain_None: "retain_forwards matches c = None \<longleftrightarrow> \<not> list_ex matches (forward_entries c)"
  by (auto simp: retain_forwards_def forward_entries_def Let_def length_filter_same list_ex_iff
      list_all_iff split: option.splits)

lemma remove_forward_rule_result:
  assumes "toml_ok tm" and "p \<noteq> []" and "quiet (\<lambda>q. butlast q = butlast p) s"
    and "take_turn s = (None, s1)"
    and "remove_persistent_forward_rule_by_listen tm p listen s = (r, t)"
  shows "case r of
      Inl e \<Rightarrow> files t p = files s p
    | Inr removed \<Rightarrow> (\<exists>c. on_disk tm p s = Some c \<and>
        removed = (listen \<in> fw_listen ` set (forward_entries c)) \<and>
        (if removed then \<exists>c'. on_disk tm p t = Some c' \<and> c_serve c' = c_serve c \<and>
            forward_entries c' = filter (\<lambda>e. fw_listen e \<noteq> listen) (forward_entries c)
         else files t p = files s p))"
proof -
  let ?m = "\<lambda>e. fw_listen e = listen"
  have ed: "edited tm p (\<lambda>c. Inr (retain_forwards ?m c \<noteq> None, retain_forwards ?m c)) s r t"
    using edit_config_spec [OF assms(1-4)] assms(5)
    by (simp add: remove_persistent_forward_rule_by_listen_def remove_rule_edit)
  have mem: "list_ex ?m xs \<longleftrightarrow> listen \<in> fw_listen ` set xs" for xs
    by (auto simp: list_ex_iff)
  show ?thesis
  proof (cases r)
    case (Inr b)
    with ed obtain c where c: "on_disk tm p s = Some c" "b = (retain_forwards ?m c \<noteq> None)"
      "case retain_forwards ?m c of None \<Rightarrow> files t p = files s p | Some c' \<Rightarrow> on_disk tm p t = Some c'"
      by (auto simp: edited_def)
    then show ?thesis
      using retain_spec [of ?m c] Inr
      by (cases "retain_forwards ?m c") (auto simp: retain_None mem [symmetric])
  qed (use ed in \<open>simp add: edited_def\<close>)
qed

text \<open>Removing a persistent forward reports whether a rule matched; if one did, the
  configuration read back has lost exactly the matching forwards and nothing else (an
  emptied section included), and if none did, or after an error, the file is untouched.\<close>

theorem remove_forward_rule_persists:
  assumes "toml_ok tm" and "p \<noteq> []" and "quiet (\<lambda>q. butlast q = butlast p) s"
    and "take_turn s = (None, s1)"
    and "remove_persistent_forward_rule_by_listen tm p listen s = (r, t)"
  shows "case r of
      Inl e \<Rightarrow> files t p = files s p
    | Inr removed \<Rightarrow> (\<exists>c. on_disk tm p s = Some c \<and>
        removed = (listen \<in> fw_listen ` set (forward_entries c)) \<and>
        (if removed then \<exists>c'. on_disk tm p t = Some c' \<and> c_serve c' = c_serve c \<and>
            forward_entries c' = filter (\<lambda>e. fw_listen e \<noteq> listen) (forward_entries c)
         else files t p = files s p))"
  using remove_forward_rule_result [OF assms] .

definition sample_fwd_fs :: fs where
  "sample_fwd_fs = sample_fs\<lparr>files := (\<lambda>q. if q = [[99]] then fresh_file (utf8 [67]) else None)\<rparr>"

lemma sample_fwd_disk:
  "quiet (\<lambda>q. butlast q = butlast [[99]]) sample_fwd_fs" "take_turn sample_fwd_fs = (None, sample_fwd_fs)"
  "on_disk sample_toml [[99]] sample_fwd_fs = Some (push_forward sample_forward config_default)"
proof -
  show "on_disk sample_toml [[99]] sample_fwd_fs = Some (push_forward sample_forward config_default)"
    by (rule on_disk_fresh [OF sample_toml_ok, where raw = "[67]"])
      (simp_all add: sample_fwd_fs_def sample_toml_def sample_config_def push_forward_def config_default_def)
qed (simp_all add: quiet_def take_turn_def sample_fwd_fs_def sample_fs_def)

lemma sample_fwd_load:
  "load_config_or_default sample_toml [[99]] sample_fwd_fs =
     (Inr (push_forward sample_forward config_default), log_state (log_state sample_fwd_fs))"
proof -
  have "from_toml sample_toml [67] = Inr (push_forward sample_forward config_default)"
    by (simp add: sample_toml_def)
  then show ?thesis
    by (simp add: load_config_or_default_def load_config_def read_to_string_def path_exists_def
        bindA_def ctx_def mapErrA_def liftA_def fs_op_def take_turn_def sample_fwd_fs_def sample_fs_def
        fresh_file_def log_state_def scalar_def)
qed

theorem remove_forward_rule_persists_witness:
  "\<exists>c'. on_disk sample_toml [[99]]
       (snd (remove_persistent_forward_rule_by_listen sample_toml [[99]] [58] sample_fwd_fs)) = Some c' \<and>
     forward_entries c' = []"
proof -
  let ?res = "remove_persistent_forward_rule_by_listen sample_toml [[99]] [58] sample_fwd_fs"
  let ?c = "push_forward sample_forward config_default"
  let ?s1 = "log_state (log_state sample_fwd_fs)"
  have rt: "retain_forwards (\<lambda>e. fw_listen e = [58]) ?c = Some config_default"
    by (simp add: retain_forwards_def push_forward_def forward_entries_def sample_forward_def config_default_def)
  have tm: "to_toml sample_toml config_default = Inr [68]"
    by (simp add: sample_toml_def sample_config_def push_forward_def config_default_def)
  have "fst (write_config sample_toml [[99]] config_default ?s1) = Inr ()"
    using tm by (simp add: write_config_eval sample_fwd_fs_def)
  then obtain u where "write_config sample_toml [[99]] config_default ?s1 = (Inr (), u)"
    by (metis eq_fst_iff)
  then have ok: "fst ?res = Inr True"
    by (simp add: remove_persistent_forward_rule_by_listen_def remove_rule_edit edit_config_def bindA_def
        sample_fwd_load rt retA_def)
  from remove_forward_rule_persists [OF sample_toml_ok _ sample_fwd_disk(1,2) surjective_pairing, of "[58]"] sample_fwd_disk(3) ok
  show ?thesis
    by (auto simp: push_forward_def forward_entries_def config_default_def sample_forward_def)
qed

definition sample_old :: fs where
  "sample_old = sample_fs\<lparr>files := (\<lambda>q. if q = [[99]] then fresh_file (utf8 [66]) else None)\<rparr>"

text \<open>The Windows variant of the replacement is not atomic: it removes the old file before
  it renames the new one over it, so a process killed in between leaves no configuration
  at all, and a rename that fails there reports an error after the old file is gone.\<close>

theorem windows_replace_not_atomic:
  assumes "files s from = Some f" "files s to = Some g" "from \<noteq> to" "\<not> dirs s to"
  shows "(\<exists>m. m to = None \<and> m \<in> set (hist (snd (replace_file_windows from to (s\<lparr>turns := []\<rparr>))))) \<and>
    fst (replace_file_windows from to (s\<lparr>turns := []\<rparr>)) = Inr () \<and>
    (let r = replace_file_windows from to (s\<lparr>turns := [Turn [] None, Turn [] None, Turn [] (Some (e, n))]\<rparr>)
     in \<not> is_ok (fst r) \<and> files (snd r) to = None)"
  using assms
  by (simp add: replace_file_windows_def bindA_def mapErrA_def retA_def ctx_def path_exists_def
      remove_file_def rename_def fs_op_def take_turn_def log_state_def no_effect_def apply_others_def)
    (rule exI [of _ "(files s)(to := None)"], simp)

theorem windows_replace_not_atomic_witness:
  "files (snd (replace_file_windows [[98]] [[99]] (sample_old\<lparr>files := (files sample_old)([[98]] := fresh_file []),
     turns := [Turn [] None, Turn [] None, Turn [] (Some (IoError PermissionDenied [], 0))]\<rparr>))) [[99]] = None"
  using windows_replace_not_atomic [of "sample_old\<lparr>files := (files sample_old)([[98]] := fresh_file [])\<rparr>"
      "[[98]]" _ "[[99]]" _ "IoError PermissionDenied []" 0]
  by (simp add: sample_old_def fresh_file_def sample_fs_def Let_def)

text \<open>When writing succeeds: no other process and no fault, no file where a directory of the path
  should be, and a free name for the temporary file.\<close>

definition temp_name :: "path \<Rightarrow> fs \<Rightarrow> path" where
  "temp_name p s = with_file_name (lit ''.'' @ last p @ lit ''.'' @ show_nat (pid s) @ lit ''.'' @
     show_nat (unat (temp_counter s)) @ lit ''.tmp'') p"

definition writable :: "path \<Rightarrow> fs \<Rightarrow> bool" where
  "writable p s \<longleftrightarrow> turns s = [] \<and> \<not> dirs s p \<and> (\<forall>n<length p. files s (take n p) = None) \<and>
     files s (temp_name p s) = None \<and> \<not> dirs s (temp_name p s)"

lemma quiet_op: "turns s = [] \<Longrightarrow> fs_op body partial s = (fst (body s), log_state (snd (body s)))"
  by (simp add: fs_op_def take_turn_def split: prod.splits)

lemma write_temp_quiet:
  assumes "turns s = []" "files s q = None" "\<not> dirs s q" "\<not> dirs s p"
  shows "\<exists>t. write_temp replace_file q p bs s = (Inr (), t)"
proof -
  obtain a where a: "create_new 438 q s = (Inr (), a)" "turns a = []" "files a q = Some \<lparr>content = [], fmode = 438\<rparr>"
    "\<not> dirs a p" using assms by (auto simp: create_new_def quiet_op)
  obtain b where b: "write_all q bs a = (Inr (), b)" "turns b = []" "files b q \<noteq> None" "\<not> dirs b p"
    using a by (auto simp: write_all_def quiet_op)
  obtain c where c: "sync_file q b = (Inr (), c)" "turns c = []" "files c q \<noteq> None" "\<not> dirs c p"
    using b by (auto simp: sync_file_def quiet_op)
  obtain d where "rename q p c = (Inr (), d)" using c by (auto simp: rename_def quiet_op)
  with a(1) b(1) c(1) show ?thesis
    by (simp add: write_temp_def replace_file_def bindA_def ctx_def mapErrA_def)
qed

lemma write_config_succeeds:
  assumes "p \<noteq> []" and "writable p s" and "to_toml tm c = Inr raw"
  shows "fst (write_config tm p c s) = Inr ()"
proof -
  have dir: "files s (take n (butlast p)) = None" if "n \<le> length (butlast p)" for n
  proof -
    have "n < length p" using that length_butlast [of p] assms(1) by (cases p) (auto simp del: butlast.simps)
    moreover from this have "take n (butlast p) = take n p" by (rule take_butlast)
    ultimately show ?thesis using assms(2) by (simp add: writable_def)
  qed
  let ?q = "temp_name p s"
  have quiet: "turns s = []" and clear: "\<not> dirs s p" "files s ?q = None" "\<not> dirs s ?q"
    using assms(2) unfolding writable_def by blast+
  have len: "length p = Suc (length (butlast p))" "length ?q = Suc (length (butlast p))"
    using assms(1) by (simp_all add: temp_name_def with_file_name_def)
  have not_dir: "p \<noteq> take n (butlast p)" "?q \<noteq> take n (butlast p)" for n
  proof -
    have short: "length (take n (butlast p)) \<le> length (butlast p)" by (simp only: length_take)
    show "p \<noteq> take n (butlast p)" using short len(1) by (metis Suc_n_not_le_n)
    show "?q \<noteq> take n (butlast p)" using short len(2) by (metis Suc_n_not_le_n)
  qed
  obtain a where a: "create_dir_all (butlast p) s = (Inr (), a)" "turns a = []" "files a = files s"
    "pid a = pid s" "temp_counter a = temp_counter s" "\<not> dirs a p" "\<not> dirs a ?q"
  proof
    let ?a = "log_state (s\<lparr>dirs := (\<lambda>q. dirs s q \<or> (\<exists>n\<le>length (butlast p). q = take n (butlast p)))\<rparr>)"
    have free: "(\<exists>n\<le>length (butlast p). files s (take n (butlast p)) \<noteq> None) = False" by (metis dir)
    show "create_dir_all (butlast p) s = (Inr (), ?a)"
      unfolding create_dir_all_def quiet_op [OF quiet] free if_False fst_conv snd_conv by (rule refl)
    have dirs: "dirs ?a = (\<lambda>q. dirs s q \<or> (\<exists>n\<le>length (butlast p). q = take n (butlast p)))"
      by (simp only: log_state_simps) (cases s, simp only: fs.update_convs fs.select_convs)
    show "\<not> dirs ?a p" "\<not> dirs ?a ?q" unfolding dirs using clear not_dir by blast+
  qed (simp_all only: log_state_simps, (cases s, use quiet in \<open>simp only: fs.update_convs fs.select_convs\<close>)+)
  let ?b = "a\<lparr>temp_counter := temp_counter a + 1\<rparr>"
  have temp: "temp_config_path p a = (Inr ?q :: error + path, ?b)"
    using a(4,5) assms(1) by (simp add: temp_config_path_def Let_def path_file_name_def temp_name_def del: lit_simps)
  have "files ?b ?q = None" using a(3) clear(2) by simp
  then obtain u where "write_temp replace_file ?q p (utf8 raw) ?b = (Inr (), u)"
    using write_temp_quiet [of ?b ?q p "utf8 raw"] a(2,6,7) by auto
  then have "write_config_atomic replace_file p (utf8 raw) a = (Inr (), u)"
    by (simp add: write_config_atomic_def bindA_def temp attemptA_def retA_def liftA_def)
  then show ?thesis
    using a(1) assms(1,3)
    by (simp add: write_config_with_def bindA_def ctx_def mapErrA_def path_parent_def liftA_def)
qed

lemma exists_error_load:
  "take_turn s = (Some fl, s1) \<Longrightarrow> load_config_or_default tm p s = (Inr config_default, log_state s1)"
  by (cases fl) (simp add: load_config_or_default_def bindA_def retA_def path_exists_def fs_op_def no_effect_def)

lemma exists_error_add:
  assumes "take_turn s = (Some fl, s1)" and "valid_service name" and "trim tgt \<noteq> []"
  shows "add_persistent_serve_rule tm p name tgt s =
    write_config tm p (push_serve \<lparr>sv_name = name, sv_target = tgt\<rparr> config_default) (log_state s1)"
  using assms
  by (auto simp: add_serve_rule_edit edit_config_def bindA_def exists_error_load decide_add_def
      serve_rules.entries_default retA_def split: prod.splits sum.splits)

text \<open>C33. The check that the configuration exists takes any error for absence: when it is hit by
  an error, adding a serve rule starts from the empty configuration. Whatever the file held,
  and whatever happens after the check, a call that then succeeds has left a configuration with
  the new rule alone, so that every other serve rule and every forward rule of the file is
  lost; and the call does succeed when nothing else goes wrong.\<close>

theorem exists_error_loses_rules:
  assumes "toml_ok tm" and "p \<noteq> []" and "quiet (\<lambda>q. butlast q = butlast p) s"
    and "take_turn s = (Some fl, s1)" and "on_disk tm p s = Some c"
    and "valid_service name" and "trim tgt \<noteq> []"
    and "add_persistent_serve_rule tm p name tgt s = (r, t)"
  shows "(is_ok r \<longrightarrow> (\<exists>c'. on_disk tm p t = Some c' \<and> serve_entries c' = [\<lparr>sv_name = name, sv_target = tgt\<rparr>] \<and>
       forward_entries c' = [] \<and> (\<forall>e\<in>set (serve_entries c). sv_name e \<noteq> name \<longrightarrow> e \<notin> set (serve_entries c')))) \<and>
    (writable p s1 \<and> is_ok (to_toml tm (push_serve \<lparr>sv_name = name, sv_target = tgt\<rparr> config_default)) \<longrightarrow>
       r = Inr ())"
proof -
  let ?c = "push_serve \<lparr>sv_name = name, sv_target = tgt\<rparr> config_default"
  have run: "write_config tm p ?c (log_state s1) = (r, t)"
    using exists_error_add [OF assms(4,6,7)] assms(8) by simp
  have "quiet (\<lambda>q. butlast q = butlast p) (log_state s1)" using take_turn_quiet(1) [OF assms(4,3)] by simp
  note spec = write_config_spec(1) [OF assms(1,2) this]
  have c: "serve_entries ?c = [\<lparr>sv_name = name, sv_target = tgt\<rparr>]" "forward_entries ?c = []"
    by (simp_all add: push_serve_def serve_entries_def forward_entries_def config_default_def)
  have "on_disk tm p t = Some ?c" if "is_ok r" using spec run that by (auto simp: is_ok_iff)
  moreover have "r = Inr ()" if w: "writable p s1" and tm: "is_ok (to_toml tm ?c)"
  proof -
    have wr: "writable p (log_state s1)" using w by (simp add: writable_def temp_name_def)
    obtain raw where "to_toml tm ?c = Inr raw" using tm by (auto simp: is_ok_iff)
    from write_config_succeeds [OF assms(2) wr this] run show ?thesis by simp
  qed
  ultimately show ?thesis using c by (intro conjI impI exI [of _ ?c]) auto
qed

theorem exists_error_loses_rules_witness:
  "(let s = sample_old\<lparr>turns := [Turn [] (Some (IoError OtherIo [], 0))]\<rparr>;
        t = snd (add_persistent_serve_rule sample_toml [[99]] [119] [56] s)
    in on_disk sample_toml [[99]] s = Some (sample_config [[120]]) \<and>
       (\<exists>c'. on_disk sample_toml [[99]] t = Some c' \<and> serve_entries c' = [\<lparr>sv_name = [119], sv_target = [56]\<rparr>]))"
proof -
  let ?s = "sample_old\<lparr>turns := [Turn [] (Some (IoError OtherIo [], 0))]\<rparr>"
  have v: "valid_service [119]" "trim [56] \<noteq> []" by (simp_all add: service_eval trim_def)
  have turn: "take_turn ?s = (Some (IoError OtherIo [], 0), sample_old)"
    by (simp add: take_turn_def apply_others_def sample_old_def sample_fs_def)
  have q: "quiet (\<lambda>q. butlast q = butlast [[99]]) ?s" by (simp add: quiet_def quiet_turn_def)
  have disk: "on_disk sample_toml [[99]] ?s = Some (sample_config [[120]])"
    by (rule on_disk_fresh [OF sample_toml_ok, where raw = "[66]"])
      (simp_all add: sample_old_def sample_toml_def sample_config_def)
  have push: "push_serve \<lparr>sv_name = [119], sv_target = [56]\<rparr> config_default = sample_config [[119]]"
    by (simp add: push_serve_def serve_entries_def sample_config_def config_default_def)
  have ok: "is_ok (to_toml sample_toml (push_serve \<lparr>sv_name = [119], sv_target = [56]\<rparr> config_default))"
    by (simp add: push sample_toml_def)
  have wr: "writable [[99]] sample_old"
    by (auto simp: writable_def sample_old_def sample_fs_def temp_name_def with_file_name_def
        dest: arg_cong [where f = length])
  obtain r t where run: "add_persistent_serve_rule sample_toml [[99]] [119] [56] ?s = (r, t)" by fastforce
  note lost = exists_error_loses_rules [OF sample_toml_ok _ q turn disk v run]
  with wr ok have "r = Inr ()" by simp
  with lost run disk show ?thesis by auto
qed

end
