(* ===== verification/Server_Daemon.thy ===== *)
theory Server_Daemon
  imports Proxy_Service Config_File Endpoint
begin

text \<open>
  The server process (\<open>run_server\<close> of \<open>src/daemon/mod.rs\<close>): it installs the routes and forwards
  of the configuration, starts the control plane and waits for the endpoint to close or for
  a signal. The answers of the outside (endpoint, binds, control plane, the event that ends
  the wait) are the record \<open>server_env\<close>.
\<close>

section \<open>Definitions\<close>

datatype exit_cause = AcceptLoopEnded | AcceptLoopFailed rstr | ShutdownSignal

text \<open>When the signal to stop arrives, if ever. On unix a handler that cannot be installed means
  waiting forever; elsewhere an error of the Ctrl-C handler ends the wait at once.\<close>

definition earliest :: "nat option \<Rightarrow> nat option \<Rightarrow> nat option" where
  "earliest a b =
     (case a of None \<Rightarrow> b | Some x \<Rightarrow> (case b of None \<Rightarrow> a | Some y \<Rightarrow> Some (min x y)))"

definition shutdown_signal ::
  "bool \<Rightarrow> io_error + nat option \<Rightarrow> io_error + nat option \<Rightarrow> io_error + nat option \<Rightarrow> nat option" where
  "shutdown_signal unix sigterm sigint ctrl_c =
     (if unix then
        (case sigterm of
           Inl _ \<Rightarrow> None
         | Inr term_at \<Rightarrow>
             (case sigint of
                Inl _ \<Rightarrow> None
              | Inr int_at \<Rightarrow> earliest term_at int_at))
      else (case ctrl_c of Inl _ \<Rightarrow> Some 0 | Inr c \<Rightarrow> c))"

record 'i server_env =
  se_bind_endpoint :: "lookup list \<Rightarrow> error + 'i"
  se_online :: "'i \<Rightarrow> nat option"
  se_parse_id :: "rstr \<Rightarrow> rstr + 'i"
  se_bind :: "rstr \<Rightarrow> io_error + unit"
  se_control :: "error + unit"
  se_exit :: exit_cause

fun start_routes :: "serve_service list \<Rightarrow> (routes, error, unit) act" where
  "start_routes [] rs = (Inr (), rs)"
| "start_routes (sv # svs) rs =
     (case add_serve_route (sv_name sv) (sv_target sv) rs of
        (Inl e, rs') \<Rightarrow> (Inl e, rs')
      | (Inr _, rs') \<Rightarrow> start_routes svs rs')"

fun start_forwards :: "'i server_env \<Rightarrow> forward_service list \<Rightarrow> ('i forwards_state, error, unit) act" where
  "start_forwards env [] s = (Inr (), s)"
| "start_forwards env (fw # fws) s =
     (case with_context (lit ''invalid remote path '' @ quoted (fw_remote fw) @
          lit '' in persisted forward '' @ quoted (fw_listen fw)) (remote_from_str (se_parse_id env) (fw_remote fw)) of
        Inl e \<Rightarrow> (Inl e, s)
      | Inr rp \<Rightarrow>
          (case add_forward_binding (se_bind env)
              \<lparr>fb_listen = fw_listen fw, fb_remote = rp, fb_timeout = from_secs (fw_secs fw)\<rparr> True s of
             (Inl e, s') \<Rightarrow> (Inl e, s')
           | (Inr _, s') \<Rightarrow> start_forwards env fws s'))"

text \<open>The result, the daemon if it came up, and whether the control socket was cleaned up.\<close>

record 'i server_run =
  sr_result :: "error + unit"
  sr_daemon :: "'i daemon option"
  sr_cleaned :: bool

definition startup_failed :: "error \<Rightarrow> 'i server_run" where
  "startup_failed e = \<lparr>sr_result = Inl e, sr_daemon = None, sr_cleaned = False\<rparr>"

definition run_server :: "'i server_env \<Rightarrow> serve_service list \<Rightarrow> forward_service list \<Rightarrow> bool \<Rightarrow> 'i server_run" where
  "run_server env services fwds mdns_enabled =
     (case fst (build_endpoint (se_bind_endpoint env) (se_online env) True mdns_enabled) of
        Inl e \<Rightarrow> startup_failed e
      | Inr eid \<Rightarrow>
     (case start_routes services hm_empty of
        (Inl e, _) \<Rightarrow> startup_failed e
      | (Inr _, rs) \<Rightarrow>
     (let d = sync_endpoint_alpns ((daemon_start eid)\<lparr>d_routes := rs\<rparr>) in
      case start_forwards env fwds (d_fwd d) of
        (Inl e, _) \<Rightarrow> startup_failed e
      | (Inr _, f) \<Rightarrow>
     (case se_control env of
        Inl e \<Rightarrow> startup_failed e
      | Inr _ \<Rightarrow>
          \<lparr>sr_result = (case se_exit env of
               ShutdownSignal \<Rightarrow> Inr ()
             | _ \<Rightarrow> Inl (anyhow (lit ''iroh endpoint closed; shutting down server''))),
           sr_daemon = Some (d\<lparr>d_fwd := f\<rparr>), sr_cleaned = True\<rparr>))))"


section \<open>Facts\<close>

lemma shutdown_signal_unix:
  "shutdown_signal True sigterm sigint ctrl_c = Some t \<longleftrightarrow>
     (\<exists>a b. sigterm = Inr a \<and> sigint = Inr b \<and> (a = Some t \<or> b = Some t) \<and>
        (\<forall>u. a = Some u \<or> b = Some u \<longrightarrow> t \<le> u))"
  by (auto simp: shutdown_signal_def earliest_def min_def split: sum.splits option.splits if_splits)

definition service_pairs :: "serve_service list \<Rightarrow> (rstr \<times> rstr) list" where
  "service_pairs svs = map (\<lambda>sv. (sv_name sv, sv_target sv)) svs"

lemma start_routes_ok:
  assumes "start_routes svs rs = (Inr (), rs')" and "routes_ok rs"
    and "list_all (\<lambda>sv. valid_str (sv_name sv)) svs"
  shows "routes_ok rs' \<and> distinct (map sv_name svs) \<and>
    (\<forall>sv\<in>set svs. served rs (sv_name sv) = None) \<and>
    (\<forall>n. valid_str n \<longrightarrow> served rs' n =
       (case map_of (service_pairs svs) n of Some tgt \<Rightarrow> Some tgt | None \<Rightarrow> served rs n))"
  using assms
proof (induction svs rs rule: start_routes.induct)
  case (1 rs)
  then show ?case by (simp add: service_pairs_def)
next
  case (2 sv svs rs)
  obtain u rs1 where add: "add_serve_route (sv_name sv) (sv_target sv) rs = (Inr u, rs1)"
    and rest: "start_routes svs rs1 = (Inr (), rs')"
    using 2(2) by (auto split: prod.splits sum.splits)
  have v: "valid_str (sv_name sv)" "list_all (\<lambda>sv. valid_str (sv_name sv)) svs" using 2(4) by auto
  have ok1: "routes_ok rs1" using add_serve_route_keeps [OF v(1) 2(3), of "sv_target sv"] add by simp
  have sv1: "served rs1 n = (if n = sv_name sv then Some (sv_target sv) else served rs n)" if "valid_str n" for n
    using served_add [OF add v(1) 2(3) that] .
  have fresh: "served rs (sv_name sv) = None" using add by (auto simp: add_serve_route_ok served_def)
  note IH = 2(1) [OF add [symmetric] refl rest ok1 v(2)]
  have other: "sv_name sv \<notin> sv_name ` set svs"
    using IH sv1 [OF v(1)] by auto
  have others: "served rs (sv_name x) = None" if "x \<in> set svs" for x
    using IH that sv1 [of "sv_name x"] other v(2) by (auto simp: list_all_iff split: if_splits)
  have new: "map_of (service_pairs svs) (sv_name sv) = None"
    using other by (auto simp: service_pairs_def map_of_eq_None_iff image_iff)
  show ?case using IH sv1 fresh others other new
    by (auto simp: service_pairs_def split: option.splits)
qed

lemma start_forwards_ok:
  assumes "start_forwards env fws s = (Inr (), s')" and "fwd_inv s"
  shows "fwd_inv s' \<and> distinct (map fw_listen fws) \<and>
    (\<forall>fw\<in>set fws. forwarded s (fw_listen fw) = None \<and>
       (\<exists>rp. remote_from_str (se_parse_id env) (fw_remote fw) = Inr rp \<and>
         forwarded s' (fw_listen fw) = Some (rp, True))) \<and>
    (\<forall>l. l \<notin> fw_listen ` set fws \<longrightarrow> forwarded s' l = forwarded s l)"
  using assms
proof (induction env fws s rule: start_forwards.induct)
  case (1 env s)
  then show ?case by simp
next
  case (2 env fw fws s)
  obtain rp where rp: "remote_from_str (se_parse_id env) (fw_remote fw) = Inr rp"
    using 2(2) by (cases "remote_from_str (se_parse_id env) (fw_remote fw)") auto
  let ?b = "\<lparr>fb_listen = fw_listen fw, fb_remote = rp, fb_timeout = from_secs (fw_secs fw)\<rparr>"
  obtain u s1 where add: "add_forward_binding (se_bind env) ?b True s = (Inr u, s1)"
    and rest: "start_forwards env fws s1 = (Inr (), s')"
    using 2(2) rp by (auto split: prod.splits sum.splits)
  have ok: "is_ok (fst (add_forward_binding (se_bind env) ?b True s))" using add by simp
  have fresh: "forwarded s (fw_listen fw) = None" using ok by (simp add: binding_ok)
  have f1: "forwarded s1 = (forwarded s)(fw_listen fw \<mapsto> (rp, True))"
    using binding_forwarded [OF 2(3) ok] add by simp
  have i1: "fwd_inv s1" using fwd_inv_add [OF 2(3), of "se_bind env" ?b True] add by simp
  have IH: "fwd_inv s' \<and> distinct (map fw_listen fws) \<and>
    (\<forall>fw\<in>set fws. forwarded s1 (fw_listen fw) = None \<and>
       (\<exists>rp. remote_from_str (se_parse_id env) (fw_remote fw) = Inr rp \<and>
         forwarded s' (fw_listen fw) = Some (rp, True))) \<and>
    (\<forall>l. l \<notin> fw_listen ` set fws \<longrightarrow> forwarded s' l = forwarded s1 l)"
    using 2(1) [OF _ add [symmetric] refl rest i1] rp by simp
  have other: "fw_listen fw \<notin> fw_listen ` set fws" using IH f1 by auto
  then have mine: "forwarded s' (fw_listen fw) = Some (rp, True)" using IH f1 by simp
  have others: "forwarded s (fw_listen x) = None" if "x \<in> set fws" for x
  proof -
    have "fw_listen x \<noteq> fw_listen fw" using that other by (metis imageI)
    moreover have "forwarded s1 (fw_listen x) = None" using IH that by blast
    ultimately show ?thesis by (simp add: f1)
  qed
  show ?case using IH f1 fresh other mine others rp by auto
qed



section \<open>Properties\<close>

lemma started_forwards:
  assumes "start_forwards env fwds (fwd_start :: 'i forwards_state) = (Inr (), f)"
  shows "forwarded f l =
      (case map_of (map (\<lambda>fw. (fw_listen fw, fw_remote fw)) fwds) l of
         None \<Rightarrow> None
       | Some raw \<Rightarrow> (case remote_from_str (se_parse_id env) raw of Inr rp \<Rightarrow> Some (rp, True) | Inl _ \<Rightarrow> None))"
proof -
  have "fwd_inv (fwd_start :: 'i forwards_state)" by (simp add: fwd_inv_def table_inv_start conns_inv_start)
  note F = start_forwards_ok [OF assms this]
  show ?thesis
  proof (cases "map_of (map (\<lambda>fw. (fw_listen fw, fw_remote fw)) fwds) l")
    case None
    then have "l \<notin> fw_listen ` set fwds" by (auto simp: map_of_eq_None_iff image_iff)
    with None F show ?thesis by (simp add: forwarded_def fwd_start_def)
  next
    case (Some raw)
    then obtain x where x: "x \<in> set fwds" "fw_listen x = l" "fw_remote x = raw"
      by (auto dest!: map_of_SomeD)
    then obtain rp where "remote_from_str (se_parse_id env) raw = Inr rp" "forwarded f l = Some (rp, True)"
      using F by blast
    with Some show ?thesis by simp
  qed
qed

lemma run_server_result:
  assumes "list_all (\<lambda>sv. valid_str (sv_name sv)) services"
  shows "case sr_daemon (run_server env services fwds mdns) of
      None \<Rightarrow> \<not> is_ok (sr_result (run_server env services fwds mdns))
    | Some d \<Rightarrow>
        daemon_ok d \<and> se_bind_endpoint env (endpoint_lookups True mdns) = Inr (ep_id d) \<and>
        sr_cleaned (run_server env services fwds mdns) \<and>
        is_ok (sr_result (run_server env services fwds mdns)) = (se_exit env = ShutdownSignal) \<and>
        distinct (map sv_name services) \<and> distinct (map fw_listen fwds) \<and>
        sp_serves (abs_daemon d) = (\<lambda>n. if valid_str n then map_of (service_pairs services) n else None) \<and>
        (\<forall>l. sp_forwards (abs_daemon d) l =
          (case map_of (map (\<lambda>fw. (fw_listen fw, fw_remote fw)) fwds) l of
             None \<Rightarrow> None
           | Some raw \<Rightarrow> (case remote_from_str (se_parse_id env) raw of
                Inr rp \<Rightarrow> Some (rp, True) | Inl _ \<Rightarrow> None)))"
proof (cases "sr_daemon (run_server env services fwds mdns)")
  case None
  then show ?thesis
    by (auto simp: run_server_def startup_failed_def Let_def split: sum.splits prod.splits)
next
  case (Some d)
  from Some obtain eid rs f where eid: "fst (build_endpoint (se_bind_endpoint env) (se_online env) True mdns) = Inr eid"
    and rs: "start_routes services hm_empty = (Inr (), rs)"
    and f: "start_forwards env fwds fwd_start = (Inr (), f)"
    and d: "d = (sync_endpoint_alpns ((daemon_start eid)\<lparr>d_routes := rs\<rparr>))\<lparr>d_fwd := f\<rparr>"
    and run: "sr_cleaned (run_server env services fwds mdns)"
      "sr_result (run_server env services fwds mdns) = (case se_exit env of
         ShutdownSignal \<Rightarrow> Inr () | _ \<Rightarrow> Inl (anyhow (lit ''iroh endpoint closed; shutting down server'')))"
    by (auto simp: run_server_def startup_failed_def Let_def daemon_start_def split: sum.splits prod.splits)
  have "fwd_inv (fwd_start :: 'a forwards_state)"
    by (simp add: fwd_inv_def table_inv_start conns_inv_start)
  note F = start_forwards_ok [OF f this]
  note R = start_routes_ok [OF rs routes_ok_empty assms]
  have empty: "served hm_empty n = None" for n by (simp add: served_def)
  have ok: "daemon_ok d" using F R by (simp add: d daemon_ok_def)
  have bound: "se_bind_endpoint env (endpoint_lookups True mdns) = Inr (ep_id d)"
    using eid by (simp add: build_endpoint_ok d daemon_start_def sync_endpoint_alpns_def)
  have sv: "sp_serves (abs_daemon d) = (\<lambda>n. if valid_str n then map_of (service_pairs services) n else None)"
    using R empty by (auto simp: d abs_daemon_def served_names_def fun_eq_iff split: option.splits)
  have fw: "forwarded f l =
      (case map_of (map (\<lambda>fw. (fw_listen fw, fw_remote fw)) fwds) l of
         None \<Rightarrow> None
       | Some raw \<Rightarrow> (case remote_from_str (se_parse_id env) raw of Inr rp \<Rightarrow> Some (rp, True) | Inl _ \<Rightarrow> None))" for l
    by (rule started_forwards [OF f])
  have "sp_forwards (abs_daemon d) = forwarded f" by (simp add: d abs_daemon_def)
  with Some ok bound sv fw F R run show ?thesis by (simp split: exit_cause.splits)
qed

text \<open>C9. A server that comes up serves exactly the services of its configuration, each once, at
  its target, and forwards exactly the configured addresses, as persisted, to their parsed
  remotes; the endpoint accepts exactly the configured ALPNs and was bound with the lookups of an
  endpoint that publishes itself. It removes its control socket
  when it ends, returns an error if the endpoint closed and success on a signal. A server
  whose start fails returns that error and never came up.\<close>

theorem run_server_spec:
  assumes "list_all (\<lambda>sv. valid_str (sv_name sv)) services"
  shows "case sr_daemon (run_server env services fwds mdns) of
      None \<Rightarrow> \<not> is_ok (sr_result (run_server env services fwds mdns))
    | Some d \<Rightarrow>
        daemon_ok d \<and> se_bind_endpoint env (endpoint_lookups True mdns) = Inr (ep_id d) \<and>
        sr_cleaned (run_server env services fwds mdns) \<and>
        is_ok (sr_result (run_server env services fwds mdns)) = (se_exit env = ShutdownSignal) \<and>
        distinct (map sv_name services) \<and> distinct (map fw_listen fwds) \<and>
        sp_serves (abs_daemon d) = (\<lambda>n. if valid_str n then map_of (service_pairs services) n else None) \<and>
        (\<forall>l. sp_forwards (abs_daemon d) l =
          (case map_of (map (\<lambda>fw. (fw_listen fw, fw_remote fw)) fwds) l of
             None \<Rightarrow> None
           | Some raw \<Rightarrow> (case remote_from_str (se_parse_id env) raw of
                Inr rp \<Rightarrow> Some (rp, True) | Inl _ \<Rightarrow> None)))"
  using assms by (rule run_server_result)

definition sample_server :: "rstr server_env" where
  "sample_server = \<lparr>se_bind_endpoint = (\<lambda>_. Inr [101]), se_online = (\<lambda>_. Some 0), se_parse_id = (\<lambda>s. Inr s), se_bind = (\<lambda>_. Inr ()),
     se_control = Inr (), se_exit = ShutdownSignal\<rparr>"

lemma sample_server_starts:
  "\<exists>d. sr_daemon (run_server sample_server [\<lparr>sv_name = [119], sv_target = [56]\<rparr>] [] True) = Some d"
proof -
  have "valid_service [119]" "trim [56] \<noteq> []" by (simp_all add: service_eval trim_def)
  then show ?thesis
    by (simp add: run_server_def sample_server_def build_endpoint_def add_serve_route_valid served_def Let_def)
qed

theorem run_server_spec_witness:
  "\<exists>d. sr_daemon (run_server sample_server [\<lparr>sv_name = [119], sv_target = [56]\<rparr>] [] True) = Some d \<and>
     sp_serves (abs_daemon d) [119] = Some [56] \<and>
     is_ok (sr_result (run_server sample_server [\<lparr>sv_name = [119], sv_target = [56]\<rparr>] [] True))"
proof -
  let ?sv = "\<lparr>sv_name = [119], sv_target = [56]\<rparr>"
  have names: "list_all (\<lambda>sv. valid_str (sv_name sv)) [?sv]" by (simp add: scalar_def)
  obtain d where d: "sr_daemon (run_server sample_server [?sv] [] True) = Some d"
    using sample_server_starts by blast
  with run_server_spec [OF names, of sample_server "[]" True] show ?thesis
    by (auto simp: service_pairs_def scalar_def sample_server_def)
qed

end
