(* ===== verification/Incoming.thy ===== *)
theory Incoming
  imports Diagnostics Conn_Registry
begin

text \<open>
  The handler of incoming connections (\<open>handle_incoming\<close> and \<open>proxy_to_route\<close> of
  \<open>src/daemon/routes.rs\<close>). What the network and the local target answer is the record
  \<open>incoming\<close>; the route table is the one of the moment it is read, which happens once. The
  outcome has the log records, the registry afterwards and the local targets dialled.
\<close>

section \<open>Definitions\<close>

record incoming =
  in_peer_addr :: rstr
  in_local_addr :: rstr
  in_result :: "connecting_error + connection"
  in_accept_bi :: "(rstr \<times> conn_error) + unit"
  in_connect :: "rstr \<Rightarrow> io_error + unit"
  in_pump :: "error + pump_stats"
  in_later :: connection
  in_age_ms :: nat
  in_closed :: conn_error

record incoming_outcome =
  oc_logs :: "log_record list"
  oc_registry :: registry
  oc_dialled :: "rstr list"

definition accept_failed :: "rstr \<Rightarrow> conn_error \<Rightarrow> incoming_failure" where
  "accept_failed t e = \<lparr>if_stage = AcceptStream,
     if_error = context_err (lit ''failed to accept first bidirectional iroh stream'') [Cause t (ConnKind e)]\<rparr>"

definition target_failed :: "rstr \<Rightarrow> io_error \<Rightarrow> incoming_failure" where
  "target_failed tgt e = \<lparr>if_stage = ConnectTarget,
     if_error = context_err (lit ''failed to connect local target '' @ tgt) (io_chain e)\<rparr>"

definition proxy_failed :: "error \<Rightarrow> incoming_failure" where
  "proxy_failed e = \<lparr>if_stage = ProxyStream,
     if_error = context_err (lit ''failed to proxy bidirectional stream'') e\<rparr>"

text \<open>The result of \<open>proxy_to_route\<close> with the targets it dialled.\<close>

definition proxy_to_route :: "incoming \<Rightarrow> route \<Rightarrow> (incoming_failure + pump_stats) \<times> rstr list" where
  "proxy_to_route inc r =
     (case in_accept_bi inc of
        Inl (t, e) \<Rightarrow> (Inl (accept_failed t e), [])
      | Inr _ \<Rightarrow>
          (case in_connect inc (target r) of
             Inl e \<Rightarrow> (Inl (target_failed (target r) e), [target r])
           | Inr _ \<Rightarrow> (map_err proxy_failed (in_pump inc), [target r])))"

definition log_unknown_service :: "log_env \<Rightarrow> connection \<Rightarrow> rstr \<Rightarrow> log_record" where
  "log_unknown_service env c available =
     Log LWarn
       [(lit ''stage'', lit ''route''), (lit ''connection_id'', show_nat (cn_stable_id c)),
        (lit ''peer'', cn_remote_id c), (lit ''alpn'', from_utf8_lossy env (cn_alpn c)),
        (lit ''available_services'', available)]
       (lit ''incoming connection negotiated an unknown service'')"

definition handle_incoming :: "log_env \<Rightarrow> incoming \<Rightarrow> routes \<Rightarrow> registry \<Rightarrow> incoming_outcome" where
  "handle_incoming env inc routes rg =
     (case in_result inc of
        Inl err \<Rightarrow>
          \<lparr>oc_logs = [log_handshake_failure env (in_peer_addr inc) (in_local_addr inc)
             (available_services routes) err], oc_registry = rg, oc_dialled = []\<rparr>
      | Inr c \<Rightarrow>
          (case hm_get routes (cn_alpn c) of
             None \<Rightarrow> \<lparr>oc_logs = [log_unknown_service env c (available_services routes)],
               oc_registry = rg, oc_dialled = []\<rparr>
           | Some r \<Rightarrow>
               let (accepted, initial_paths) = log_connection_accepted env c r;
                   (g, reg1) = register \<lparr>ac_src = cn_remote_id c, ac_kind = lit ''serve'',
                     ac_dst = route_name r\<rparr> rg;
                   (res, dialled) = proxy_to_route inc r
               in (case res of
                     Inl f \<Rightarrow> \<lparr>oc_logs = [accepted,
                         log_established_failure env (in_later inc) r initial_paths (in_age_ms inc) f],
                       oc_registry = guard_drop g reg1, oc_dialled = dialled\<rparr>
                   | Inr stats \<Rightarrow> \<lparr>oc_logs = [accepted,
                         log_connection_finished env (in_later inc) r initial_paths (in_age_ms inc) stats
                           (in_closed inc)],
                       oc_registry = guard_drop g reg1, oc_dialled = dialled\<rparr>)))"


section \<open>Properties\<close>

lemma register_drop:
  assumes "hm_get (active rg) (next_id rg) = None" and "register info rg = (g, reg1)"
  shows "active (guard_drop g reg1) = active rg"
    and "state_tx (guard_drop g reg1) = state_tx rg @ [opened, closed]"
  using assms
  by (auto simp: register_def guard_drop_def send_event_def Let_def hm_remove_insert_fresh opened_def closed_def)

lemma dialled_route: "set (snd (proxy_to_route inc r)) \<subseteq> {target r}"
  by (auto simp: proxy_to_route_def split: sum.splits)

definition routed :: "routes \<Rightarrow> incoming \<Rightarrow> route option" where
  "routed routes inc = (case in_result inc of Inl _ \<Rightarrow> None | Inr c \<Rightarrow> hm_get routes (cn_alpn c))"

lemma handle_routed:
  assumes "routed routes inc = Some r" and "hm_get (active rg) (next_id rg) = None"
  shows "active (oc_registry (handle_incoming env inc routes rg)) = active rg \<and>
    state_tx (oc_registry (handle_incoming env inc routes rg)) = state_tx rg @ [opened, closed] \<and>
    oc_dialled (handle_incoming env inc routes rg) = snd (proxy_to_route inc r)"
proof -
  obtain c where c: "in_result inc = Inr c" "hm_get routes (cn_alpn c) = Some r"
    using assms(1) by (auto simp: routed_def split: sum.splits)
  let ?info = "\<lparr>ac_src = cn_remote_id c, ac_kind = lit ''serve'', ac_dst = route_name r\<rparr>"
  obtain g reg1 where reg1: "register ?info rg = (g, reg1)" by fastforce
  obtain res dialled where res: "proxy_to_route inc r = (res, dialled)" by fastforce
  obtain acc ini where acc: "log_connection_accepted env c r = (acc, ini)" by fastforce
  show ?thesis
    unfolding handle_incoming_def c sum.case option.case reg1 res acc Let_def prod.case
    using register_drop [OF assms(2) reg1] by (cases res) simp_all
qed

lemma handle_unrouted:
  assumes "routed routes inc = None"
  shows "oc_registry (handle_incoming env inc routes rg) = rg \<and>
    oc_dialled (handle_incoming env inc routes rg) = []"
  using assms by (auto simp: handle_incoming_def routed_def split: sum.splits)

text \<open>C11. However a connection ends, the registry's entries are afterwards what they were: its
  entry is removed on every path, with one open and one close event if it was routed and
  none otherwise. A local target is dialled only when the negotiated ALPN is in the route
  table, and then only the target of that service.\<close>

theorem handle_incoming_spec:
  assumes "routes_ok routes" and "hm_get (active rg) (next_id rg) = None"
    and "in_result inc = Inr c \<Longrightarrow> cn_alpn c = service_to_alpn name" and "valid_str name"
  shows "active (oc_registry (handle_incoming env inc routes rg)) = active rg \<and>
    (case routed routes inc of
       None \<Rightarrow> oc_registry (handle_incoming env inc routes rg) = rg \<and>
         oc_dialled (handle_incoming env inc routes rg) = []
     | Some r \<Rightarrow>
         state_tx (oc_registry (handle_incoming env inc routes rg)) =
           state_tx rg @ [lit ''connection-opened'', lit ''connection-closed''] \<and>
         set (oc_dialled (handle_incoming env inc routes rg)) \<subseteq> {target r} \<and>
         (in_result inc = Inr c \<longrightarrow> served routes name = Some (target r)))"
proof (cases "routed routes inc")
  case None
  then show ?thesis using handle_unrouted [OF None, of env rg] by simp
next
  case (Some r)
  have "served routes name = Some (target r)" if "in_result inc = Inr c"
    using Some assms(3) [OF that] that by (simp add: routed_def served_def)
  with Some handle_routed [OF Some assms(2), of env] dialled_route [of inc r] show ?thesis
    unfolding opened_def closed_def by auto
qed

text \<open>A connection to one service, for the witness.\<close>

definition sample_connection :: connection where
  "sample_connection = \<lparr>cn_stable_id = 1, cn_remote_id = [112], cn_alpn = service_to_alpn [119],
     cn_paths = [], cn_close_reason = None, cn_lost_packets = 0, cn_lost_bytes = 0\<rparr>"

definition sample_incoming :: incoming where
  "sample_incoming = \<lparr>in_peer_addr = [], in_local_addr = [], in_result = Inr sample_connection,
     in_accept_bi = Inr (), in_connect = (\<lambda>_. Inr ()),
     in_pump = Inr \<lparr>up_bytes = 1, down_bytes = 2, timed_out = False\<rparr>,
     in_later = sample_connection, in_age_ms = 0, in_closed = ApplicationClosed 0\<rparr>"


definition sample_env :: log_env where
  "sample_env = \<lparr>show_conn_error = (\<lambda>_. []), connecting_chain = (\<lambda>_. []), from_utf8_lossy = (\<lambda>_. [])\<rparr>"

theorem handle_incoming_spec_witness:
  "set (oc_dialled (handle_incoming sample_env sample_incoming
     [(service_to_alpn [119], \<lparr>route_name = [119], target = [56]\<rparr>)] (registry_new []))) \<subseteq> {[56]} \<and>
   active (oc_registry (handle_incoming sample_env sample_incoming
     [(service_to_alpn [119], \<lparr>route_name = [119], target = [56]\<rparr>)] (registry_new []))) = []"
proof -
  let ?rs = "[(service_to_alpn [119], \<lparr>route_name = [119], target = [56]\<rparr>)]"
  have rs: "routes_ok ?rs"
    by (simp add: routes_ok_def hm_ok_def route_ok_def service_eval trim_def scalar_def)
  have rt: "routed ?rs sample_incoming = Some \<lparr>route_name = [119], target = [56]\<rparr>"
    by (simp add: routed_def sample_incoming_def sample_connection_def hm_get_def)
  have "hm_get (active (registry_new [])) (next_id (registry_new [])) = None"
    by (simp add: registry_new_def)
  from handle_incoming_spec [OF rs this, of sample_incoming sample_connection "[119]" sample_env] rt
  show ?thesis by (simp add: sample_incoming_def sample_connection_def scalar_def registry_new_def hm_empty_def)
qed

end
