(* ===== verification/Service_Reach.thy ===== *)
theory Service_Reach
  imports Server_Daemon Incoming
begin

text \<open>
  From a remote path on one machine to a local target on another: the ALPN that a client connects
  with (\<open>to_alpn\<close> of \<open>src/remote_path.rs\<close>, \<open>connect_remote\<close> of \<open>src/proxy.rs\<close>), the route table
  that the server builds from its configuration (\<open>run_server\<close>) and the handler that looks the ALPN
  up (\<open>handle_incoming\<close> of \<open>src/daemon/routes.rs\<close>).
\<close>

lemma parsed_service:
  assumes "remote_from_str parse_id value = Inr remote" and "valid_str value"
  shows "valid_str (service remote) \<and> valid_service (service remote)"
  using assms unfolding remote_from_str_Inr split_three by auto

lemma routed_served:
  assumes "in_result inc = Inr c" and "cn_alpn c = service_to_alpn name"
  shows "map_option target (routed routes inc) = served routes name"
  using assms by (simp add: routed_def served_def)

lemma dialled_of_route:
  "snd (proxy_to_route inc r) = (if is_ok (in_accept_bi inc) then [target r] else [])"
  by (auto simp: proxy_to_route_def split: sum.splits)

lemma dialled_of_service:
  assumes "in_result inc = Inr c" and "cn_alpn c = service_to_alpn name"
    and "hm_get (active rg) (next_id rg) = None"
  shows "oc_dialled (handle_incoming env inc routes rg) =
      (case served routes name of
         Some tgt \<Rightarrow> if is_ok (in_accept_bi inc) then [tgt] else []
       | None \<Rightarrow> []) \<and>
    active (oc_registry (handle_incoming env inc routes rg)) = active rg"
proof (cases "routed routes inc")
  case None
  with handle_unrouted [OF None, of env rg] routed_served [OF assms(1,2), of routes] show ?thesis by simp
next
  case (Some r)
  with handle_routed [OF Some assms(3), of env] routed_served [OF assms(1,2), of routes]
  show ?thesis by (auto simp: dialled_of_route split: option.splits)
qed

lemma alpn_accepted:
  assumes "daemon_ok d" and "valid_str name"
  shows "service_to_alpn name \<in> set (ep_alpns d) \<longleftrightarrow> sp_serves (abs_daemon d) name \<noteq> None"
  using assms
  by (auto simp: daemon_ok_def route_alpns_def routes_ok_def abs_daemon_def served_names_def served_def hm_keys_dom dom_def)

text \<open>C6. A remote path leads to the target that the server has configured for its service, and to
  nothing else. When a client has parsed \<open><id>/tcp/<name>\<close> and its connection, after any number of
  attempts, is established, then its ALPN is among those the server's endpoint accepts exactly if
  the name is configured; and the server's handler of this connection dials the target of that
  name in the configuration and no other, once the stream is accepted, or nothing if the name is
  not configured. Iroh's connections are assumed to carry the ALPN that was asked for, on both ends.\<close>

theorem remote_path_reaches_target:
  assumes "remote_from_str parse_id text = Inr remote" and "valid_str text"
    and "connect_remote_with_retry dl remote policy = Inr c"
    and "\<And>n i alpn k. outcome (dl_connect dl n i alpn) = Inr k \<Longrightarrow> cn_alpn k = alpn"
    and "in_result inc = Inr c'" and "cn_alpn c' = cn_alpn c"
    and "sr_daemon (run_server env services fwds mdns) = Some d"
    and "list_all (\<lambda>sv. valid_str (sv_name sv)) services"
    and "hm_get (active rg) (next_id rg) = None"
  shows "(cn_alpn c \<in> set (ep_alpns d) \<longleftrightarrow> service remote \<in> sv_name ` set services) \<and>
    oc_dialled (handle_incoming lenv inc (d_routes d) rg) =
      (case map_of (service_pairs services) (service remote) of
         Some tgt \<Rightarrow> if is_ok (in_accept_bi inc) then [tgt] else []
       | None \<Rightarrow> []) \<and>
    active (oc_registry (handle_incoming lenv inc (d_routes d) rg)) = active rg"
proof -
  have name: "valid_str (service remote)" using parsed_service [OF assms(1,2)] by simp
  have alpn: "cn_alpn c = service_to_alpn (service remote)"
    using connect_gives_requested [OF assms(3)] assms(4) by (auto simp: to_alpn_def)
  from run_server_result [OF assms(8), of env fwds mdns] assms(7)
  have ok: "daemon_ok d"
    and serves: "sp_serves (abs_daemon d) =
      (\<lambda>n. if valid_str n then map_of (service_pairs services) n else None)" by simp_all
  have "served (d_routes d) (service remote) = map_of (service_pairs services) (service remote)"
    using fun_cong [OF serves, of "service remote"] name by (simp add: abs_daemon_def served_names_def)
  then have "oc_dialled (handle_incoming lenv inc (d_routes d) rg) =
      (case map_of (service_pairs services) (service remote) of
         Some tgt \<Rightarrow> if is_ok (in_accept_bi inc) then [tgt] else []
       | None \<Rightarrow> []) \<and>
    active (oc_registry (handle_incoming lenv inc (d_routes d) rg)) = active rg"
    using dialled_of_service [OF assms(5) _ assms(9), of "service remote" lenv "d_routes d"] assms(6) alpn by simp
  moreover have "map_of (service_pairs services) (service remote) \<noteq> None \<longleftrightarrow> service remote \<in> sv_name ` set services"
    by (auto simp: map_of_eq_None_iff service_pairs_def image_iff)
  ultimately show ?thesis
    using alpn_accepted [OF ok name] name by (simp add: alpn serves)
qed

text \<open>A client whose second attempt succeeds.\<close>

definition sample_dialer :: "(rstr, connection) dialer" where
  "sample_dialer = \<lparr>dl_connect = (\<lambda>n i alpn. Attempt (Some 0)
       (if n = 1 then Inl (Connect NoAddress) else Inr (sample_connection\<lparr>cn_alpn := alpn\<rparr>))),
     dl_timeout_late = (\<lambda>_. 0), dl_sleep_late = (\<lambda>_. 0), dl_started = 0, dl_show_id = (\<lambda>s. s),
     dl_show_secs = (\<lambda>_. []), dl_show_f64 = (\<lambda>_. []), dl_chain = (\<lambda>_. [])\<rparr>"

lemma sample_dials:
  "connect_remote_with_retry sample_dialer \<lparr>endpoint_id = [97], service = [119]\<rparr> default_policy =
     Inr sample_connection"
  by (simp add: connect_remote_with_retry_def retry_with_backoff_def retry_loop.simps connect_attempts_def
      connect_remote_def sample_dialer_def sample_connection_def default_policy_def timeout_at_def from_millis_def
      from_secs_def max_def word_le_nat_alt run_stop_def run_after_def to_alpn_def Let_def)

theorem remote_path_reaches_target_witness:
  "\<exists>d. sr_daemon (run_server sample_server [\<lparr>sv_name = [119], sv_target = [56]\<rparr>] [] True) = Some d \<and>
     oc_dialled (handle_incoming sample_env sample_incoming (d_routes d) (registry_new [])) = [[56]]"
proof -
  let ?sv = "\<lparr>sv_name = [119], sv_target = [56]\<rparr>"
  obtain d where d: "sr_daemon (run_server sample_server [?sv] [] True) = Some d"
    using sample_server_starts by blast
  have remote: "remote_from_str Inr ([97] @ lit ''/tcp/'' @ [119]) =
      (Inr \<lparr>endpoint_id = [97], service = [119]\<rparr> :: error + rstr remote_path)"
    by (simp add: remote_from_str_def validate_service_name_def max_service_name_len_def
        slash_def bad_name_char_def text_eval)
  have "cn_alpn k = alpn" if "outcome (dl_connect sample_dialer n i alpn) = Inr k" for n i alpn k
    using that by (auto simp: sample_dialer_def split: if_splits)
  then show ?thesis
    using remote_path_reaches_target [OF remote _ sample_dials _ _ refl d, where inc = sample_incoming and rg = "registry_new []"
        and lenv = sample_env] d
    by (auto simp: sample_incoming_def service_pairs_def scalar_def registry_new_def)
qed

end
