(* ===== verification/Alpn_Sync.thy ===== *)
theory Alpn_Sync
  imports Proxy_Service
begin

text \<open>
  \<open>AddServe\<close> and \<open>DelServe\<close> when they overlap. Control calls run as concurrent tasks, and each
  of these two takes the route table's lock twice: to write the table and, in
  \<open>sync_endpoint_alpns\<close> (\<open>src/daemon/routes.rs\<close>), to read its keys; it hands the keys to the
  endpoint after the second lock is released. Here the three moments are separate steps and
  a schedule says which call makes the next one.
\<close>

datatype call_pc = CStart | CRead | CSet "byte list list" | CDone "fdo_error + unit"

datatype serve_call = CallAdd rstr rstr | CallDel rstr

record race =
  rc_routes :: routes
  rc_alpns :: "byte list list"
  rc_calls :: "(serve_call \<times> call_pc) list"

fun call_write :: "serve_call \<Rightarrow> routes \<Rightarrow> (fdo_error + unit) \<times> routes" where
  "call_write (CallAdd name tgt) rs =
     (case add_serve_route name tgt rs of (r, rs') \<Rightarrow> (map_err to_fdo r, rs'))"
| "call_write (CallDel name) rs =
     (case remove_route name rs of
        (None, rs') \<Rightarrow> (Inl (Failed (lit ''service '' @ quoted name @ lit '' is not currently served'')), rs')
      | (Some _, rs') \<Rightarrow> (Inr (), rs'))"

definition set_call :: "nat \<Rightarrow> call_pc \<Rightarrow> race \<Rightarrow> race" where
  "set_call i pc s = s\<lparr>rc_calls := (rc_calls s)[i := (fst (rc_calls s ! i), pc)]\<rparr>"

text \<open>The next step of call \<open>i\<close>; nothing when there is no such call or it has returned.\<close>

definition call_step :: "nat \<Rightarrow> race \<Rightarrow> race" where
  "call_step i s =
     (if i < length (rc_calls s) then
        (case snd (rc_calls s ! i) of
           CStart \<Rightarrow>
             (case call_write (fst (rc_calls s ! i)) (rc_routes s) of
                (Inl e, rs) \<Rightarrow> set_call i (CDone (Inl e)) (s\<lparr>rc_routes := rs\<rparr>)
              | (Inr _, rs) \<Rightarrow> set_call i CRead (s\<lparr>rc_routes := rs\<rparr>))
         | CRead \<Rightarrow> set_call i (CSet (route_alpns (rc_routes s))) s
         | CSet ks \<Rightarrow> set_call i (CDone (Inr ())) (s\<lparr>rc_alpns := ks\<rparr>)
         | CDone _ \<Rightarrow> s)
      else s)"

definition race_start :: "routes \<Rightarrow> serve_call list \<Rightarrow> race" where
  "race_start rs calls =
     \<lparr>rc_routes = rs, rc_alpns = route_alpns rs, rc_calls = map (\<lambda>c. (c, CStart)) calls\<rparr>"

definition run_schedule :: "nat list \<Rightarrow> race \<Rightarrow> race" where
  "run_schedule sched s = fold call_step sched s"

definition all_returned_ok :: "race \<Rightarrow> bool" where
  "all_returned_ok s \<longleftrightarrow> list_all (\<lambda>(c, pc). pc = CDone (Inr ())) (rc_calls s)"

lemma call_step_simps:
  "i < length (rc_calls s) \<Longrightarrow> rc_calls s ! i = (CallAdd name tgt, CStart) \<Longrightarrow>
     add_serve_route name tgt (rc_routes s) = (Inr u, rs) \<Longrightarrow>
     call_step i s = set_call i CRead (s\<lparr>rc_routes := rs\<rparr>)"
  "i < length (rc_calls s) \<Longrightarrow> rc_calls s ! i = (c, CRead) \<Longrightarrow>
     call_step i s = set_call i (CSet (route_alpns (rc_routes s))) s"
  "i < length (rc_calls s) \<Longrightarrow> rc_calls s ! i = (c, CSet ks) \<Longrightarrow>
     call_step i s = set_call i (CDone (Inr ())) (s\<lparr>rc_alpns := ks\<rparr>)"
  by (simp_all add: call_step_def)

lemmas schedule_eval = run_schedule_def race_start_def call_step_simps set_call_def

text \<open>Two additions of different services, one after the other and overlapping.\<close>

definition two_adds :: "rstr \<Rightarrow> rstr \<Rightarrow> rstr \<Rightarrow> rstr \<Rightarrow> nat list \<Rightarrow> race" where
  "two_adds a ta b tb sched = run_schedule sched (race_start hm_empty [CallAdd a ta, CallAdd b tb])"

definition row :: "rstr \<Rightarrow> rstr \<Rightarrow> byte list \<times> route" where
  "row name tgt = (service_to_alpn name, \<lparr>route_name = name, target = tgt\<rparr>)"

lemma add_first:
  assumes "valid_service a" "trim ta \<noteq> []"
  shows "add_serve_route a ta hm_empty = (Inr (), [row a ta])"
  using assms by (simp add: add_serve_route_valid served_def row_def hm_insert_fresh) (simp add: hm_empty_def)

lemma add_second:
  assumes "valid_service b" "trim tb \<noteq> []" "valid_str a" "valid_str b" "a \<noteq> b"
  shows "add_serve_route b tb [row a ta] = (Inr (), [row a ta, row b tb])"
  using assms by (simp add: add_serve_route_valid served_def row_def hm_insert_fresh hm_get_def)

text \<open>C32. Overlapping \<open>AddServe\<close> calls can leave the endpoint refusing a service that both
  calls reported as added: the first call reads the keys before the second one adds its
  service, but sets them after the second one set its own. The second service is then in
  the route table and not among the ALPNs the endpoint accepts. The same two calls one
  after the other leave exactly both accepted.\<close>

theorem overlapping_adds_lose_alpn:
  assumes "valid_service a" "valid_service b" "valid_str a" "valid_str b" "a \<noteq> b"
    and "trim ta \<noteq> []" "trim tb \<noteq> []"
  shows "all_returned_ok (two_adds a ta b tb [0, 0, 1, 1, 1, 0]) \<and>
    served (rc_routes (two_adds a ta b tb [0, 0, 1, 1, 1, 0])) b = Some tb \<and>
    service_to_alpn b \<notin> set (rc_alpns (two_adds a ta b tb [0, 0, 1, 1, 1, 0])) \<and>
    all_returned_ok (two_adds a ta b tb [0, 0, 0, 1, 1, 1]) \<and>
    mset (rc_alpns (two_adds a ta b tb [0, 0, 0, 1, 1, 1])) = {#service_to_alpn a, service_to_alpn b#}"
proof -
  note add = add_first [OF assms(1,6)] add_second [OF assms(2,7,3,4,5)]
  have race: "two_adds a ta b tb [0, 0, 1, 1, 1, 0] =
      \<lparr>rc_routes = [row a ta, row b tb], rc_alpns = route_alpns [row a ta],
       rc_calls = [(CallAdd a ta, CDone (Inr ())), (CallAdd b tb, CDone (Inr ()))]\<rparr>"
    by (simp add: two_adds_def schedule_eval add)
  have seq: "two_adds a ta b tb [0, 0, 0, 1, 1, 1] =
      \<lparr>rc_routes = [row a ta, row b tb], rc_alpns = route_alpns [row a ta, row b tb],
       rc_calls = [(CallAdd a ta, CDone (Inr ())), (CallAdd b tb, CDone (Inr ()))]\<rparr>"
    by (simp add: two_adds_def schedule_eval add)
  show ?thesis unfolding race seq using assms
    by (simp add: all_returned_ok_def route_alpns_def hm_keys_def row_def served_def hm_get_def)
qed

theorem overlapping_adds_lose_alpn_witness:
  "service_to_alpn [98] \<notin> set (rc_alpns (two_adds [97] [49] [98] [50] [0, 0, 1, 1, 1, 0])) \<and>
   served (rc_routes (two_adds [97] [49] [98] [50] [0, 0, 1, 1, 1, 0])) [98] = Some [50]"
  using overlapping_adds_lose_alpn [of "[97]" "[98]" "[49]" "[50]"]
  by (simp add: service_eval trim_def scalar_def)

end
