(* ===== verification/Secret_Keys.thy ===== *)
theory Secret_Keys
  imports Fault_Fs
begin

text \<open>
  Secret key files (\<open>src/keys.rs\<close>): loading or creating the key of a client, and the key and
  lock of a server. iroh's \<open>SecretKey\<close> is a type parameter with its byte encoding; a freshly
  generated key is any key the moment gives.
\<close>

section \<open>Definitions\<close>

record 'k key_lib =
  key_bytes :: "'k \<Rightarrow> byte list"
  key_of_bytes :: "byte list \<Rightarrow> rstr + 'k"
  generate :: "fs \<Rightarrow> 'k"

text \<open>Permission bits \<open>0o600\<close>, and the mask \<open>0o777\<close> as a remainder.\<close>

definition owner_only :: nat where
  "owner_only = 384"

definition restrict_secret_key_permissions :: "path \<Rightarrow> (fs, error, unit) act" where
  "restrict_secret_key_permissions p =
     bindA (ctx (lit ''failed to inspect key file '' @ path_display p) (metadata_mode p)) (\<lambda>m.
     if m mod 512 \<noteq> owner_only
     then ctx (lit ''failed to restrict key file '' @ path_display p) (set_permissions p owner_only)
     else retA ())"

definition open_secret_key_for_create :: "path \<Rightarrow> (fs, io_error, unit) act" where
  "open_secret_key_for_create p = create_new owner_only p"

definition create_key_dir :: "path \<Rightarrow> (fs, error, unit) act" where
  "create_key_dir p =
     (case path_parent p of
        None \<Rightarrow> retA ()
      | Some parent \<Rightarrow> ctx (lit ''failed to create key dir '' @ path_display parent) (create_dir_all parent))"

definition parse_key :: "'k key_lib \<Rightarrow> path \<Rightarrow> byte list \<Rightarrow> (fs, error, 'k) act" where
  "parse_key kl p raw =
     liftA (with_context (lit ''invalid key in '' @ path_display p) (map_err anyhow (key_of_bytes kl raw)))"

text \<open>One pass of \<open>load_or_create_secret_key\<close>; \<open>None\<close> asks for another one.\<close>

definition secret_key_store :: "'k key_lib \<Rightarrow> path \<Rightarrow> 'k \<Rightarrow> (fs, error, 'k option) act" where
  "secret_key_store kl p sk =
     bindA (attemptA (open_secret_key_for_create p)) (\<lambda>opened.
     case opened of
       Inl e \<Rightarrow>
         if io_kind e = AlreadyExists then retA None
         else failA (context_err (lit ''failed to create key file '' @ path_display p) (io_chain e))
     | Inr _ \<Rightarrow>
         bindA (ctx (lit ''failed to write key file '' @ path_display p) (write_all p (key_bytes kl sk))) (\<lambda>_.
         bindA (ctx (lit ''failed to sync key file '' @ path_display p) (sync_file p)) (\<lambda>_.
         bindA (restrict_secret_key_permissions p) (\<lambda>_. retA (Some sk)))))"

definition secret_key_create :: "'k key_lib \<Rightarrow> path \<Rightarrow> (fs, error, 'k option) act" where
  "secret_key_create kl p s = secret_key_store kl p (generate kl s) s"

definition secret_key_pass :: "'k key_lib \<Rightarrow> path \<Rightarrow> (fs, error, 'k option) act" where
  "secret_key_pass kl p =
     bindA (create_key_dir p) (\<lambda>_.
     bindA (attemptA (fs_read p)) (\<lambda>r.
     case r of
       Inr raw \<Rightarrow>
         bindA (restrict_secret_key_permissions p) (\<lambda>_. bindA (parse_key kl p raw) (\<lambda>k. retA (Some k)))
     | Inl e \<Rightarrow>
         if io_kind e = NotFound then secret_key_create kl p
         else failA (context_err (lit ''failed to read key file '' @ path_display p) (io_chain e))))"


section \<open>The passes end\<close>

text \<open>Every call takes a turn of the environment, if one is left.\<close>

lemma take_turn_turns: "take_turn s = (f, s1) \<Longrightarrow> turns s1 = drop 1 (turns s)"
  by (auto simp: take_turn_def apply_others_def split: list.splits)

definition same_turns :: "(fs \<Rightarrow> (io_error + 'a) \<times> fs) \<Rightarrow> (nat \<Rightarrow> fs \<Rightarrow> fs) \<Rightarrow> bool" where
  "same_turns body partial \<longleftrightarrow> (\<forall>s r s'. body s = (r, s') \<longrightarrow> turns s' = turns s) \<and>
     (\<forall>n s. turns (partial n s) = turns s)"

lemma op_turns:
  assumes "same_turns body partial" and "fs_op body partial s = (r, t)"
  shows "turns t = drop 1 (turns s)"
  using assms(2)
  by (cases rule: fs_op_cases) (use assms(1) take_turn_turns in \<open>fastforce simp: same_turns_def\<close>)+

abbreviation at_most :: "nat \<Rightarrow> fs \<Rightarrow> bool" where
  "at_most n s \<equiv> length (turns s) \<le> n"

lemma keeps_turns: "same_turns body partial \<Longrightarrow> keeps (at_most n) (fs_op body partial)"
  by (rule hoareI) (auto dest: op_turns)

lemma op_same_turns:
  "keeps (at_most n) (fs_read p)" "keeps (at_most n) (create_new m p)" "keeps (at_most n) (write_all p bs)"
  "keeps (at_most n) (sync_file p)" "keeps (at_most n) (metadata_mode p)"
  "keeps (at_most n) (set_permissions p m)" "keeps (at_most n) (create_dir_all p)"
  unfolding fs_read_def create_new_def write_all_def sync_file_def metadata_mode_def set_permissions_def
    create_dir_all_def
  by (auto simp: same_turns_def no_effect_def intro!: keeps_turns split: option.splits if_splits)

lemma keeps_turns_restrict: "keeps (at_most n) (restrict_secret_key_permissions p)"
  unfolding restrict_secret_key_permissions_def
  by (intro keeps_bind keeps_ctx keeps_if keeps_ret op_same_turns)

lemma hoare_create:
  "(\<And>sk. hoare P (secret_key_store kl p sk) Q E) \<Longrightarrow> hoare P (secret_key_create kl p) Q E"
  by (simp add: hoare_def secret_key_create_def)

lemma keeps_turns_create: "keeps (at_most n) (secret_key_create kl p)"
  by (rule hoare_create, unfold secret_key_store_def open_secret_key_for_create_def,
      intro keeps_bind keeps_attempt op_same_turns)
    (auto split: sum.splits intro!: keeps_bind keeps_ctx keeps_ret keeps_fail op_same_turns
      keeps_turns_restrict)

lemma keeps_turns_rest:
  "keeps (at_most n) (case r of
       Inr raw \<Rightarrow>
         bindA (restrict_secret_key_permissions p) (\<lambda>_. bindA (parse_key kl p raw) (\<lambda>k. retA (Some k)))
     | Inl e \<Rightarrow>
         if io_kind e = NotFound then secret_key_create kl p
         else failA (context_err (lit ''failed to read key file '' @ path_display p) (io_chain e)))"
  unfolding parse_key_def
  by (auto split: sum.splits intro!: keeps_bind keeps_lift keeps_ret keeps_fail keeps_turns_restrict
      keeps_turns_create)


lemma create_key_dir_keeps: "keeps (at_most n) (create_key_dir p)"
  unfolding create_key_dir_def
  by (auto split: option.splits intro!: keeps_ctx keeps_ret op_same_turns)

text \<open>The first call of a pass takes a turn, and with no turn left a pass never asks for another.\<close>

lemma create_key_dir_turn:
  assumes "p \<noteq> []" and "create_key_dir p s = (r, t)"
  shows "turns t = drop 1 (turns s)"
proof -
  obtain r' where "create_dir_all (butlast p) s = (r', t)"
    using assms by (auto simp: create_key_dir_def path_parent_def ctx_def elim: mapErrA_cases)
  then show ?thesis unfolding create_dir_all_def
    by (rule op_turns [rotated]) (auto simp: same_turns_def no_effect_def split: if_splits)
qed

lemma create_quiet_ends:
  assumes "turns s = []" and "files s p = None" and "\<not> dirs s p"
  shows "secret_key_create kl p (log_state s) \<noteq> (Inr None, t)"
  using assms
  by (auto simp: secret_key_create_def secret_key_store_def open_secret_key_for_create_def
      create_new_def fs_op_def take_turn_def attemptA_def retA_def elim!: bindA_ok)

lemma pass_quiet_ends:
  assumes "turns s = []" and "secret_key_pass kl p s = (r, t)"
  shows "r \<noteq> Inr None"
proof
  assume "r = Inr None"
  with assms(2) have "secret_key_pass kl p s = (Inr None, t)" by simp
  then obtain u s1 r1 s2 where 1: "create_key_dir p s = (Inr u, s1)" and 2: "attemptA (fs_read p) s1 = ((Inr r1 :: error + (io_error + byte list)), s2)"
    and 3: "(case r1 of
       Inr raw \<Rightarrow>
         bindA (restrict_secret_key_permissions p) (\<lambda>_. bindA (parse_key kl p raw) (\<lambda>k. retA (Some k)))
     | Inl e \<Rightarrow>
         if io_kind e = NotFound then secret_key_create kl p
         else failA (context_err (lit ''failed to read key file '' @ path_display p) (io_chain e))) s2
       = (Inr None, t)"
    unfolding secret_key_pass_def by (elim bindA_ok) (rule that; assumption)
  have t1: "turns s1 = []" using hoareD_ok [OF create_key_dir_keeps [of 0 p] _ 1] assms(1) by simp
  have r1: "r1 = fst (fs_read p s1)" "s2 = snd (fs_read p s1)" using 2 by (simp_all add: attemptA_eq)
  show False
  proof (cases "files s1 p")
    case (Some f)
    then have "r1 = Inr (content f)" using t1 r1 by (simp add: fs_read_def fs_op_def take_turn_def)
    with 3 show False by (auto simp: parse_key_def retA_def elim!: bindA_ok)
  next
    case None
    with t1 r1 have "r1 = Inl (if dirs s1 p then is_directory else not_found)" "s2 = log_state s1"
      by (simp_all add: fs_read_def fs_op_def take_turn_def)
    with 3 create_quiet_ends [OF t1 None, of kl t] show False
      by (auto simp: is_directory_def not_found_def failA_def split: if_splits)
  qed
qed

lemma fs_read_turns: "fs_read p s = (r, t) \<Longrightarrow> turns t = drop 1 (turns s)"
  unfolding fs_read_def
  by (erule op_turns [rotated]) (auto simp: same_turns_def no_effect_def split: option.splits)

lemma pass_takes_turn:
  assumes "secret_key_pass kl p s = (Inr None, t)"
  shows "length (turns t) < length (turns s)"
proof (cases "turns s")
  case Nil
  with assms pass_quiet_ends show ?thesis by blast
next
  case (Cons tn ts)
  from assms show ?thesis unfolding secret_key_pass_def
  proof (elim bindA_ok)
    fix u s1 r1 s2
    assume 1: "create_key_dir p s = (Inr u, s1)" and 2: "attemptA (fs_read p) s1 = (Inr r1, s2)"
      and 3: "(case r1 of
       Inr raw \<Rightarrow>
         bindA (restrict_secret_key_permissions p) (\<lambda>_. bindA (parse_key kl p raw) (\<lambda>k. retA (Some k)))
     | Inl e \<Rightarrow>
         if io_kind e = NotFound then secret_key_create kl p
         else failA (context_err (lit ''failed to read key file '' @ path_display p) (io_chain e))) s2
       = (Inr None, t)"
    have "length (turns s1) \<le> length (turns s)"
      using hoareD_ok [OF create_key_dir_keeps [of "length (turns s)" p] _ 1] by simp
    moreover have "turns s2 = drop 1 (turns s1)"
      using 2 fs_read_turns [of p s1 "fst (fs_read p s1)" "snd (fs_read p s1)"]
      by (auto simp: attemptA_eq)
    moreover have "length (turns t) \<le> length (turns s2)"
      by (rule hoareD_ok [OF keeps_turns_rest _ 3]) simp
    ultimately show ?thesis using Cons by auto
  qed
qed

function load_or_create_secret_key :: "'k key_lib \<Rightarrow> path \<Rightarrow> (fs, error, 'k) act" where
  "load_or_create_secret_key kl p s =
     (case secret_key_pass kl p s of
        (Inl e, t) \<Rightarrow> (Inl e, t)
      | (Inr (Some k), t) \<Rightarrow> (Inr k, t)
      | (Inr None, t) \<Rightarrow> load_or_create_secret_key kl p t)"
  by pat_completeness auto
termination
  by (relation "measure (\<lambda>(kl, p, s). length (turns s))") (auto intro: pass_takes_turn sym)

declare load_or_create_secret_key.simps [simp del]



section \<open>The server's key and lock\<close>

definition load_or_create_secret_key_from_file :: "'k key_lib \<Rightarrow> path \<Rightarrow> (fs, error, 'k) act" where
  "load_or_create_secret_key_from_file kl p =
     bindA (ctx (lit ''failed to seek key file '' @ path_display p) (seek_start p)) (\<lambda>_.
     bindA (ctx (lit ''failed to read key file '' @ path_display p) (fs_read p)) (\<lambda>raw.
     if raw = [] then
       (\<lambda>s. let sk = generate kl s in
        bindA (restrict_secret_key_permissions p) (\<lambda>_.
        bindA (ctx (lit ''failed to truncate key file '' @ path_display p) (set_len_zero p)) (\<lambda>_.
        bindA (ctx (lit ''failed to seek key file '' @ path_display p) (seek_start p)) (\<lambda>_.
        bindA (ctx (lit ''failed to write key file '' @ path_display p) (write_all p (key_bytes kl sk))) (\<lambda>_.
        bindA (ctx (lit ''failed to sync key file '' @ path_display p) (sync_file p)) (\<lambda>_. retA sk))))) s)
     else bindA (restrict_secret_key_permissions p) (\<lambda>_. parse_key kl p raw)))"

definition serve_key_path :: "path \<Rightarrow> path option \<Rightarrow> path" where
  "serve_key_path default_path key_file = (case key_file of Some p \<Rightarrow> p | None \<Rightarrow> default_path)"

definition lock_serve_key_file :: "path \<Rightarrow> path option \<Rightarrow> (fs, error, unit) act" where
  "lock_serve_key_file default_path key_file =
     (let p = serve_key_path default_path key_file in
      bindA (create_key_dir p) (\<lambda>_.
      bindA (ctx (lit ''failed to open key file '' @ path_display p) (open_or_create owner_only p)) (\<lambda>_.
      bindA (mapErrA (\<lambda>e. anyhow (lit ''failed to lock key file '' @ path_display p @
          lit '' (another iroh-proxy server may already be running): '' @ io_text e)) (try_lock p)) (\<lambda>_.
      restrict_secret_key_permissions p))))"

definition load_or_create_serve_key_and_lock ::
  "'k key_lib \<Rightarrow> path \<Rightarrow> path option \<Rightarrow> (fs, error, 'k) act" where
  "load_or_create_serve_key_and_lock kl default_path key_file =
     bindA (lock_serve_key_file default_path key_file) (\<lambda>_.
     load_or_create_secret_key_from_file kl (serve_key_path default_path key_file))"

definition load_or_create_forward_key :: "'k key_lib \<Rightarrow> path option \<Rightarrow> (fs, error, 'k) act" where
  "load_or_create_forward_key kl key_file =
     (case key_file of
        Some p \<Rightarrow> load_or_create_secret_key kl p
      | None \<Rightarrow> (\<lambda>s. (Inr (generate kl s), s)))"


section \<open>What the file holds\<close>

text \<open>The key file is there and satisfies \<open>P\<close>; nobody else writes it.\<close>

definition holds :: "path \<Rightarrow> (fentry \<Rightarrow> bool) \<Rightarrow> fs \<Rightarrow> bool" where
  "holds p P s \<longleftrightarrow> quiet ((=) p) s \<and> (\<exists>f. files s p = Some f \<and> P f)"

lemma quiet_turn_at: "quiet ((=) p) s \<Longrightarrow> take_turn s = (f, s1) \<Longrightarrow> quiet ((=) p) s1 \<and> files s1 p = files s p"
  using take_turn_quiet [of s f s1 "(=) p"] by auto

lemma holds_turn: "holds p P s \<Longrightarrow> take_turn s = (f, s1) \<Longrightarrow> holds p P s1"
  using quiet_turn_at [of p s f s1] by (auto simp: holds_def)

lemma holds_log [simp]: "holds p P (log_state s) = holds p P s"
  by (simp add: holds_def)

abbreviation calm :: "path \<Rightarrow> fs \<Rightarrow> bool" where
  "calm p \<equiv> quiet ((=) p)"

lemma calm_turn: "calm p s \<Longrightarrow> take_turn s = (f, s1) \<Longrightarrow> calm p s1"
  using quiet_turn_at [of p s f s1] by auto

text \<open>Every call leaves the environment as it is.\<close>

lemma keeps_calm: "same_turns body partial \<Longrightarrow> keeps (calm p) (fs_op body partial)"
  by (rule hoare_fs_op [where J = "calm p", OF calm_turn]) (auto simp: same_turns_def quiet_def)

lemma holds_calls:
  "hoare (calm p) (fs_read p) (\<lambda>raw. holds p (\<lambda>f. content f = raw)) (\<lambda>_. calm p)"
  "hoare (calm p) (create_new m p) (\<lambda>_. holds p (\<lambda>f. content f = [])) (\<lambda>_. calm p)"
  "hoare (holds p (\<lambda>f. content f = [])) (write_all p bs) (\<lambda>_. holds p (\<lambda>f. content f = bs)) (\<lambda>_. calm p)"
  "hoare (holds p P) (sync_file p) (\<lambda>_. holds p P) (\<lambda>_. calm p)"
  "hoare (holds p P) (seek_start p) (\<lambda>_. holds p P) (\<lambda>_. calm p)"
  "hoare (holds p P) (metadata_mode p) (\<lambda>m. holds p (\<lambda>f. P f \<and> fmode f = m)) (\<lambda>_. calm p)"
  "hoare (holds p (\<lambda>f. content f = bs)) (set_permissions p m)
     (\<lambda>_. holds p (\<lambda>f. content f = bs \<and> fmode f = m)) (\<lambda>_. calm p)"
  "hoare (holds p P) (set_len_zero p) (\<lambda>_. holds p (\<lambda>f. content f = [])) (\<lambda>_. calm p)"
  "hoare (calm p) (create_dir_all d) (\<lambda>_. calm p) (\<lambda>_. calm p)"
  unfolding fs_read_def create_new_def write_all_def sync_file_def seek_start_def metadata_mode_def
    set_permissions_def set_len_zero_def create_dir_all_def
  by (rule hoare_fs_op, erule (1) calm_turn holds_turn;
      auto simp: holds_def no_effect_def quiet_def split: option.splits if_splits)+

definition restricted :: "fentry \<Rightarrow> bool" where
  "restricted f \<longleftrightarrow> fmode f mod 512 = owner_only"

lemma restrict_rule:
  "hoare (holds p (\<lambda>f. content f = bs)) (restrict_secret_key_permissions p)
    (\<lambda>_. holds p (\<lambda>f. content f = bs \<and> restricted f)) (\<lambda>_. calm p)"
  unfolding restrict_secret_key_permissions_def
proof (rule hoare_bind [OF hoare_ctx [OF holds_calls(6)]])
  fix m
  show "hoare (holds p (\<lambda>f. content f = bs \<and> fmode f = m))
      (if m mod 512 \<noteq> owner_only
       then ctx (lit ''failed to restrict key file '' @ path_display p) (set_permissions p owner_only)
       else retA ()) (\<lambda>_. holds p (\<lambda>f. content f = bs \<and> restricted f)) (\<lambda>_. calm p)"
  proof (cases "m mod 512 = owner_only")
    case True
    then show ?thesis by (auto simp: hoare_def retA_def holds_def restricted_def)
  next
    case False
    have "hoare (holds p (\<lambda>f. content f = bs \<and> fmode f = m)) (set_permissions p owner_only)
        (\<lambda>_. holds p (\<lambda>f. content f = bs \<and> restricted f)) (\<lambda>_. calm p)"
      by (rule hoare_conseq [OF holds_calls(7)])
        (auto simp: holds_def restricted_def owner_only_def)
    with False show ?thesis by (simp add: hoare_ctx)
  qed
qed


text \<open>The key that a call returns is the one in the file, which only its owner can read.\<close>

definition key_lib_ok :: "'k key_lib \<Rightarrow> bool" where
  "key_lib_ok kl \<longleftrightarrow> (\<forall>k. key_of_bytes kl (key_bytes kl k) = Inr k)"

definition key_ready :: "'k key_lib \<Rightarrow> 'k \<Rightarrow> fentry \<Rightarrow> bool" where
  "key_ready kl k f \<longleftrightarrow> key_of_bytes kl (content f) = Inr k \<and> restricted f"

lemma create_key_dir_rule: "keeps (calm p) (create_key_dir p)"
  unfolding create_key_dir_def
  by (auto split: option.splits intro!: hoare_ctx holds_calls keeps_ret)

lemma parse_rule:
  "hoare (holds p (\<lambda>f. content f = bs \<and> restricted f)) (parse_key kl p bs)
    (\<lambda>k. holds p (key_ready kl k)) (\<lambda>_. calm p)"
  by (cases "key_of_bytes kl bs")
    (auto simp: hoare_def parse_key_def liftA_def holds_def key_ready_def)

definition pass_post :: "'k key_lib \<Rightarrow> path \<Rightarrow> 'k option \<Rightarrow> fs \<Rightarrow> bool" where
  "pass_post kl p r s = (case r of None \<Rightarrow> calm p s | Some k \<Rightarrow> holds p (key_ready kl k) s)"

lemma store_rule:
  assumes "key_lib_ok kl"
  shows "hoare (calm p) (secret_key_store kl p sk) (pass_post kl p) (\<lambda>_. calm p)"
  unfolding secret_key_store_def open_secret_key_for_create_def
proof (rule hoare_bind)
  show "hoare (calm p) (attemptA (create_new owner_only p))
      (\<lambda>r. case r of Inl e \<Rightarrow> calm p | Inr _ \<Rightarrow> holds p (\<lambda>f. content f = [])) (\<lambda>_. calm p)"
    by (rule hoare_attempt) (rule hoare_conseq [OF holds_calls(2)], auto)
next
  fix r :: "io_error + unit"
  have fin: "hoare (holds p (\<lambda>f. content f = key_bytes kl sk \<and> restricted f)) (retA (Some sk))
      (pass_post kl p) (\<lambda>_. calm p)"
    using assms by (auto simp: hoare_def retA_def pass_post_def holds_def key_ready_def key_lib_ok_def)
  show "hoare (case r of Inl e \<Rightarrow> calm p | Inr _ \<Rightarrow> holds p (\<lambda>f. content f = []))
      (case r of
       Inl e \<Rightarrow>
         if io_kind e = AlreadyExists then retA None
         else failA (context_err (lit ''failed to create key file '' @ path_display p) (io_chain e))
     | Inr _ \<Rightarrow>
         bindA (ctx (lit ''failed to write key file '' @ path_display p) (write_all p (key_bytes kl sk))) (\<lambda>_.
         bindA (ctx (lit ''failed to sync key file '' @ path_display p) (sync_file p)) (\<lambda>_.
         bindA (restrict_secret_key_permissions p) (\<lambda>_. retA (Some sk)))))
      (pass_post kl p) (\<lambda>_. calm p)"
  proof (cases r)
    case (Inl e)
    then show ?thesis by (auto simp: hoare_def retA_def failA_def pass_post_def)
  next
    case (Inr u)
    show ?thesis unfolding Inr sum.case
      by (rule hoare_bind, rule hoare_ctx, rule holds_calls(3),
          rule hoare_bind, rule hoare_ctx, rule holds_calls(4),
          rule hoare_bind, rule restrict_rule, rule fin)
  qed
qed

lemma pass_rule:
  assumes "key_lib_ok kl"
  shows "hoare (calm p) (secret_key_pass kl p) (pass_post kl p) (\<lambda>_. calm p)"
  unfolding secret_key_pass_def
proof (rule hoare_bind [OF create_key_dir_rule], rule hoare_bind)
  show "hoare (calm p) (attemptA (fs_read p))
      (\<lambda>r. case r of Inl e \<Rightarrow> calm p | Inr raw \<Rightarrow> holds p (\<lambda>f. content f = raw)) (\<lambda>_. calm p)"
    by (rule hoare_attempt) (rule hoare_conseq [OF holds_calls(1)], auto)
next
  fix r :: "io_error + byte list"
  have fin: "hoare (holds p (key_ready kl k)) (retA (Some k)) (pass_post kl p) (\<lambda>_. calm p)" for k
    by (simp add: hoare_def retA_def pass_post_def)
  show "hoare (case r of Inl e \<Rightarrow> calm p | Inr raw \<Rightarrow> holds p (\<lambda>f. content f = raw))
      (case r of
       Inr raw \<Rightarrow>
         bindA (restrict_secret_key_permissions p) (\<lambda>_. bindA (parse_key kl p raw) (\<lambda>k. retA (Some k)))
     | Inl e \<Rightarrow>
         if io_kind e = NotFound then secret_key_create kl p
         else failA (context_err (lit ''failed to read key file '' @ path_display p) (io_chain e)))
      (pass_post kl p) (\<lambda>_. calm p)"
  proof (cases r)
    case (Inl e)
    have "hoare (calm p) (secret_key_create kl p) (pass_post kl p) (\<lambda>_. calm p)"
      by (rule hoare_create) (rule store_rule [OF assms])
    with Inl show ?thesis by (auto simp: hoare_def failA_def)
  next
    case (Inr raw)
    show ?thesis unfolding Inr sum.case
      by (rule hoare_bind [OF restrict_rule], rule hoare_bind [OF parse_rule], rule fin)
  qed
qed

text \<open>A rule for the passes is one for the whole call.\<close>

lemma load_or_create_rule:
  assumes "hoare P (secret_key_pass kl p) (\<lambda>r s. case r of None \<Rightarrow> P s | Some k \<Rightarrow> Q k s) E"
  shows "hoare P (load_or_create_secret_key kl p) Q E"
proof -
  have "P s \<longrightarrow> (case load_or_create_secret_key kl p s of (Inr a, t) \<Rightarrow> Q a t | (Inl e, t) \<Rightarrow> E e t)" for s
  proof (induction "length (turns s)" arbitrary: s rule: less_induct)
    case less
    show ?case
    proof
      assume "P s"
      obtain r u where run: "secret_key_pass kl p s = (r, u)" by fastforce
      show "case load_or_create_secret_key kl p s of (Inr a, t) \<Rightarrow> Q a t | (Inl e, t) \<Rightarrow> E e t"
      proof (cases "r = Inr None")
        case True
        with run have again: "secret_key_pass kl p s = (Inr None, u)" by simp
        have "P u" using hoareD_ok [OF assms \<open>P s\<close> again] by simp
        with less [OF pass_takes_turn [OF again]] again show ?thesis
          by (subst load_or_create_secret_key.simps) simp
      next
        case False
        with run hoareD_ok [OF assms \<open>P s\<close>] hoareD_err [OF assms \<open>P s\<close>] show ?thesis
          by (subst load_or_create_secret_key.simps) (fastforce split: sum.splits option.splits)
      qed
    qed
  qed
  then show ?thesis by (simp add: hoare_def split: prod.splits)
qed

lemma load_or_create_ready:
  assumes "key_lib_ok kl"
  shows "hoare (calm p) (load_or_create_secret_key kl p) (\<lambda>k. holds p (key_ready kl k)) (\<lambda>_. calm p)"
  using pass_rule [OF assms] by (intro load_or_create_rule) (simp add: pass_post_def [abs_def])

text \<open>A key file that is there keeps its contents, at every recorded moment.\<close>

definition same_key :: "path \<Rightarrow> history \<Rightarrow> byte list \<Rightarrow> fs \<Rightarrow> bool" where
  "same_key p h0 x s \<longleftrightarrow> calm p s \<and> map_option content (files s p) = Some x \<and>
     seen h0 (\<lambda>m. map_option content (m p) = Some x) (hist s)"

lemma same_key_turn: "same_key p h0 x s \<Longrightarrow> take_turn s = (f, s1) \<Longrightarrow> same_key p h0 x s1"
  using quiet_turn_at [of p s f s1] take_turn_frame(3) [of s f s1] by (auto simp: same_key_def)

lemma same_key_calls:
  "hoare (same_key p h0 x) (fs_read p) (\<lambda>raw s. same_key p h0 x s \<and> raw = x) (\<lambda>_. same_key p h0 x)"
  "hoare (same_key p h0 x) (create_new m p) (\<lambda>_ _. False) (\<lambda>_. same_key p h0 x)"
  "keeps (same_key p h0 x) (metadata_mode p)"
  "keeps (same_key p h0 x) (set_permissions p m)"
  "keeps (same_key p h0 x) (create_dir_all d)"
  "keeps (same_key p h0 x) (seek_start p)"
  "keeps (same_key p h0 x) (open_or_create m p)"
  "keeps (same_key p h0 x) (try_lock p)"
  unfolding fs_read_def create_new_def metadata_mode_def set_permissions_def create_dir_all_def
    seek_start_def open_or_create_def try_lock_def
  by (rule hoare_fs_op, erule (1) same_key_turn;
      auto simp: same_key_def no_effect_def quiet_def split: option.splits if_splits)+

lemma same_key_restrict: "keeps (same_key p h0 x) (restrict_secret_key_permissions p)"
  unfolding restrict_secret_key_permissions_def
  by (intro keeps_bind keeps_if keeps_ctx keeps_ret same_key_calls)

lemma same_key_dir: "keeps (same_key p h0 x) (create_key_dir p)"
  unfolding create_key_dir_def
  by (auto split: option.splits intro!: keeps_ctx keeps_ret same_key_calls)

lemma same_key_store: "hoare (same_key p h0 x) (secret_key_store kl p sk)
   (\<lambda>r s. same_key p h0 x s \<and> r = None) (\<lambda>_. same_key p h0 x)"
  unfolding secret_key_store_def open_secret_key_for_create_def
proof (rule hoare_bind)
  show "hoare (same_key p h0 x) (attemptA (create_new owner_only p))
      (\<lambda>r s. \<not> is_ok r \<and> same_key p h0 x s) (\<lambda>_. same_key p h0 x)"
    by (rule hoare_attempt) (rule hoare_conseq [OF same_key_calls(2)], auto)
qed (auto simp: hoare_def retA_def failA_def split: sum.splits)

lemma same_key_pass: "hoare (same_key p h0 x) (secret_key_pass kl p)
   (\<lambda>r s. same_key p h0 x s \<and> (\<forall>k. r = Some k \<longrightarrow> key_of_bytes kl x = Inr k)) (\<lambda>_. same_key p h0 x)"
  unfolding secret_key_pass_def
proof (rule hoare_bind [OF same_key_dir], rule hoare_bind)
  show "hoare (same_key p h0 x) (attemptA (fs_read p))
      (\<lambda>r s. same_key p h0 x s \<and> (\<forall>raw. r = Inr raw \<longrightarrow> raw = x)) (\<lambda>_. same_key p h0 x)"
    by (rule hoare_attempt) (rule hoare_conseq [OF same_key_calls(1)], auto)
next
  fix r :: "io_error + byte list"
  have create: "hoare (same_key p h0 x) (secret_key_create kl p)
      (\<lambda>r s. same_key p h0 x s \<and> (\<forall>k. r = Some k \<longrightarrow> key_of_bytes kl x = Inr k)) (\<lambda>_. same_key p h0 x)"
    by (rule hoare_create) (rule hoare_conseq [OF same_key_store], auto)
  have parse: "hoare (same_key p h0 x) (parse_key kl p x)
      (\<lambda>k s. same_key p h0 x s \<and> key_of_bytes kl x = Inr k) (\<lambda>_. same_key p h0 x)"
    by (cases "key_of_bytes kl x") (auto simp: hoare_def parse_key_def liftA_def)
  have fin: "hoare (\<lambda>s. same_key p h0 x s \<and> key_of_bytes kl x = Inr k) (retA (Some k))
      (\<lambda>r s. same_key p h0 x s \<and> (\<forall>k. r = Some k \<longrightarrow> key_of_bytes kl x = Inr k)) (\<lambda>_. same_key p h0 x)" for k
    by (simp add: hoare_def retA_def)
  have found: "hoare (same_key p h0 x)
      (bindA (restrict_secret_key_permissions p) (\<lambda>_. bindA (parse_key kl p x) (\<lambda>k. retA (Some k))))
      (\<lambda>r s. same_key p h0 x s \<and> (\<forall>k. r = Some k \<longrightarrow> key_of_bytes kl x = Inr k)) (\<lambda>_. same_key p h0 x)"
    by (rule hoare_bind [OF same_key_restrict], rule hoare_bind [OF parse], rule fin)
  show "hoare (\<lambda>s. same_key p h0 x s \<and> (\<forall>raw. r = Inr raw \<longrightarrow> raw = x))
      (case r of
       Inr raw \<Rightarrow>
         bindA (restrict_secret_key_permissions p) (\<lambda>_. bindA (parse_key kl p raw) (\<lambda>k. retA (Some k)))
     | Inl e \<Rightarrow>
         if io_kind e = NotFound then secret_key_create kl p
         else failA (context_err (lit ''failed to read key file '' @ path_display p) (io_chain e)))
      (\<lambda>r s. same_key p h0 x s \<and> (\<forall>k. r = Some k \<longrightarrow> key_of_bytes kl x = Inr k)) (\<lambda>_. same_key p h0 x)"
  proof (cases r)
    case (Inl e)
    with create show ?thesis by (auto simp: hoare_def failA_def)
  next
    case (Inr raw)
    with found show ?thesis by (cases "raw = x") (auto simp: hoare_def)
  qed
qed

lemma load_or_create_same:
  "hoare (same_key p h0 x) (load_or_create_secret_key kl p)
    (\<lambda>k s. same_key p h0 x s \<and> key_of_bytes kl x = Inr k) (\<lambda>_. same_key p h0 x)"
  by (rule load_or_create_rule) (rule hoare_conseq [OF same_key_pass], auto split: option.splits)


lemma same_key_from_file:
  assumes "x \<noteq> []"
  shows "hoare (same_key p h0 x) (load_or_create_secret_key_from_file kl p)
    (\<lambda>k s. same_key p h0 x s \<and> key_of_bytes kl x = Inr k) (\<lambda>_. same_key p h0 x)"
  unfolding load_or_create_secret_key_from_file_def
proof (rule hoare_bind [OF keeps_ctx [OF same_key_calls(6)]], rule hoare_bind [OF hoare_ctx [OF same_key_calls(1)]])
  fix raw
  have parse: "hoare (same_key p h0 x) (parse_key kl p x)
      (\<lambda>k s. same_key p h0 x s \<and> key_of_bytes kl x = Inr k) (\<lambda>_. same_key p h0 x)"
    by (cases "key_of_bytes kl x") (auto simp: hoare_def parse_key_def liftA_def)
  have found: "hoare (same_key p h0 x)
      (bindA (restrict_secret_key_permissions p) (\<lambda>_. parse_key kl p x))
      (\<lambda>k s. same_key p h0 x s \<and> key_of_bytes kl x = Inr k) (\<lambda>_. same_key p h0 x)"
    by (rule hoare_bind [OF same_key_restrict parse])
  show "hoare (\<lambda>s. same_key p h0 x s \<and> raw = x)
      (if raw = [] then
       (\<lambda>s. let sk = generate kl s in
        bindA (restrict_secret_key_permissions p) (\<lambda>_.
        bindA (ctx (lit ''failed to truncate key file '' @ path_display p) (set_len_zero p)) (\<lambda>_.
        bindA (ctx (lit ''failed to seek key file '' @ path_display p) (seek_start p)) (\<lambda>_.
        bindA (ctx (lit ''failed to write key file '' @ path_display p) (write_all p (key_bytes kl sk))) (\<lambda>_.
        bindA (ctx (lit ''failed to sync key file '' @ path_display p) (sync_file p)) (\<lambda>_. retA sk))))) s)
     else bindA (restrict_secret_key_permissions p) (\<lambda>_. parse_key kl p raw))
      (\<lambda>k s. same_key p h0 x s \<and> key_of_bytes kl x = Inr k) (\<lambda>_. same_key p h0 x)"
    using found assms by (cases "raw = x") (auto simp: hoare_def)
qed

lemma same_key_lock: "keeps (same_key p h0 x) (lock_serve_key_file p None)"
  unfolding lock_serve_key_file_def serve_key_path_def Let_def option.case
  by (intro keeps_bind keeps_mapErr keeps_ctx same_key_dir same_key_restrict same_key_calls)

text \<open>A lock that another process holds.\<close>

lemma locked_calls:
  "keeps (\<lambda>s. locked s p) (create_dir_all d)" "keeps (\<lambda>s. locked s p) (open_or_create m p)"
  "hoare (\<lambda>s. locked s p) (try_lock p) (\<lambda>_ _. False) (\<lambda>_ s. locked s p)"
  unfolding create_dir_all_def open_or_create_def try_lock_def
  by (rule hoare_fs_op [where J = "\<lambda>s. locked s p"], simp add: take_turn_frame;
      auto simp: no_effect_def split: option.splits if_splits)+

lemma locked_dir: "keeps (\<lambda>s. locked s p) (create_key_dir p)"
  unfolding create_key_dir_def
  by (auto split: option.splits intro!: keeps_ctx keeps_ret locked_calls)

lemma locked_fails:
  "hoare (\<lambda>s. locked s p) (lock_serve_key_file p None) (\<lambda>_ _. False) (\<lambda>_ _. True)"
  unfolding lock_serve_key_file_def serve_key_path_def Let_def option.case
  by (rule hoare_conseq [where E = "\<lambda>_ s. locked s p" and Q = "\<lambda>_ _. False" and P = "\<lambda>s. locked s p"],
      rule hoare_bind [OF locked_dir], rule hoare_bind [OF keeps_ctx [OF locked_calls(2)]],
      rule hoare_bind [OF hoare_mapErr [OF locked_calls(3)]]) (auto simp: hoare_def)


section \<open>Properties\<close>

text \<open>C10. A key file that exists is never overwritten: whatever calls fail, at every moment the
  process may be killed its contents are what they were, and a key that is returned is the
  one they encode.\<close>

theorem existing_key_survives:
  assumes "quiet ((=) p) s" and "files s p = Some f" and "load_or_create_secret_key kl p s = (r, t)"
  shows "(\<exists>h. hist t = hist s @ h \<and> list_all (\<lambda>m. map_option content (m p) = Some (content f)) h) \<and>
    map_option content (files t p) = Some (content f) \<and>
    (case r of Inr k \<Rightarrow> key_of_bytes kl (content f) = Inr k | Inl _ \<Rightarrow> True)"
proof -
  have pre: "same_key p (hist s) (content f) s" using assms(1,2) by (simp add: same_key_def)
  note rule = load_or_create_same [where kl = kl and p = p and x = "content f" and ?h0.0 = "hist s"]
  have "same_key p (hist s) (content f) t \<and> (\<forall>k. r = Inr k \<longrightarrow> key_of_bytes kl (content f) = Inr k)"
    using hoareD_ok [OF rule pre] hoareD_err [OF rule pre] assms(3) by (cases r) auto
  then show ?thesis by (auto simp: same_key_def seen_def split: sum.splits)
qed

text \<open>Keys of one byte, and an empty file system, for the witnesses.\<close>

definition byte_keys :: "byte key_lib" where
  "byte_keys = \<lparr>key_bytes = (\<lambda>k. [k]),
     key_of_bytes = (\<lambda>bs. case bs of [k] \<Rightarrow> Inr k | _ \<Rightarrow> Inl (lit ''bad length'')), generate = (\<lambda>_. 5)\<rparr>"

definition key_fs :: "fentry option \<Rightarrow> turn list \<Rightarrow> fs" where
  "key_fs f ts = \<lparr>files = (\<lambda>q. if q = [[107]] then f else None), dirs = (\<lambda>_. False), locked = (\<lambda>_. False),
     turns = ts, hist = [], pid = 1, temp_counter = 0\<rparr>"

lemma byte_keys_parse: "key_of_bytes byte_keys bs = Inr k \<longleftrightarrow> bs = [k]"
  by (auto simp: byte_keys_def split: list.splits)

lemma byte_keys_ok: "key_lib_ok byte_keys"
  by (simp add: key_lib_ok_def byte_keys_def)

lemma key_fs_calm: "quiet ((=) [[107]]) (key_fs f [])"
  by (simp add: quiet_def key_fs_def)

lemmas key_eval = load_or_create_secret_key.simps secret_key_pass_def secret_key_create_def
  secret_key_store_def open_secret_key_for_create_def restrict_secret_key_permissions_def
  create_key_dir_def parse_key_def ctx_def create_dir_all_def create_new_def write_all_def sync_file_def
  fs_read_def metadata_mode_def set_permissions_def fs_op_def take_turn_def bindA_def mapErrA_def
  attemptA_def liftA_def retA_def failA_def path_parent_def append_to_def log_state_def Let_def
  no_effect_def apply_others_def owner_only_def not_found_def key_fs_def byte_keys_def

lemma new_key_run:
  "fst (load_or_create_secret_key byte_keys [[107]] (key_fs None [])) = Inr 5"
  by (simp add: key_eval)

lemma old_key_run:
  "fst (load_or_create_secret_key byte_keys [[107]] (key_fs (Some \<lparr>content = [9], fmode = 420\<rparr>) [])) = Inr 9"
  by (simp add: key_eval)

theorem existing_key_survives_witness:
  "map_option content (files (snd (load_or_create_secret_key byte_keys [[107]]
     (key_fs (Some \<lparr>content = [9], fmode = 420\<rparr>) []))) [[107]]) = Some [9]"
  using existing_key_survives [OF key_fs_calm _ surjective_pairing, of "Some \<lparr>content = [9], fmode = 420\<rparr>"
      "\<lparr>content = [9], fmode = 420\<rparr>" byte_keys]
  by (simp add: key_fs_def)

text \<open>C26. Whatever calls fail before: a key that is returned, loaded or freshly created, is the
  one in the file, the file is readable and writable by its owner only, and every later
  load that succeeds returns the same key.\<close>

theorem returned_key_is_stored:
  assumes "key_lib_ok kl" and "quiet ((=) p) s"
    and "load_or_create_secret_key kl p s = (Inr k, t)"
  shows "\<exists>f. files t p = Some f \<and> key_of_bytes kl (content f) = Inr k \<and> fmode f mod 512 = owner_only \<and>
    (\<forall>k' u. load_or_create_secret_key kl p t = (Inr k', u) \<longrightarrow> k' = k)"
proof -
  have "holds p (key_ready kl k) t" by (rule hoareD_ok [OF load_or_create_ready [OF assms(1)] assms(2,3)])
  then obtain f where f: "calm p t" "files t p = Some f" "key_of_bytes kl (content f) = Inr k" "restricted f"
    by (auto simp: holds_def key_ready_def)
  have pre: "same_key p (hist t) (content f) t" using f by (simp add: same_key_def)
  have "k' = k" if "load_or_create_secret_key kl p t = (Inr k', u)" for k' u
    using hoareD_ok [OF load_or_create_same pre that] f(3) by simp
  with f show ?thesis by (auto simp: restricted_def)
qed

theorem returned_key_is_stored_witness:
  "\<exists>f. files (snd (load_or_create_secret_key byte_keys [[107]] (key_fs None []))) [[107]] = Some f \<and>
     content f = [5] \<and> fmode f mod 512 = 384"
proof -
  have "load_or_create_secret_key byte_keys [[107]] (key_fs None []) =
      (Inr 5, snd (load_or_create_secret_key byte_keys [[107]] (key_fs None [])))"
    using new_key_run by (simp add: prod_eq_iff)
  from returned_key_is_stored [OF byte_keys_ok key_fs_calm this]
  show ?thesis unfolding byte_keys_parse owner_only_def by blast
qed

text \<open>C27. A server cannot take a key file whose lock another server holds, and a key file with
  contents is never overwritten by a server either: with the lock held elsewhere the call
  fails, and in every case the contents stay and a returned key is the one they encode.\<close>

theorem serve_key_lock_excludes:
  assumes "quiet ((=) p) s" and "files s p = Some f" and "content f \<noteq> []"
    and "load_or_create_serve_key_and_lock kl p None s = (r, t)"
  shows "(locked s p \<longrightarrow> \<not> is_ok r) \<and> map_option content (files t p) = Some (content f) \<and>
    (case r of Inr k \<Rightarrow> key_of_bytes kl (content f) = Inr k | Inl _ \<Rightarrow> True)"
proof -
  have pre: "same_key p (hist s) (content f) s" using assms(1,2) by (simp add: same_key_def)
  have rule: "hoare (same_key p (hist s) (content f)) (load_or_create_serve_key_and_lock kl p None)
      (\<lambda>k u. same_key p (hist s) (content f) u \<and> key_of_bytes kl (content f) = Inr k)
      (\<lambda>_. same_key p (hist s) (content f))"
    unfolding load_or_create_serve_key_and_lock_def serve_key_path_def option.case
    by (rule hoare_bind [OF same_key_lock same_key_from_file [OF assms(3)]])
  have "hoare (\<lambda>s. locked s p) (load_or_create_serve_key_and_lock kl p None) (\<lambda>_ _. False) (\<lambda>_ _. True)"
    unfolding load_or_create_serve_key_and_lock_def
    by (rule hoare_bind [OF locked_fails]) (simp add: hoare_def)
  with assms(4) have "locked s p \<longrightarrow> \<not> is_ok r" by (cases r) (auto simp: hoare_def)
  moreover have "same_key p (hist s) (content f) t \<and> (\<forall>k. r = Inr k \<longrightarrow> key_of_bytes kl (content f) = Inr k)"
    using hoareD_ok [OF rule pre] hoareD_err [OF rule pre] assms(4) by (cases r) auto
  ultimately show ?thesis by (auto simp: same_key_def split: sum.splits)
qed

theorem serve_key_lock_excludes_witness:
  "\<not> is_ok (fst (load_or_create_serve_key_and_lock byte_keys [[107]] None
     (key_fs (Some \<lparr>content = [9], fmode = 420\<rparr>) []\<lparr>locked := (\<lambda>_. True)\<rparr>)))"
  using serve_key_lock_excludes [OF _ _ _ surjective_pairing, of "[[107]]"
      "key_fs (Some \<lparr>content = [9], fmode = 420\<rparr>) []\<lparr>locked := (\<lambda>_. True)\<rparr>"
      "\<lparr>content = [9], fmode = 420\<rparr>" byte_keys]
  by (simp add: key_fs_def quiet_def)

text \<open>A key file whose contents are no key.\<close>

definition bad_key :: "'k key_lib \<Rightarrow> path \<Rightarrow> byte list \<Rightarrow> fs \<Rightarrow> bool" where
  "bad_key kl p x s \<longleftrightarrow> calm p s \<and> map_option content (files s p) = Some x \<and> \<not> is_ok (key_of_bytes kl x)"

text \<open>Every load of it fails and leaves it, whatever else fails.\<close>

lemma bad_key_load:
  assumes "bad_key kl p x s"
  shows "\<not> is_ok (fst (load_or_create_secret_key kl p s))" and "bad_key kl p x (snd (load_or_create_secret_key kl p s))"
proof -
  obtain r t where run: "load_or_create_secret_key kl p s = (r, t)" by fastforce
  have pre: "same_key p (hist s) x s" using assms by (simp add: same_key_def bad_key_def)
  note rule = load_or_create_same [where kl = kl and p = p and x = x and ?h0.0 = "hist s"]
  have "same_key p (hist s) x t \<and> (\<forall>k. r = Inr k \<longrightarrow> key_of_bytes kl x = Inr k)"
    using hoareD_ok [OF rule pre] hoareD_err [OF rule pre] run by (cases r) auto
  with assms run show "\<not> is_ok (fst (load_or_create_secret_key kl p s))"
    "bad_key kl p x (snd (load_or_create_secret_key kl p s))"
    by (auto simp: bad_key_def same_key_def is_ok_iff)
qed

lemma bad_key_starts: "bad_key kl p x s \<Longrightarrow> bad_key kl p x (((\<lambda>u. snd (load_or_create_secret_key kl p u)) ^^ m) s)"
  by (induction m) (auto dest: bad_key_load(2))

text \<open>The first start: the three calls before the write succeed, the write fails after \<open>n\<close> bytes.\<close>

lemma calm_op:
  "turns s = Turn [] None # ts \<Longrightarrow> fs_op body partial s =
     (fst (body (s\<lparr>turns := ts\<rparr>)), log_state (snd (body (s\<lparr>turns := ts\<rparr>))))"
  by (simp add: fs_op_def take_turn_def apply_others_def split: prod.splits)

lemma calm_key_dir:
  assumes "p \<noteq> []" and "\<And>k. k \<le> length (butlast p) \<Longrightarrow> files s (take k (butlast p)) = None"
    and "turns s = Turn [] None # ts"
  shows "\<exists>s1. create_key_dir p s = (Inr (), s1) \<and> files s1 = files s \<and> dirs s1 p = dirs s p \<and> turns s1 = ts"
proof -
  have dir: "(\<exists>k\<le>length (butlast p). files s (take k (butlast p)) \<noteq> None) = False" by (metis assms(2))
  have "p \<noteq> take k (butlast p)" for k
    using assms(1) by (metis Suc_n_not_le_n append_butlast_last_id length_append_singleton length_take min.cobounded1)
  with assms(1,3) dir show ?thesis
    by (simp add: create_key_dir_def path_parent_def ctx_def mapErrA_def create_dir_all_def calm_op)
qed

lemma failing_start:
  assumes "p \<noteq> []" and free: "\<And>k. k \<le> length p \<Longrightarrow> files s (take k p) = None" and "\<not> dirs s p"
    and turns: "turns s = [Turn [] None, Turn [] None, Turn [] None, Turn [] (Some (e, n))] @ ts"
  shows "\<exists>sk t. load_or_create_secret_key kl p s =
      (Inl (context_err (lit ''failed to write key file '' @ path_display p) (io_chain e)), t) \<and>
    turns t = ts \<and> map_option content (files t p) = Some (take n (key_bytes kl sk))"
proof -
  have no_key: "files s p = None" using free [of "length p"] by simp
  have dir: "files s (take k (butlast p)) = None" if "k \<le> length (butlast p)" for k
    using free by (metis butlast_conv_take diff_le_self le_trans length_butlast take_take min.absorb1 that)
  from calm_key_dir [OF assms(1) dir turns [simplified]] obtain s1 where 1: "create_key_dir p s = (Inr (), s1)"
    and s1: "files s1 = files s" "dirs s1 p = dirs s p"
      "turns s1 = [Turn [] None, Turn [] None, Turn [] (Some (e, n))] @ ts" by auto
  define s2 where "s2 = log_state (s1\<lparr>turns := drop 1 (turns s1)\<rparr>)"
  have 2: "fs_read p s1 = (Inl not_found, s2)"
    using s1 assms(3) no_key by (simp add: fs_read_def calm_op s2_def)
  have s2: "files s2 p = None" "\<not> dirs s2 p" "turns s2 = [Turn [] None, Turn [] (Some (e, n))] @ ts"
    using s1 no_key assms(3) by (simp_all add: s2_def)
  let ?sk = "generate kl s2"
  define s3 where "s3 = log_state (s2\<lparr>turns := drop 1 (turns s2),
    files := (files s2)(p \<mapsto> \<lparr>content = [], fmode = owner_only\<rparr>)\<rparr>)"
  have 3: "open_secret_key_for_create p s2 = (Inr (), s3)"
    using s2 by (simp add: open_secret_key_for_create_def create_new_def calm_op s3_def)
  have s3: "files s3 p = Some \<lparr>content = [], fmode = owner_only\<rparr>" "turns s3 = Turn [] (Some (e, n)) # ts"
    using s2 by (simp_all add: s3_def)
  define s4 where "s4 = log_state (append_to p (take n (key_bytes kl ?sk)) (s3\<lparr>turns := ts\<rparr>))"
  have 4: "write_all p (key_bytes kl ?sk) s3 = (Inl e, s4)"
    using s3 by (simp add: write_all_def fs_op_def take_turn_def apply_others_def s4_def)
  have "secret_key_store kl p ?sk s2 =
      (Inl (context_err (lit ''failed to write key file '' @ path_display p) (io_chain e)), s4)"
    by (simp add: secret_key_store_def bindA_def attemptA_def 3 4 ctx_def mapErrA_def del: lit_simps)
  then have "secret_key_pass kl p s =
      (Inl (context_err (lit ''failed to write key file '' @ path_display p) (io_chain e)), s4)"
    by (simp add: secret_key_pass_def bindA_def attemptA_def 1 2 not_found_def secret_key_create_def del: lit_simps)
  moreover have "turns s4 = ts" "map_option content (files s4 p) = Some (take n (key_bytes kl ?sk))"
    using s3 by (simp_all add: s4_def)
  ultimately show ?thesis by (subst load_or_create_secret_key.simps) auto
qed

text \<open>C34. A write that fails after the key file was created blocks every later start: when no
  first \<open>n\<close> bytes of an encoded key are a key (for the 32 bytes of an iroh key, any \<open>n\<close> below
  32) and the first start's write fails after \<open>n\<close> bytes, the start reports the failed write and
  leaves those bytes in the file; and then each of any number of later starts fails too and
  leaves the file as it is, whether or not anything else fails, until somebody removes it.\<close>

theorem failed_write_blocks_later_starts:
  assumes "p \<noteq> []" and "quiet ((=) p) s"
    and "\<forall>k\<le>length p. files s (take k p) = None" and "\<not> dirs s p"
    and "turns s = [Turn [] None, Turn [] None, Turn [] None, Turn [] (Some (e, n))] @ ts"
    and "\<forall>sk. \<not> is_ok (key_of_bytes kl (take n (key_bytes kl sk)))"
  shows "\<exists>t sk. load_or_create_secret_key kl p s =
      (Inl (context_err (lit ''failed to write key file '' @ path_display p) (io_chain e)), t) \<and>
    map_option content (files t p) = Some (take n (key_bytes kl sk)) \<and>
    (\<forall>m. let later = ((\<lambda>u. snd (load_or_create_secret_key kl p u)) ^^ m) t in
       \<not> is_ok (fst (load_or_create_secret_key kl p later)) \<and>
       map_option content (files later p) = Some (take n (key_bytes kl sk)))"
proof -
  note failing_start [OF assms(1) assms(3) [rule_format] assms(4,5), of kl]
  then obtain sk t where t: "load_or_create_secret_key kl p s =
      (Inl (context_err (lit ''failed to write key file '' @ path_display p) (io_chain e)), t)"
    "turns t = ts" "map_option content (files t p) = Some (take n (key_bytes kl sk))"
    by blast
  have "quiet ((=) p) t" using assms(2,5) t(2) by (simp add: quiet_def)
  then have "bad_key kl p (take n (key_bytes kl sk)) t" using t(3) assms(6) by (simp add: bad_key_def)
  from bad_key_load(1) [OF bad_key_starts [OF this]] bad_key_starts [OF this] t(1,3) show ?thesis
    by (intro exI [of _ t] exI [of _ sk]) (simp add: Let_def bad_key_def)
qed

theorem failed_write_blocks_later_starts_witness:
  "\<exists>t. load_or_create_secret_key byte_keys [[107]]
      (key_fs None [Turn [] None, Turn [] None, Turn [] None, Turn [] (Some (IoError OtherIo [], 0))]) =
      (Inl (context_err (lit ''failed to write key file '' @ path_display [[107]]) (io_chain (IoError OtherIo []))), t) \<and>
    \<not> is_ok (fst (load_or_create_secret_key byte_keys [[107]]
      (((\<lambda>u. snd (load_or_create_secret_key byte_keys [[107]] u)) ^^ 9) t)))"
proof -
  let ?s = "key_fs None [Turn [] None, Turn [] None, Turn [] None, Turn [] (Some (IoError OtherIo [], 0))]"
  have "quiet ((=) [[107]]) ?s" "\<forall>k\<le>length [[107]]. files ?s (take k [[107]]) = None" "\<not> dirs ?s [[107]]"
    "turns ?s = [Turn [] None, Turn [] None, Turn [] None, Turn [] (Some (IoError OtherIo [], 0))] @ []"
    by (simp_all add: key_fs_def quiet_def quiet_turn_def)
  moreover have "\<forall>sk. \<not> is_ok (key_of_bytes byte_keys (take 0 (key_bytes byte_keys sk)))"
    by (simp add: byte_keys_def)
  ultimately obtain t where "load_or_create_secret_key byte_keys [[107]] ?s =
      (Inl (context_err (lit ''failed to write key file '' @ path_display [[107]]) (io_chain (IoError OtherIo []))), t)"
    "\<forall>m. \<not> is_ok (fst (load_or_create_secret_key byte_keys [[107]]
      (((\<lambda>u. snd (load_or_create_secret_key byte_keys [[107]] u)) ^^ m) t)))"
    using failed_write_blocks_later_starts [of "[[107]]" ?s "IoError OtherIo []" 0 "[]" byte_keys]
    unfolding Let_def by blast
  then show ?thesis by blast
qed

end
