(* ===== verification/Control_Client.thy ===== *)
theory Control_Client
  imports Proxy_Service Fault_Fs
begin

text \<open>
  The client side of the control interface (\<open>src/control.rs\<close>). The world of a command line
  process is the daemon it talks to, if one is running, the link to it, the files, the lines
  printed, a clock in milliseconds and the argument lists of the processes it started. Every
  use of the link takes one of its turns: other clients may have sent requests in between,
  the link may be down, lose the call, or lose the reply of a call that the daemon has
  carried out, and the use takes any time. A link without turns answers at once. The code
  sets no time limit on a call; a call that is never answered has no turn in the model.
\<close>

section \<open>Capabilities\<close>

datatype platform = Linux | MacOS | Windows

record capabilities =
  live_control :: bool
  state_stream :: bool
  transport_label :: rstr

fun control_transport_label :: "platform \<Rightarrow> rstr" where
  "control_transport_label Linux = lit ''dbus''"
| "control_transport_label MacOS = lit ''zbus-p2p-uds''"
| "control_transport_label Windows = lit ''zbus-p2p-windows-uds''"

text \<open>\<open>std::env::consts::OS\<close>.\<close>

fun os_name :: "platform \<Rightarrow> rstr" where
  "os_name Linux = lit ''linux''"
| "os_name MacOS = lit ''macos''"
| "os_name Windows = lit ''windows''"

definition capabilities_of :: "platform \<Rightarrow> capabilities" where
  "capabilities_of pf = \<lparr>live_control = True, state_stream = True,
     transport_label = control_transport_label pf\<rparr>"

definition p2p_control_socket_path :: "path option \<Rightarrow> path" where
  "p2p_control_socket_path tmpdir =
     (case tmpdir of Some d \<Rightarrow> d | None \<Rightarrow> [lit ''tmp'']) @ [lit ''iroh-proxy'', lit ''control.sock'']"


section \<open>The link\<close>

text \<open>
  What a client relies on: how endpoint ids are parsed and shown and addresses bound on the
  daemon's side, and the text of a refused call and of a call that nobody answers.
\<close>

record 'i client_env =
  ce_parse_id :: "rstr \<Rightarrow> rstr + 'i"
  ce_bind :: "rstr \<Rightarrow> io_error + unit"
  ce_show_id :: "'i \<Rightarrow> rstr"
  ce_refused :: "fdo_error \<Rightarrow> rstr"
  ce_nobody :: rstr

datatype link_fault = LinkDown error | CallLost rstr | ReplyLost rstr

datatype link_turn = LinkTurn (lk_others: "request list") (lk_fault: "link_fault option") (lk_ms: nat)

record 'i world =
  w_daemon :: "'i daemon option"
  w_link :: "link_turn list"
  w_fs :: fs
  w_out :: "rstr list"
  w_clock :: nat
  w_spawned :: "rstr list list"

definition other_requests :: "'i client_env \<Rightarrow> request list \<Rightarrow> 'i daemon \<Rightarrow> 'i daemon" where
  "other_requests env rs d = fold (\<lambda>r d. snd (handle (ce_parse_id env) (ce_bind env) r d)) rs d"

definition take_link :: "'i client_env \<Rightarrow> 'i world \<Rightarrow> link_fault option \<times> 'i world" where
  "take_link env w =
     (case w_link w of
        [] \<Rightarrow> (None, w)
      | t # ts \<Rightarrow> (lk_fault t, w\<lparr>w_link := ts, w_clock := w_clock w + lk_ms t,
          w_daemon := map_option (other_requests env (lk_others t)) (w_daemon w)\<rparr>))"

text \<open>One call: build the proxy, send the call, and show its error as \<open>method failed: err\<close>.\<close>

definition proxy_failed :: "error \<Rightarrow> error" where
  "proxy_failed e = context_err (lit ''failed to connect to iroh-proxy control interface'') e"

definition call_failed :: "rstr \<Rightarrow> rstr \<Rightarrow> error" where
  "call_failed meth err = anyhow (meth @ lit '' failed: '' @ err)"

definition rpc ::
  "'i client_env \<Rightarrow> rstr \<Rightarrow> ('i daemon, fdo_error, 'a) act \<Rightarrow> ('i world, error, 'a) act" where
  "rpc env meth call w =
     (case take_link env w of
        (Some (LinkDown e), w1) \<Rightarrow> (Inl (proxy_failed e), w1)
      | (Some (CallLost err), w1) \<Rightarrow> (Inl (call_failed meth err), w1)
      | (lost, w1) \<Rightarrow>
          (case w_daemon w1 of
             None \<Rightarrow> (Inl (call_failed meth (ce_nobody env)), w1)
           | Some d \<Rightarrow>
               (case call d of (r, d') \<Rightarrow>
                  ((case lost of
                      Some (ReplyLost err) \<Rightarrow> Inl (call_failed meth err)
                    | _ \<Rightarrow> map_err (\<lambda>e. call_failed meth (ce_refused env e)) r),
                   w1\<lparr>w_daemon := Some d'\<rparr>))))"

definition connect :: "'i client_env \<Rightarrow> ('i world, error, unit) act" where
  "connect env w =
     (case take_link env w of
        (Some (LinkDown e), w1) \<Rightarrow> (Inl e, w1)
      | (_, w1) \<Rightarrow> (Inr (), w1))"


section \<open>The calls\<close>

record status_info =
  si_endpoint_id :: rstr
  si_connections :: nat
  si_served :: nat
  si_forwards :: nat

record active_row =
  ar_id :: "64 word"
  ar_src :: rstr
  ar_kind :: rstr
  ar_dst :: rstr

record serve_row =
  sr_name :: rstr
  sr_target :: rstr

record forward_row =
  fr_listen_addr :: rstr
  fr_remote_path :: rstr
  fr_is_persisted :: bool

text \<open>A call that only reads.\<close>

definition reading :: "('i daemon \<Rightarrow> 'a) \<Rightarrow> ('i daemon, fdo_error, 'a) act" where
  "reading q d = (Inr (q d), d)"

text \<open>\<open>status\<close> takes every failure for a stopped server.\<close>

definition client_status :: "'i client_env \<Rightarrow> ('i world, error, status_info option) act" where
  "client_status env =
     bindA (attemptA (rpc env (lit ''Status'') (reading (status (ce_show_id env))))) (\<lambda>call.
     retA (case call of
         Inr (eid, connections, served_count, fwds) \<Rightarrow>
           Some \<lparr>si_endpoint_id = eid, si_connections = connections, si_served = served_count,
             si_forwards = fwds\<rparr>
       | Inl _ \<Rightarrow> None))"

definition client_list_connections :: "'i client_env \<Rightarrow> ('i world, error, active_row list) act" where
  "client_list_connections env =
     bindA (rpc env (lit ''ListConnections'') (reading list_connections)) (\<lambda>rows.
     retA (map (\<lambda>(cid, src, kind, dst). \<lparr>ar_id = cid, ar_src = src, ar_kind = kind, ar_dst = dst\<rparr>) rows))"

definition client_list_serves :: "'i client_env \<Rightarrow> ('i world, error, serve_row list) act" where
  "client_list_serves env =
     bindA (rpc env (lit ''ListServes'') (reading list_serves)) (\<lambda>rows.
     retA (map (\<lambda>(name, tgt). \<lparr>sr_name = name, sr_target = tgt\<rparr>) rows))"

definition client_list_forwards :: "'i client_env \<Rightarrow> ('i world, error, forward_row list) act" where
  "client_list_forwards env =
     bindA (rpc env (lit ''ListForwards'') (reading (list_forwards (ce_show_id env)))) (\<lambda>rows.
     retA (map (\<lambda>(listen, remote, persisted).
       \<lparr>fr_listen_addr = listen, fr_remote_path = remote, fr_is_persisted = persisted\<rparr>) rows))"

definition client_add_forward ::
  "'i client_env \<Rightarrow> rstr \<Rightarrow> rstr \<Rightarrow> bool \<Rightarrow> nat \<Rightarrow> ('i world, error, unit) act" where
  "client_add_forward env listen remote persisted secs =
     rpc env (lit ''AddForward'') (add_forward (ce_parse_id env) (ce_bind env) listen remote persisted secs)"

definition client_del_forward :: "'i client_env \<Rightarrow> rstr \<Rightarrow> ('i world, error, unit) act" where
  "client_del_forward env listen = rpc env (lit ''DelForward'') (del_forward listen)"

definition client_add_serve :: "'i client_env \<Rightarrow> rstr \<Rightarrow> rstr \<Rightarrow> ('i world, error, unit) act" where
  "client_add_serve env name tgt = rpc env (lit ''AddServe'') (add_serve name tgt)"

definition client_del_serve :: "'i client_env \<Rightarrow> rstr \<Rightarrow> ('i world, error, unit) act" where
  "client_del_serve env name = rpc env (lit ''DelServe'') (del_serve name)"

definition connect_running :: "'i client_env \<Rightarrow> ('i world, error, status_info option) act" where
  "connect_running env =
     bindA (attemptA (connect env)) (\<lambda>c.
     case c of
       Inr _ \<Rightarrow> client_status env
     | Inl _ \<Rightarrow> retA None)"


section \<open>What a call does to the rules\<close>

definition world_ok :: "'i world \<Rightarrow> bool" where
  "world_ok w \<longleftrightarrow> (case w_daemon w of None \<Rightarrow> True | Some d \<Rightarrow> daemon_ok d) \<and>
     list_all (\<lambda>t. list_all request_ok (lk_others t)) (w_link w)"

definition live_serves :: "'i world \<Rightarrow> rstr \<Rightarrow> rstr option" where
  "live_serves w name = (case w_daemon w of None \<Rightarrow> None | Some d \<Rightarrow> sp_serves (abs_daemon d) name)"

definition live_forwards :: "'i world \<Rightarrow> rstr \<Rightarrow> ('i remote_path \<times> bool) option" where
  "live_forwards w listen = (case w_daemon w of None \<Rightarrow> None | Some d \<Rightarrow> sp_forwards (abs_daemon d) listen)"

text \<open>Whether a request of another client is about a served name or a forwarded address.\<close>

fun about_serve :: "rstr \<Rightarrow> request \<Rightarrow> bool" where
  "about_serve n (AddServe name tgt) = (n = name)"
| "about_serve n (DelServe name) = (n = name)"
| "about_serve n _ = False"

fun about_forward :: "rstr \<Rightarrow> request \<Rightarrow> bool" where
  "about_forward l (AddForward listen remote persisted secs) = (l = listen)"
| "about_forward l (DelForward listen) = (l = listen)"
| "about_forward l _ = False"

definition others_avoid :: "(request \<Rightarrow> bool) \<Rightarrow> 'i world \<Rightarrow> bool" where
  "others_avoid P w \<longleftrightarrow> list_all (\<lambda>t. list_all (\<lambda>r. \<not> P r) (lk_others t)) (w_link w)"

lemma handle_result:
  assumes "daemon_ok d" and "request_ok req" and "handle parse_id bind req d = (r, d')"
  shows "daemon_ok d'" and "is_ok r = spec_guard parse_id bind req (abs_daemon d)"
    and "abs_daemon d' = (if is_ok r then spec_apply parse_id req (abs_daemon d) else abs_daemon d)"
  using handle_refines [OF assms(1,2), of parse_id bind] assms(3) by (simp_all add: refines_spec_def)

lemma apply_serves: "\<not> about_serve n req \<Longrightarrow> sp_serves (spec_apply parse_id req a) n = sp_serves a n"
  by (cases req) (auto split: sum.splits)

lemma apply_forwards:
  "\<not> about_forward l req \<Longrightarrow> sp_forwards (spec_apply parse_id req a) l = sp_forwards a l"
  by (cases req) (auto split: sum.splits)

lemma other_requests_ok:
  "daemon_ok d \<Longrightarrow> list_all request_ok rs \<Longrightarrow> daemon_ok (other_requests env rs d)"
proof (induction rs arbitrary: d)
  case (Cons r rs)
  obtain res d' where h: "handle (ce_parse_id env) (ce_bind env) r d = (res, d')" by fastforce
  have "daemon_ok d'" using handle_result(1) [OF Cons.prems(1) _ h] Cons.prems(2) by simp
  with Cons.IH Cons.prems h show ?case by (simp add: other_requests_def)
qed (simp add: other_requests_def)

lemma other_requests_keep:
  assumes "\<And>req a. \<not> P req \<Longrightarrow> look (spec_apply (ce_parse_id env) req a) = look a"
  shows "daemon_ok d \<Longrightarrow> list_all request_ok rs \<Longrightarrow> list_all (\<lambda>r. \<not> P r) rs \<Longrightarrow>
    look (abs_daemon (other_requests env rs d)) = look (abs_daemon d)"
proof (induction rs arbitrary: d)
  case (Cons r rs)
  obtain res d' where h: "handle (ce_parse_id env) (ce_bind env) r d = (res, d')" by fastforce
  have ok: "daemon_ok d'" "look (abs_daemon d') = look (abs_daemon d)"
    using handle_result [OF Cons.prems(1) _ h] assms [of r "abs_daemon d"] Cons.prems by auto
  with Cons.IH [OF ok(1)] Cons.prems h show ?case by (simp add: other_requests_def)
qed (simp add: other_requests_def)


lemma take_link_keeps:
  assumes "take_link env w = (lost, w1)"
  shows "world_ok w \<Longrightarrow> world_ok w1" "others_avoid P w \<Longrightarrow> others_avoid P w1"
    "w_fs w1 = w_fs w" "w_out w1 = w_out w"
  using assms
  by (auto simp: take_link_def world_ok_def others_avoid_def other_requests_ok
      split: list.splits option.splits)

lemma take_link_look:
  assumes "\<And>req a. \<not> P req \<Longrightarrow> look (spec_apply (ce_parse_id env) req a) = look a"
    and "world_ok w" "others_avoid P w" "take_link env w = (lost, w1)"
  shows "map_option (\<lambda>d. look (abs_daemon d)) (w_daemon w1) = map_option (\<lambda>d. look (abs_daemon d)) (w_daemon w)"
  using assms(2-4) other_requests_keep [of P look env, OF assms(1)]
  by (auto simp: take_link_def world_ok_def others_avoid_def split: list.splits option.splits)

lemma live_serves_link:
  assumes "world_ok w" "others_avoid (about_serve n) w" "take_link env w = (lost, w1)"
  shows "live_serves w1 n = live_serves w n"
  using take_link_look [where look = "\<lambda>a. sp_serves a n", OF _ assms] apply_serves
  by (cases "w_daemon w"; cases "w_daemon w1") (auto simp: live_serves_def)

lemma live_forwards_link:
  assumes "world_ok w" "others_avoid (about_forward l) w" "take_link env w = (lost, w1)"
  shows "live_forwards w1 l = live_forwards w l"
  using take_link_look [where look = "\<lambda>a. sp_forwards a l", OF _ assms] apply_forwards
  by (cases "w_daemon w"; cases "w_daemon w1") (auto simp: live_forwards_def)

text \<open>A call that the client sees succeed was carried out by the daemon.\<close>

lemma rpc_ok:
  assumes "rpc env meth call w = (Inr a, w')" and "take_link env w = (lost, w1)"
  obtains d d' where "w_daemon w1 = Some d" and "call d = (Inr a, d')" and "w' = w1\<lparr>w_daemon := Some d'\<rparr>"
  using assms unfolding rpc_def
  by (auto split: option.splits link_fault.splits prod.splits)

text \<open>After any call the daemon is as before it, or as the call left it.\<close>

lemma rpc_effect:
  assumes "rpc env meth call w = (r, w')" and "take_link env w = (lost, w1)"
  shows "w' = w1 \<and> \<not> is_ok r \<or>
    (\<exists>d d' r'. w_daemon w1 = Some d \<and> call d = (r', d') \<and> w' = w1\<lparr>w_daemon := Some d'\<rparr> \<and>
       (is_ok r \<longrightarrow> is_ok r'))"
  using assms unfolding rpc_def
  by (auto split: option.splits link_fault.splits prod.splits)

lemma world_ok_set: "world_ok w \<Longrightarrow> daemon_ok d \<Longrightarrow> world_ok (w\<lparr>w_daemon := Some d\<rparr>)"
  by (simp add: world_ok_def)

lemma others_avoid_simps [simp]:
  "others_avoid P (w\<lparr>w_daemon := d\<rparr>) = others_avoid P w"
  "others_avoid P (w\<lparr>w_fs := s\<rparr>) = others_avoid P w"
  "others_avoid P (w\<lparr>w_out := out\<rparr>) = others_avoid P w"
  "others_avoid P (w\<lparr>w_clock := n\<rparr>) = others_avoid P w"
  "others_avoid P (w\<lparr>w_spawned := a\<rparr>) = others_avoid P w"
  by (simp_all add: others_avoid_def)

lemma world_ok_simps [simp]:
  "world_ok (w\<lparr>w_fs := s\<rparr>) = world_ok w" "world_ok (w\<lparr>w_out := out\<rparr>) = world_ok w"
  "world_ok (w\<lparr>w_clock := n\<rparr>) = world_ok w" "world_ok (w\<lparr>w_spawned := a\<rparr>) = world_ok w"
  by (simp_all add: world_ok_def)

lemma live_simps [simp]:
  "live_serves (w\<lparr>w_fs := s\<rparr>) = live_serves w" "live_serves (w\<lparr>w_out := out\<rparr>) = live_serves w"
  "live_forwards (w\<lparr>w_fs := s\<rparr>) = live_forwards w" "live_forwards (w\<lparr>w_out := out\<rparr>) = live_forwards w"
  by (simp_all add: live_serves_def live_forwards_def fun_eq_iff)

text \<open>A call that sends a request.\<close>

lemma rpc_keeps:
  assumes "world_ok w" and "request_ok req" and "others_avoid P w"
    and "rpc env meth (handle (ce_parse_id env) (ce_bind env) req) w = (r, w')"
  shows "world_ok w'" and "others_avoid P w'" and "w_fs w' = w_fs w" and "w_out w' = w_out w"
proof -
  obtain lost w1 where t: "take_link env w = (lost, w1)" by fastforce
  note k = take_link_keeps [OF t]
  have "world_ok w' \<and> others_avoid P w' \<and> w_fs w' = w_fs w \<and> w_out w' = w_out w"
    using rpc_effect [OF assms(4) t]
  proof (elim disjE exE conjE)
    fix d d' r' assume d: "w_daemon w1 = Some d" "handle (ce_parse_id env) (ce_bind env) req d = (r', d')"
      "w' = w1\<lparr>w_daemon := Some d'\<rparr>"
    have "daemon_ok d" using k(1) [OF assms(1)] d(1) by (simp add: world_ok_def)
    from handle_result(1) [OF this assms(2) d(2)] k assms(1,3) d(3) show ?thesis
      by (simp add: world_ok_set)
  qed (use k assms(1,3) in simp)
  then show "world_ok w'" "others_avoid P w'" "w_fs w' = w_fs w" "w_out w' = w_out w" by auto
qed

lemma rpc_done:
  assumes "world_ok w" and "request_ok req"
    and "rpc env meth (handle (ce_parse_id env) (ce_bind env) req) w = (Inr (), w')"
    and "take_link env w = (lost, w1)"
  obtains d d' where "w_daemon w1 = Some d" and "w_daemon w' = Some d'"
    and "spec_guard (ce_parse_id env) (ce_bind env) req (abs_daemon d)"
    and "abs_daemon d' = spec_apply (ce_parse_id env) req (abs_daemon d)"
proof -
  from rpc_ok [OF assms(3,4)] obtain d d' where d: "w_daemon w1 = Some d"
    "handle (ce_parse_id env) (ce_bind env) req d = (Inr (), d')" "w' = w1\<lparr>w_daemon := Some d'\<rparr>" by metis
  have "daemon_ok d" using take_link_keeps(1) [OF assms(4,1)] d(1) by (simp add: world_ok_def)
  from handle_result [OF this assms(2) d(2)] d that show thesis by simp
qed

end
