(* ===== verification/Cli_Commands.thy ===== *)
theory Cli_Commands
  imports Control_Client Config_File
begin

text \<open>
  The commands that talk to a running server (\<open>src/main.rs\<close>): starting one in the background
  and waiting for it, printing its status, and the add and delete commands, which change the
  server's rules and the configuration file and undo the first change when the second fails.
\<close>

section \<open>Definitions\<close>

definition println :: "rstr \<Rightarrow> ('i world, 'e, unit) act" where
  "println line w = (Inr (), w\<lparr>w_out := w_out w @ [line]\<rparr>)"

definition on_fs :: "(fs, 'e, 'a) act \<Rightarrow> ('i world, 'e, 'a) act" where
  "on_fs m w = (case m (w_fs w) of (r, s) \<Rightarrow> (r, w\<lparr>w_fs := s\<rparr>))"

definition sleep_ms :: "nat \<Rightarrow> ('i world, 'e, unit) act" where
  "sleep_ms n w = (Inr (), w\<lparr>w_clock := w_clock w + n\<rparr>)"

text \<open>
  Starting a server: the path of the program and whether the process can be started, which
  daemon has come up by the \<open>i\<close>-th poll, and what \<open>try_wait\<close> says of the child then.
\<close>

record 'i startup =
  su_exe :: "io_error + rstr"
  su_spawn :: "io_error + unit"
  su_boot :: "nat \<Rightarrow> 'i daemon option"
  su_wait :: "nat \<Rightarrow> io_error + rstr option"

definition server_args :: "rstr option \<Rightarrow> rstr \<Rightarrow> bool \<Rightarrow> rstr list" where
  "server_args key_file config_file mdns =
     (case key_file of Some p \<Rightarrow> [lit ''--key-file'', p] | None \<Rightarrow> []) @
     (if mdns then [] else [lit ''--no-mdns'']) @
     [lit ''--config-file'', config_file, lit ''server'']"

definition boot :: "'i startup \<Rightarrow> nat \<Rightarrow> ('i world, 'e, unit) act" where
  "boot su i w = (Inr (), w\<lparr>w_daemon := (case w_daemon w of Some d \<Rightarrow> Some d | None \<Rightarrow> su_boot su i)\<rparr>)"

text \<open>The messages of a caller, and the poll loop, with \<open>n\<close> of its 30 rounds left.\<close>

record startup_texts =
  ut_spawn :: rstr
  ut_wait :: rstr
  ut_exited :: rstr
  ut_timeout :: rstr

fun await_server ::
  "'i client_env \<Rightarrow> 'i startup \<Rightarrow> startup_texts \<Rightarrow> nat \<Rightarrow> ('i world, error, unit) act" where
  "await_server env su texts 0 = failA (anyhow (ut_timeout texts))"
| "await_server env su texts (Suc n) =
     bindA (sleep_ms 200) (\<lambda>_.
     bindA (boot su (30 - Suc n)) (\<lambda>_.
     bindA (connect_running env) (\<lambda>found.
     if found \<noteq> None then retA ()
     else
       bindA (liftA (with_context (ut_wait texts) (map_err io_chain (su_wait su (30 - Suc n))))) (\<lambda>exited.
       case exited of
         Some st \<Rightarrow> failA (anyhow (ut_exited texts @ lit '' ('' @ st @ lit '')''))
       | None \<Rightarrow> await_server env su texts n))))"

definition spawn :: "'i startup \<Rightarrow> rstr \<Rightarrow> rstr list \<Rightarrow> ('i world, error, unit) act" where
  "spawn su text args =
     bindA (liftA (with_context text (map_err io_chain (su_spawn su))))
       (\<lambda>_ w. (Inr (), w\<lparr>w_spawned := w_spawned w @ [args]\<rparr>))"

text \<open>Starting the program again as a server and waiting until it answers.\<close>

definition start_server ::
  "'i client_env \<Rightarrow> 'i startup \<Rightarrow> startup_texts \<Rightarrow> rstr option \<Rightarrow> rstr \<Rightarrow> bool \<Rightarrow> ('i world, error, unit) act" where
  "start_server env su texts key_file config_file mdns =
     bindA (liftA (with_context (lit ''failed to resolve current executable path'')
       (map_err io_chain (su_exe su)))) (\<lambda>exe.
     bindA (spawn su (ut_spawn texts) (exe # server_args key_file config_file mdns)) (\<lambda>_.
     await_server env su texts 30))"

definition server_texts :: "rstr \<Rightarrow> startup_texts" where
  "server_texts label = \<lparr>
     ut_spawn = lit ''failed to start background server process'',
     ut_wait = lit ''failed while waiting for server startup'',
     ut_exited = lit ''server exited while starting'',
     ut_timeout = lit ''timed out waiting for server to become available on '' @ label\<rparr>"

definition ensure_server_running ::
  "platform \<Rightarrow> 'i client_env \<Rightarrow> 'i startup \<Rightarrow> rstr option \<Rightarrow> rstr \<Rightarrow> bool \<Rightarrow> ('i world, error, unit) act" where
  "ensure_server_running pf env su key_file config_file mdns =
     (let caps = capabilities_of pf in
      if \<not> live_control caps
      then failA (anyhow (lit ''live control commands are not available on '' @ os_name pf @
        lit '' yet (planned transport: '' @ transport_label caps @ lit '')''))
      else
        bindA (connect_running env) (\<lambda>found.
        if found \<noteq> None then retA ()
        else start_server env su (server_texts (transport_label caps)) key_file config_file mdns))"

text \<open>The text around a rule that is added, and the two changes with the undo between them.\<close>

record rule_texts =
  rt_add_failed :: rstr
  rt_persist_failed :: rstr
  rt_rolled_back :: rstr
  rt_rollback_failed :: rstr

definition install_rule ::
  "rule_texts \<Rightarrow> bool \<Rightarrow> ('i world, error, unit) act \<Rightarrow> ('i world, error, unit) act \<Rightarrow>
   ('i world, error, unit) act \<Rightarrow> ('i world, error, unit) act" where
  "install_rule texts persistent add persist del =
     bindA (mapErrA (context_err (rt_add_failed texts)) add) (\<lambda>_.
     if persistent then
       bindA (attemptA (mapErrA (context_err (rt_persist_failed texts)) persist)) (\<lambda>stored.
       case stored of
         Inl err \<Rightarrow>
           bindA (attemptA del) (\<lambda>rollback.
           failA (case rollback of
               Inr _ \<Rightarrow> context_err (rt_rolled_back texts) err
             | Inl rollback_err \<Rightarrow>
                 context_err (rt_rollback_failed texts @ display_err rollback_err) err))
       | Inr _ \<Rightarrow> retA ())
     else retA ())"

definition announce :: "rstr \<Rightarrow> rstr \<Rightarrow> bool \<Rightarrow> ('i world, error, unit) act" where
  "announce stored_line added_line persistent =
     bindA (if persistent then println stored_line else retA ()) (\<lambda>_. println added_line)"

definition arrow :: "rstr \<Rightarrow> rstr \<Rightarrow> rstr" where
  "arrow a b = a @ lit '' -> '' @ b"

definition forward_texts :: "path \<Rightarrow> rule_texts" where
  "forward_texts p = \<lparr>
     rt_add_failed = lit ''failed to add forward rule to running server'',
     rt_persist_failed = lit ''failed to persist forward rule to config '' @ path_display p,
     rt_rolled_back = lit ''rolled back runtime forward after persistence failure'',
     rt_rollback_failed = lit ''failed to roll back runtime forward after persistence failure: ''\<rparr>"

definition serve_texts :: "path \<Rightarrow> rule_texts" where
  "serve_texts p = \<lparr>
     rt_add_failed = lit ''failed to add serve route to running server'',
     rt_persist_failed = lit ''failed to persist serve rule to config '' @ path_display p,
     rt_rolled_back = lit ''rolled back runtime serve after persistence failure'',
     rt_rollback_failed = lit ''failed to roll back runtime serve after persistence failure: ''\<rparr>"

definition add_forward_command ::
  "'i client_env \<Rightarrow> toml \<Rightarrow> path \<Rightarrow> ('i world, error, unit) act \<Rightarrow> bool \<Rightarrow> nat \<Rightarrow> rstr \<Rightarrow> rstr \<Rightarrow>
   ('i world, error, unit) act" where
  "add_forward_command env tm p ensure persistent secs listen remote =
     bindA ensure (\<lambda>_.
     bindA (install_rule (forward_texts p) persistent
       (client_add_forward env listen remote persistent secs)
       (on_fs (add_persistent_forward_rule (ce_parse_id env) tm p listen remote secs))
       (client_del_forward env listen)) (\<lambda>_.
     announce (lit ''persisted forward rule in '' @ path_display p @ lit '': '' @ arrow listen remote)
       (lit ''added forward: '' @ arrow listen remote) persistent))"

definition add_serve_command ::
  "'i client_env \<Rightarrow> toml \<Rightarrow> path \<Rightarrow> ('i world, error, unit) act \<Rightarrow> bool \<Rightarrow> rstr \<Rightarrow> rstr \<Rightarrow>
   ('i world, error, unit) act" where
  "add_serve_command env tm p ensure persistent name tgt =
     bindA ensure (\<lambda>_.
     bindA (install_rule (serve_texts p) persistent
       (client_add_serve env name tgt)
       (on_fs (add_persistent_serve_rule tm p name tgt))
       (client_del_serve env name)) (\<lambda>_.
     announce (lit ''persisted serve rule in '' @ path_display p @ lit '': '' @ arrow name tgt)
       (lit ''added serve: '' @ arrow name tgt) persistent))"

definition del_serve_command :: "'i client_env \<Rightarrow> rstr \<Rightarrow> ('i world, error, unit) act" where
  "del_serve_command env name =
     bindA (mapErrA (context_err (lit ''failed to remove serve route from running server''))
       (bindA (connect env) (\<lambda>_. client_del_serve env name))) (\<lambda>_.
     println (lit ''deleted serve: '' @ name))"

definition del_forward_command ::
  "'i client_env \<Rightarrow> toml \<Rightarrow> path \<Rightarrow> bool \<Rightarrow> rstr \<Rightarrow> ('i world, error, unit) act" where
  "del_forward_command env tm p persistent listen =
     bindA (mapErrA (context_err (lit ''failed to remove forward rule from running server''))
       (bindA (connect env) (\<lambda>_. client_del_forward env listen))) (\<lambda>_.
     bindA (println (lit ''deleted forward: '' @ listen)) (\<lambda>_.
     if persistent then
       bindA (mapErrA (context_err (lit ''failed to update persisted forwards in '' @ path_display p))
         (on_fs (remove_persistent_forward_rule_by_listen tm p listen))) (\<lambda>removed.
       println (if removed
         then lit ''removed persisted forward in '' @ path_display p @ lit '': '' @ listen
         else lit ''no persisted forward matching '' @ quoted listen @ lit '' in '' @ path_display p))
     else retA ()))"



section \<open>Rules of a running server\<close>

lemma announce_ok: "is_ok (fst (announce a b persistent w))"
  by (simp add: announce_def println_def retA_def bindA_def)

lemma is_ok_announced: "is_ok (fst (bindA m (\<lambda>_. announce a b persistent) w)) = is_ok (fst (m w))"
  by (auto simp: bindA_def announce_ok split: prod.splits sum.splits)

lemma announced:
  assumes "bindA m (\<lambda>_. announce a b persistent) w = (r, w')"
  shows "\<exists>w1. m w = (r, w1) \<and> w_fs w' = w_fs w1 \<and> live_serves w' = live_serves w1 \<and>
    live_forwards w' = live_forwards w1"
  using assms
  by (cases rule: bindA_cases)
    (auto simp: announce_def println_def retA_def bindA_def split: if_splits)

text \<open>
  What the add commands need of the rules behind the control interface: an addition that
  succeeds was new and is there, a deletion that succeeds leaves nothing, and neither touches
  the files.
\<close>

locale runtime_rules =
  fixes add :: "('i world, error, unit) act"
    and del :: "('i world, error, unit) act"
    and look :: "'i world \<Rightarrow> 'v option"
    and val :: 'v
    and ok :: "'i world \<Rightarrow> bool"
  assumes add_ok: "ok w \<Longrightarrow> add w = (Inr (), w') \<Longrightarrow> look w = None \<and> look w' = Some val"
    and add_keeps: "ok w \<Longrightarrow> add w = (r, w') \<Longrightarrow> ok w' \<and> w_fs w' = w_fs w"
    and del_ok: "ok w \<Longrightarrow> del w = (Inr (), w') \<Longrightarrow> look w' = None"
    and del_keeps: "ok w \<Longrightarrow> del w = (r, w') \<Longrightarrow> w_fs w' = w_fs w"
    and look_fs: "look (w\<lparr>w_fs := s\<rparr>) = look w"
    and look_out: "look (w\<lparr>w_out := out\<rparr>) = look w"
    and ok_fs: "ok (w\<lparr>w_fs := s\<rparr>) = ok w"
begin

definition added :: "bool \<Rightarrow> (fs, error, unit) act \<Rightarrow> 'i world \<Rightarrow> 'i world \<Rightarrow> bool" where
  "added persistent persist w w' \<longleftrightarrow> look w = None \<and> look w' = Some val \<and>
     (if persistent then persist (w_fs w) = (Inr (), w_fs w') else w_fs w' = w_fs w)"

definition refused :: "rule_texts \<Rightarrow> 'i world \<Rightarrow> error \<Rightarrow> 'i world \<Rightarrow> bool" where
  "refused texts w e w' \<longleftrightarrow> (\<exists>e1. e = context_err (rt_add_failed texts) e1) \<and> w_fs w' = w_fs w"

definition undone :: "rule_texts \<Rightarrow> (fs, error, unit) act \<Rightarrow> 'i world \<Rightarrow> error \<Rightarrow> 'i world \<Rightarrow> bool" where
  "undone texts persist w e w' \<longleftrightarrow> look w = None \<and> (\<exists>e0 e1. persist (w_fs w) = (Inl e0, w_fs w') \<and>
     (e = context_err (rt_rolled_back texts) e1 \<and> look w' = None \<or>
      (\<exists>rest. e = context_err (rt_rollback_failed texts @ rest) e1)))"

lemma install_rule_undone:
  assumes "ok w" and "add w = (Inr (), w1)" and "persist (w_fs w) = (Inl e0, s)"
    and "install_rule texts True add (on_fs persist) del w = (r, w')"
  shows "\<exists>e. r = Inl e \<and> undone texts persist w e w'"
proof -
  note keep = add_keeps [OF assms(1,2)] and new = add_ok [OF assms(1,2)]
  obtain rd w2 where d: "del (w1\<lparr>w_fs := s\<rparr>) = (rd, w2)" by fastforce
  have okd: "ok (w1\<lparr>w_fs := s\<rparr>)" using keep by (simp add: ok_fs)
  have fs: "w_fs w2 = s" using del_keeps [OF okd d] by simp
  have look: "rd = Inr () \<longrightarrow> look w2 = None" using del_ok [OF okd] d by simp
  show ?thesis
  proof (cases rd)
    case (Inl e2)
    with assms keep d have "r = Inl (context_err (rt_rollback_failed texts @ display_err e2)
        (context_err (rt_persist_failed texts) e0))" "w' = w2"
      by (auto simp: install_rule_def bindA_def mapErrA_def attemptA_def on_fs_def failA_def)
    with assms(3) fs new show ?thesis unfolding undone_def by blast
  next
    case (Inr u2)
    with assms keep d fs new look show ?thesis
      by (auto simp: install_rule_def bindA_def mapErrA_def attemptA_def on_fs_def failA_def undone_def)
  qed
qed

lemma install_rule_outcome:
  assumes "ok w" and "install_rule texts persistent add (on_fs persist) del w = (r, w')"
  shows "case r of
      Inr _ \<Rightarrow> added persistent persist w w'
    | Inl e \<Rightarrow> refused texts w e w' \<or> persistent \<and> undone texts persist w e w'"
proof (cases "add w")
  case (Pair r1 w1)
  note keep = add_keeps [OF assms(1) Pair]
  show ?thesis
  proof (cases r1)
    case (Inl e1)
    with Pair assms(2) keep show ?thesis
      by (auto simp: install_rule_def bindA_def mapErrA_def refused_def)
  next
    case (Inr u)
    with Pair have a: "add w = (Inr (), w1)" by simp
    note new = add_ok [OF assms(1) a]
    obtain rp s where p: "persist (w_fs w) = (rp, s)" by fastforce
    consider (live) "\<not> persistent" | (stored) v where "persistent" "rp = Inr v" | (failed) e0 where "persistent" "rp = Inl e0"
      by (cases rp) auto
    then show ?thesis
    proof cases
      case live
      with a new keep assms(2) look_out show ?thesis
        by (auto simp: install_rule_def bindA_def mapErrA_def retA_def println_def added_def)
    next
      case stored
      with p a new keep assms(2) look_out look_fs show ?thesis
        by (auto simp: install_rule_def bindA_def mapErrA_def retA_def println_def attemptA_def on_fs_def added_def)
    next
      case failed
      with install_rule_undone [OF assms(1) a, of persist e0 s texts r w'] p assms(2) show ?thesis by auto
    qed
  qed
qed

end

text \<open>
  With a link that loses nothing, an addition that is refused changes nothing and a deletion
  of a rule that is there succeeds: then the undo cannot fail.
\<close>

locale reliable_rules = runtime_rules add del look val ok
  for add del :: "('i world, error, unit) act" and look :: "'i world \<Rightarrow> 'v option" and val :: 'v
    and ok :: "'i world \<Rightarrow> bool" +
  assumes add_refused: "ok w \<Longrightarrow> w_link w = [] \<Longrightarrow> add w = (Inl e, w') \<Longrightarrow> look w' = look w"
    and add_link: "w_link w = [] \<Longrightarrow> add w = (r, w') \<Longrightarrow> w_link w' = []"
    and del_there: "ok w \<Longrightarrow> w_link w = [] \<Longrightarrow> look w \<noteq> None \<Longrightarrow> is_ok (fst (del w))"
begin

lemma install_rule_reliable:
  assumes "ok w" and "w_link w = []"
    and "install_rule texts persistent add (on_fs persist) del w = (Inl e, w')"
  shows "look w' = look w"
proof (cases "add w")
  case (Pair r1 w1)
  note keep = add_keeps [OF assms(1) Pair] and link = add_link [OF assms(2) Pair]
  show ?thesis
  proof (cases r1)
    case (Inl e1)
    with Pair assms(3) add_refused [OF assms(1,2)] show ?thesis
      by (auto simp: install_rule_def bindA_def mapErrA_def)
  next
    case (Inr u)
    with Pair have a: "add w = (Inr (), w1)" by simp
    note new = add_ok [OF assms(1) a]
    show ?thesis
    proof (cases "persistent \<and> \<not> is_ok (fst (persist (w_fs w)))")
      case False
      obtain rp s where p: "persist (w_fs w) = (rp, s)" by fastforce
      with False have "persistent \<longrightarrow> rp = Inr ()" by (auto simp: is_ok_iff)
      with p a keep assms(3) show ?thesis
        by (cases persistent)
          (auto simp: install_rule_def bindA_def mapErrA_def retA_def println_def attemptA_def on_fs_def)
    next
      case True
      then obtain e0 s where p: "persist (w_fs w) = (Inl e0, s)"
        by (cases "persist (w_fs w)"; cases "fst (persist (w_fs w))") auto
      let ?w2 = "w1\<lparr>w_fs := s\<rparr>"
      have okd: "ok ?w2" using keep by (simp add: ok_fs)
      have "is_ok (fst (del ?w2))"
        by (rule del_there [OF okd]) (use link new look_fs in simp_all)
      then obtain w3 where d: "del ?w2 = (Inr (), w3)" by (cases "del ?w2") (auto simp: is_ok_iff)
      have "look w3 = None" by (rule del_ok [OF okd d])
      with True p a keep assms(3) d new show ?thesis
        by (auto simp: install_rule_def bindA_def mapErrA_def attemptA_def on_fs_def failA_def)
    qed
  qed
qed

end

definition serve_world :: "rstr \<Rightarrow> 'i world \<Rightarrow> bool" where
  "serve_world name w \<longleftrightarrow> world_ok w \<and> valid_str name \<and> others_avoid (about_serve name) w"

definition forward_world :: "rstr \<Rightarrow> 'i world \<Rightarrow> bool" where
  "forward_world listen w \<longleftrightarrow> world_ok w \<and> others_avoid (about_forward listen) w"

lemma client_requests:
  "client_add_serve env name tgt = rpc env (lit ''AddServe'')
     (handle (ce_parse_id env) (ce_bind env) (AddServe name tgt))"
  "client_del_serve env name = rpc env (lit ''DelServe'')
     (handle (ce_parse_id env) (ce_bind env) (DelServe name))"
  "client_add_forward env listen remote persisted secs = rpc env (lit ''AddForward'')
     (handle (ce_parse_id env) (ce_bind env) (AddForward listen remote persisted secs))"
  "client_del_forward env listen = rpc env (lit ''DelForward'')
     (handle (ce_parse_id env) (ce_bind env) (DelForward listen))"
  by (simp_all add: client_add_serve_def client_del_serve_def client_add_forward_def client_del_forward_def
      fun_eq_iff)

lemma client_keeps:
  assumes "world_ok w" "others_avoid P w" "valid_str name"
  shows "client_add_serve env name tgt w = (r, w') \<Longrightarrow> world_ok w' \<and> others_avoid P w' \<and> w_fs w' = w_fs w"
    "client_del_serve env name w = (r, w') \<Longrightarrow> world_ok w' \<and> others_avoid P w' \<and> w_fs w' = w_fs w"
    "client_add_forward env listen remote persisted secs w = (r, w') \<Longrightarrow>
       world_ok w' \<and> others_avoid P w' \<and> w_fs w' = w_fs w"
    "client_del_forward env listen w = (r, w') \<Longrightarrow> world_ok w' \<and> others_avoid P w' \<and> w_fs w' = w_fs w"
proof -
  have keep: "world_ok w' \<and> others_avoid P w' \<and> w_fs w' = w_fs w"
    if "request_ok req" "rpc env meth (handle (ce_parse_id env) (ce_bind env) req) w = (r, w')" for req meth
    using rpc_keeps [OF assms(1) that(1) assms(2) that(2)] by blast
  have ok: "request_ok (AddServe name tgt)" "request_ok (DelServe name)"
    "request_ok (AddForward listen remote persisted secs)" "request_ok (DelForward listen)"
    using assms(3) by simp_all
  show "client_add_serve env name tgt w = (r, w') \<Longrightarrow> world_ok w' \<and> others_avoid P w' \<and> w_fs w' = w_fs w"
    unfolding client_requests by (rule keep [OF ok(1)])
  show "client_del_serve env name w = (r, w') \<Longrightarrow> world_ok w' \<and> others_avoid P w' \<and> w_fs w' = w_fs w"
    unfolding client_requests by (rule keep [OF ok(2)])
  show "client_add_forward env listen remote persisted secs w = (r, w') \<Longrightarrow>
       world_ok w' \<and> others_avoid P w' \<and> w_fs w' = w_fs w"
    unfolding client_requests by (rule keep [OF ok(3)])
  show "client_del_forward env listen w = (r, w') \<Longrightarrow> world_ok w' \<and> others_avoid P w' \<and> w_fs w' = w_fs w"
    unfolding client_requests by (rule keep [OF ok(4)])
qed

interpretation serve_rule: runtime_rules "client_add_serve env name tgt" "client_del_serve env name"
    "\<lambda>w. live_serves w name" tgt "serve_world name"
  for env :: "'i client_env" and name tgt :: rstr
proof unfold_locales
  fix w w' :: "'i world" and r
  assume ok: "serve_world name w"
  then have w: "world_ok w" "others_avoid (about_serve name) w" "valid_str name"
    by (simp_all add: serve_world_def)
  obtain lost w1 where t: "take_link env w = (lost, w1)" by fastforce
  note keep = client_keeps [OF w] and live = live_serves_link [OF w(1,2) t]
  show "client_add_serve env name tgt w = (r, w') \<Longrightarrow> serve_world name w' \<and> w_fs w' = w_fs w"
    using keep(1) w(3) by (auto simp: serve_world_def)
  show "client_del_serve env name w = (r, w') \<Longrightarrow> w_fs w' = w_fs w"
    using keep(2) by blast
  show "live_serves w name = None \<and> live_serves w' name = Some tgt"
    if run: "client_add_serve env name tgt w = (Inr (), w')"
  proof -
    from rpc_done [OF w(1) _ run [unfolded client_requests] t] w(3)
    obtain d d' where "w_daemon w1 = Some d" "w_daemon w' = Some d'"
      "spec_guard (ce_parse_id env) (ce_bind env) (AddServe name tgt) (abs_daemon d)"
      "abs_daemon d' = spec_apply (ce_parse_id env) (AddServe name tgt) (abs_daemon d)" by auto
    with live show ?thesis by (simp add: live_serves_def)
  qed
  show "live_serves w' name = None" if run: "client_del_serve env name w = (Inr (), w')"
  proof -
    from rpc_done [OF w(1) _ run [unfolded client_requests] t] w(3)
    obtain d d' where "w_daemon w1 = Some d" "w_daemon w' = Some d'"
      "spec_guard (ce_parse_id env) (ce_bind env) (DelServe name) (abs_daemon d)"
      "abs_daemon d' = spec_apply (ce_parse_id env) (DelServe name) (abs_daemon d)" by auto
    then show ?thesis by (simp add: live_serves_def)
  qed
qed (simp_all add: serve_world_def)


text \<open>For the value of a forward rule the remote path must parse; it does when the call succeeds.\<close>

definition forward_value :: "'i client_env \<Rightarrow> rstr \<Rightarrow> bool \<Rightarrow> 'i remote_path \<times> bool" where
  "forward_value env remote persisted =
     (case remote_from_str (ce_parse_id env) remote of Inr rp \<Rightarrow> (rp, persisted) | Inl _ \<Rightarrow> undefined)"

interpretation forward_rule: runtime_rules "client_add_forward env listen remote persisted secs"
    "client_del_forward env listen" "\<lambda>w. live_forwards w listen" "forward_value env remote persisted"
    "forward_world listen"
  for env :: "'i client_env" and listen remote :: rstr and persisted :: bool and secs :: nat
proof unfold_locales
  fix w w' :: "'i world" and r
  assume ok: "forward_world listen w"
  then have w: "world_ok w" "others_avoid (about_forward listen) w"
    by (simp_all add: forward_world_def)
  obtain lost w1 where t: "take_link env w = (lost, w1)" by fastforce
  have v: "valid_str []" by simp
  note keep = client_keeps [OF w v] and live = live_forwards_link [OF w t]
  show "client_add_forward env listen remote persisted secs w = (r, w') \<Longrightarrow>
      forward_world listen w' \<and> w_fs w' = w_fs w"
    using keep(3) by (auto simp: forward_world_def)
  show "client_del_forward env listen w = (r, w') \<Longrightarrow> w_fs w' = w_fs w"
    using keep(4) by blast
  show "live_forwards w listen = None \<and> live_forwards w' listen = Some (forward_value env remote persisted)"
    if run: "client_add_forward env listen remote persisted secs w = (Inr (), w')"
  proof -
    from rpc_done [OF w(1) _ run [unfolded client_requests] t]
    obtain d d' where "w_daemon w1 = Some d" "w_daemon w' = Some d'"
      "spec_guard (ce_parse_id env) (ce_bind env) (AddForward listen remote persisted secs) (abs_daemon d)"
      "abs_daemon d' = spec_apply (ce_parse_id env) (AddForward listen remote persisted secs) (abs_daemon d)"
      by auto
    with live show ?thesis
      by (auto simp: live_forwards_def forward_value_def is_ok_iff)
  qed
  show "live_forwards w' listen = None" if run: "client_del_forward env listen w = (Inr (), w')"
  proof -
    from rpc_done [OF w(1) _ run [unfolded client_requests] t]
    obtain d d' where "w_daemon w1 = Some d" "w_daemon w' = Some d'"
      "spec_guard (ce_parse_id env) (ce_bind env) (DelForward listen) (abs_daemon d)"
      "abs_daemon d' = spec_apply (ce_parse_id env) (DelForward listen) (abs_daemon d)"
      by (simp only: request_ok.simps) blast
    then show ?thesis by (simp add: live_forwards_def)
  qed
qed (simp_all add: forward_world_def)

text \<open>The messages of the two commands can be told apart by their outermost text.\<close>

lemma serve_texts_simps [simp]:
  "rt_add_failed (serve_texts p) = lit ''failed to add serve route to running server''"
  "rt_rolled_back (serve_texts p) = lit ''rolled back runtime serve after persistence failure''"
  "rt_rollback_failed (serve_texts p) =
     lit ''failed to roll back runtime serve after persistence failure: ''"
  by (simp_all only: serve_texts_def rule_texts.simps)

lemma forward_texts_simps [simp]:
  "rt_add_failed (forward_texts p) = lit ''failed to add forward rule to running server''"
  "rt_rolled_back (forward_texts p) =
     lit ''rolled back runtime forward after persistence failure''"
  "rt_rollback_failed (forward_texts p) =
     lit ''failed to roll back runtime forward after persistence failure: ''"
  by (simp_all only: forward_texts_def rule_texts.simps)


text \<open>Calls over a link that loses nothing.\<close>

lemma rpc_reliable:
  assumes "w_link w = []"
  shows "rpc env meth call w = (case w_daemon w of
      None \<Rightarrow> (Inl (call_failed meth (ce_nobody env)), w)
    | Some d \<Rightarrow> (case call d of (r, d') \<Rightarrow>
        (map_err (\<lambda>e. call_failed meth (ce_refused env e)) r, w\<lparr>w_daemon := Some d'\<rparr>)))"
  using assms by (simp add: rpc_def take_link_def split: option.splits)

lemma rpc_refused:
  assumes "world_ok w" "request_ok req" "w_link w = []"
    and "rpc env meth (handle (ce_parse_id env) (ce_bind env) req) w = (Inl e, w')"
  shows "map_option abs_daemon (w_daemon w') = map_option abs_daemon (w_daemon w)"
proof (cases "w_daemon w")
  case None
  with assms(3,4) show ?thesis by (simp add: rpc_reliable)
next
  case (Some d)
  obtain r d' where h: "handle (ce_parse_id env) (ce_bind env) req d = (r, d')" by fastforce
  have "daemon_ok d" using assms(1) Some by (simp add: world_ok_def)
  from handle_result [OF this assms(2) h] h Some assms(3,4) show ?thesis
    by (cases r) (auto simp: rpc_reliable)
qed

lemma rpc_link: "w_link w = [] \<Longrightarrow> rpc env meth call w = (r, w') \<Longrightarrow> w_link w' = []"
  by (auto simp: rpc_reliable split: option.splits prod.splits)

lemma rpc_granted:
  assumes "world_ok w" "request_ok req" "w_link w = []" "w_daemon w = Some d"
    and "spec_guard (ce_parse_id env) (ce_bind env) req (abs_daemon d)"
  shows "is_ok (fst (rpc env meth (handle (ce_parse_id env) (ce_bind env) req) w))"
proof -
  obtain r d' where h: "handle (ce_parse_id env) (ce_bind env) req d = (r, d')" by fastforce
  have "daemon_ok d" using assms(1,4) by (simp add: world_ok_def)
  from handle_result [OF this assms(2) h] h assms(3-5) show ?thesis
    by (auto simp: rpc_reliable)
qed

interpretation serve_undo: reliable_rules "client_add_serve env name tgt" "client_del_serve env name"
    "\<lambda>w. live_serves w name" tgt "serve_world name"
  for env :: "'i client_env" and name tgt :: rstr
proof unfold_locales
  fix w w' :: "'i world" and r e
  show "live_serves w' name = live_serves w name"
    if "serve_world name w" "w_link w = []" "client_add_serve env name tgt w = (Inl e, w')"
  proof -
    have "map_option abs_daemon (w_daemon w') = map_option abs_daemon (w_daemon w)"
      by (rule rpc_refused [OF _ _ that(2) that(3) [unfolded client_requests]])
        (use that(1) in \<open>simp_all add: serve_world_def\<close>)
    then show ?thesis by (cases "w_daemon w"; cases "w_daemon w'") (simp_all add: live_serves_def)
  qed
  show "w_link w = [] \<Longrightarrow> client_add_serve env name tgt w = (r, w') \<Longrightarrow> w_link w' = []"
    unfolding client_requests by (rule rpc_link)
  show "is_ok (fst (client_del_serve env name w))"
    if "serve_world name w" "w_link w = []" "live_serves w name \<noteq> None"
    using rpc_granted [OF _ _ that(2), where req = "DelServe name" and env = env] that
    by (auto simp: client_requests serve_world_def live_serves_def split: option.splits)
qed

interpretation forward_undo: reliable_rules "client_add_forward env listen remote persisted secs"
    "client_del_forward env listen" "\<lambda>w. live_forwards w listen" "forward_value env remote persisted"
    "forward_world listen"
  for env :: "'i client_env" and listen remote :: rstr and persisted :: bool and secs :: nat
proof unfold_locales
  fix w w' :: "'i world" and r e
  show "live_forwards w' listen = live_forwards w listen"
    if "forward_world listen w" "w_link w = []"
      "client_add_forward env listen remote persisted secs w = (Inl e, w')"
  proof -
    have "map_option abs_daemon (w_daemon w') = map_option abs_daemon (w_daemon w)"
      by (rule rpc_refused [OF _ _ that(2) that(3) [unfolded client_requests]])
        (use that(1) in \<open>simp_all add: forward_world_def\<close>)
    then show ?thesis by (cases "w_daemon w"; cases "w_daemon w'") (simp_all add: live_forwards_def)
  qed
  show "w_link w = [] \<Longrightarrow> client_add_forward env listen remote persisted secs w = (r, w') \<Longrightarrow> w_link w' = []"
    unfolding client_requests by (rule rpc_link)
  show "is_ok (fst (client_del_forward env listen w))"
    if "forward_world listen w" "w_link w = []" "live_forwards w listen \<noteq> None"
    using rpc_granted [OF _ _ that(2), where req = "DelForward listen" and env = env] that
    by (auto simp: client_requests forward_world_def live_forwards_def split: option.splits)
qed



lemma client_add_forward_parses:
  assumes "world_ok w" and "client_add_forward env listen remote persisted secs w = (Inr (), w')"
  shows "is_ok (remote_from_str (ce_parse_id env) remote)"
proof -
  obtain lost w1 where t: "take_link env w = (lost, w1)" by fastforce
  from rpc_done [OF assms(1) _ assms(2) [unfolded client_requests] t] show ?thesis by auto
qed


text \<open>The answer of \<open>connect_running\<close>, and what a use of the link leaves alone.\<close>

definition frame :: "'i world \<Rightarrow> fs \<times> rstr list \<times> rstr list list" where
  "frame w = (w_fs w, w_out w, w_spawned w)"

text \<open>
  How long it took: at most \<open>ms\<close> milliseconds besides the time of the uses of the link, of
  which there were at most \<open>k\<close>.
\<close>

definition took :: "nat \<Rightarrow> nat \<Rightarrow> 'i world \<Rightarrow> 'i world \<Rightarrow> bool" where
  "took ms k w w' \<longleftrightarrow> (\<exists>used. w_link w = used @ w_link w' \<and> length used \<le> k \<and>
     w_clock w' \<le> w_clock w + ms + sum_list (map lk_ms used))"

lemma took_trans:
  assumes "took a k u v" and "took b l v w"
  shows "took (a + b) (k + l) u w"
proof -
  obtain xs ys where "w_link u = xs @ w_link v" "length xs \<le> k" "w_clock v \<le> w_clock u + a + sum_list (map lk_ms xs)"
    "w_link v = ys @ w_link w" "length ys \<le> l" "w_clock w \<le> w_clock v + b + sum_list (map lk_ms ys)"
    using assms by (auto simp: took_def)
  then show ?thesis unfolding took_def by (intro exI [of _ "xs @ ys"]) simp
qed

lemma took_refl: "took a k w w"
  by (simp add: took_def)

lemma took_le: "took a k w w' \<Longrightarrow> a \<le> b \<Longrightarrow> k \<le> l \<Longrightarrow> took b l w w'"
  by (fastforce simp: took_def)

lemma take_link_took: "take_link env w = (lost, w1) \<Longrightarrow> took 0 1 w w1"
  by (cases "w_link w") (auto simp: take_link_def took_def intro: exI [of _ "[_]"])

lemma rpc_took: "rpc env meth call w = (r, w') \<Longrightarrow> took 0 1 w w'"
  using rpc_effect [of env meth call w r w'] take_link_took [of env w]
  by (cases "take_link env w") (auto simp: took_def)

lemma connect_took: "connect env w = (r, w') \<Longrightarrow> took 0 1 w w'"
  using take_link_took [of env w]
  by (auto simp: connect_def split: prod.splits option.splits link_fault.splits)

lemma take_link_frame: "take_link env w = (lost, w1) \<Longrightarrow> frame w1 = frame w"
  by (auto simp: take_link_def frame_def split: list.splits)

lemma rpc_frame: "rpc env meth call w = (r, w') \<Longrightarrow> frame w' = frame w"
  using rpc_effect [of env meth call w r w'] take_link_frame [of env w]
  by (cases "take_link env w") (auto simp: frame_def)

lemma connect_frame: "connect env w = (r, w') \<Longrightarrow> frame w' = frame w"
  using take_link_frame [of env w]
  by (auto simp: connect_def split: prod.splits option.splits link_fault.splits)

lemma connect_world:
  assumes "connect env w = (r, w')" and "forward_world listen w"
  shows "forward_world listen w'"
proof -
  obtain lost w1 where t: "take_link env w = (lost, w1)" by fastforce
  with assms(1) have "w' = w1"
    by (auto simp: connect_def split: option.splits link_fault.splits)
  with take_link_keeps [OF t] assms(2) show ?thesis by (simp add: forward_world_def)
qed

lemma client_status_spec:
  assumes "client_status env w = (r, w')"
  shows "frame w' = frame w" and "\<exists>found. r = Inr found \<and> (found \<noteq> None \<longrightarrow> w_daemon w' \<noteq> None)"
    and "took 0 1 w w'"
proof -
  obtain r1 w1 where c: "rpc env (lit ''Status'') (reading (status (ce_show_id env))) w = (r1, w1)"
    by fastforce
  have r: "w' = w1" "r = Inr (case r1 of
         Inr (eid, connections, served_count, fwds) \<Rightarrow>
           Some \<lparr>si_endpoint_id = eid, si_connections = connections, si_served = served_count,
             si_forwards = fwds\<rparr>
       | Inl _ \<Rightarrow> None)"
    using assms c by (simp_all add: client_status_def bindA_def attemptA_def retA_def)
  show "frame w' = frame w" "took 0 1 w w'" using rpc_frame [OF c] rpc_took [OF c] r by simp_all
  have "w_daemon w1 \<noteq> None" if "r1 = Inr x" for x
    using rpc_effect [OF c] that by (cases "take_link env w") auto
  with r show "\<exists>found. r = Inr found \<and> (found \<noteq> None \<longrightarrow> w_daemon w' \<noteq> None)"
    by (auto split: sum.splits)
qed

lemma connect_running_spec:
  assumes "connect_running env w = (r, w')"
  shows "frame w' = frame w" and "\<exists>found. r = Inr found \<and> (found \<noteq> None \<longrightarrow> w_daemon w' \<noteq> None)"
    and "took 0 2 w w'"
proof -
  obtain rc w1 where c: "connect env w = (rc, w1)" by fastforce
  have "frame w' = frame w \<and> took 0 2 w w' \<and> (\<exists>found. r = Inr found \<and> (found \<noteq> None \<longrightarrow> w_daemon w' \<noteq> None))"
  proof (cases rc)
    case (Inl e)
    with assms c connect_frame [OF c] took_le [OF connect_took [OF c], of 0 2] show ?thesis
      by (auto simp: connect_running_def bindA_def attemptA_def retA_def)
  next
    case (Inr u)
    then have "client_status env w1 = (r, w')"
      using assms c by (simp add: connect_running_def bindA_def attemptA_def)
    with client_status_spec [OF this] connect_frame [OF c] took_trans [OF connect_took [OF c]]
    show ?thesis by (fastforce simp: numeral_2_eq_2)
  qed
  then show "frame w' = frame w" "\<exists>found. r = Inr found \<and> (found \<noteq> None \<longrightarrow> w_daemon w' \<noteq> None)"
    "took 0 2 w w'" by auto
qed

lemma connect_running_up:
  assumes "w_link w = []" and "w_daemon w = Some d"
  shows "\<exists>si. connect_running env w = (Inr (Some si), w)"
  using assms
  by (simp add: connect_running_def bindA_def attemptA_def connect_def take_link_def client_status_def
      rpc_reliable reading_def retA_def split: prod.splits)

lemma await_server_spec:
  "n \<le> 30 \<Longrightarrow> await_server env su texts n w = (r, w') \<Longrightarrow>
     w_fs w' = w_fs w \<and> w_out w' = w_out w \<and> w_spawned w' = w_spawned w \<and>
     took (200 * n) (2 * n) w w' \<and> (is_ok r \<longrightarrow> w_daemon w' \<noteq> None)"
proof (induction n arbitrary: w)
  case 0
  then show ?case by (auto simp: failA_def took_refl)
next
  case (Suc n)
  obtain w0 :: "'a world" where w0: "sleep_ms 200 w = (Inr () :: error + unit, w0)"
    "w0 = w\<lparr>w_clock := w_clock w + 200\<rparr>" by (simp add: sleep_ms_def)
  obtain w1 where w1: "boot su (30 - Suc n) w0 = (Inr () :: error + unit, w1)"
    "frame w1 = frame w0" "w_clock w1 = w_clock w0" "w_link w1 = w_link w0" by (simp add: boot_def frame_def)
  obtain rc w2 where c: "connect_running env w1 = (rc, w2)" by fastforce
  then obtain found where f: "rc = Inr found" "found \<noteq> None \<longrightarrow> w_daemon w2 \<noteq> None"
    using connect_running_spec(2) by blast
  have fr: "w_fs w2 = w_fs w" "w_out w2 = w_out w" "w_spawned w2 = w_spawned w"
    using connect_running_spec(1) [OF c] w0(2) w1(2) by (auto simp: frame_def)
  have "took 200 0 w w1" using w0(2) w1(3,4) by (simp add: took_def)
  from took_trans [OF this connect_running_spec(3) [OF c]] have tk: "took 200 2 w w2" by (simp only: add_0 add_0_right)
  have run: "(if found \<noteq> None then retA ()
     else bindA (liftA (with_context (ut_wait texts) (map_err io_chain (su_wait su (30 - Suc n))))) (\<lambda>exited.
       case exited of
         Some st \<Rightarrow> failA (anyhow (ut_exited texts @ lit '' ('' @ st @ lit '')''))
       | None \<Rightarrow> await_server env su texts n)) w2 = (r, w')"
    using Suc.prems(2) by (simp only: await_server.simps bindA_def w0(1) w1(1) c f(1) prod.case sum.case)
  show ?case
  proof (cases "found \<noteq> None \<or> (\<forall>u. su_wait su (30 - Suc n) \<noteq> Inr u) \<or>
      su_wait su (30 - Suc n) \<noteq> Inr None")
    case True
    with run f fr took_le [OF tk, of "200 * Suc n" "2 * Suc n"] show ?thesis
      by (cases "su_wait su (30 - Suc n)")
        (auto simp: retA_def failA_def bindA_def liftA_def split: if_splits option.splits)
  next
    case False
    with run have "await_server env su texts n w2 = (r, w')"
      by (auto simp: bindA_def liftA_def)
    with Suc.IH [of w2] Suc.prems(1) fr took_trans [OF tk, of "200 * n" "2 * n" w'] show ?thesis by auto
  qed
qed

lemma start_server_spec:
  assumes "start_server env su texts key_file config_file mdns w = (r, w')"
  shows "w_fs w' = w_fs w \<and> w_out w' = w_out w \<and> took 6000 60 w w' \<and>
    (is_ok r \<longrightarrow> w_daemon w' \<noteq> None) \<and>
    (w_spawned w' = w_spawned w \<or> (\<exists>exe. su_exe su = Inr exe \<and>
       w_spawned w' = w_spawned w @ [exe # server_args key_file config_file mdns]))"
proof (cases "is_ok (su_exe su) \<and> is_ok (su_spawn su)")
  case True
  then obtain exe where exe: "su_exe su = Inr exe" "su_spawn su = Inr ()" by (auto simp: is_ok_iff)
  with assms have "await_server env su texts 30
      (w\<lparr>w_spawned := w_spawned w @ [exe # server_args key_file config_file mdns]\<rparr>) = (r, w')"
    by (simp add: start_server_def bindA_def spawn_def liftA_def)
  from await_server_spec [OF order_refl this] exe show ?thesis by (auto simp: took_def)
next
  case False
  with assms have "\<not> is_ok r" "w' = w"
    by (cases "su_exe su"; cases "su_spawn su"; auto simp: start_server_def bindA_def spawn_def liftA_def)+
  then show ?thesis by (auto simp: took_refl)
qed


section \<open>Properties\<close>

definition sample_env :: "rstr client_env" where
  "sample_env = \<lparr>ce_parse_id = Inr, ce_bind = (\<lambda>_. Inr ()), ce_show_id = (\<lambda>i. i),
     ce_refused = (\<lambda>e. case e of Failed t \<Rightarrow> t), ce_nobody = []\<rparr>"

definition sample_world :: "rstr world" where
  "sample_world = \<lparr>w_daemon = Some (daemon_start []), w_link = [], w_fs = sample_fs, w_out = [],
     w_clock = 0, w_spawned = []\<rparr>"

lemma sample_world_ok: "world_ok sample_world" "others_avoid P sample_world"
  by (simp_all add: sample_world_def world_ok_def others_avoid_def)

lemma sample_world_simps [simp]:
  "w_daemon sample_world = Some (daemon_start [])" "w_link sample_world = []"
  "w_fs sample_world = sample_fs"
  by (simp_all add: sample_world_def)

lemma abs_daemon_start [simp]:
  "sp_serves (abs_daemon (daemon_start eid)) = (\<lambda>_. None)"
  "sp_forwards (abs_daemon (daemon_start eid)) = (\<lambda>_. None)"
  by (auto simp: abs_daemon_def daemon_start_def served_names_def served_def forwarded_def fwd_start_def
      fun_eq_iff)

lemma sample_world_fs: "quiet (\<lambda>q. butlast q = butlast [[99]]) (w_fs sample_world)"
    "take_turn (w_fs sample_world) = (None, sample_fs)"
  by (simp_all add: sample_world_def sample_fs_def quiet_def take_turn_def)

text \<open>C14. \<open>add-serve\<close> changes the running server and the configuration together. After a success
  the server serves the new name, which it did not before, and with \<open>--persistent\<close> the
  configuration file holds the rule; without it the files are untouched. After an error the
  file is as before; the error says which of three things happened, and when it says the
  runtime rule was rolled back, the name is not served. Over a link that loses nothing the
  served target of the name is as before every error.\<close>

theorem add_serve_command_spec:
  assumes "ensure w0 = (Inr (), w)" and "world_ok w" "others_avoid (about_serve name) w" "valid_str name"
    and "toml_ok tm" "p \<noteq> []" "quiet (\<lambda>q. butlast q = butlast p) (w_fs w)"
    and "take_turn (w_fs w) = (None, s1)"
    and "add_serve_command env tm p ensure persistent name tgt w0 = (r, w')"
  shows "case r of
      Inr _ \<Rightarrow> live_serves w name = None \<and> live_serves w' name = Some tgt \<and>
        (if persistent then \<exists>c. on_disk tm p (w_fs w') = Some c \<and>
           find (\<lambda>e. sv_name e = name) (serve_entries c) = Some \<lparr>sv_name = name, sv_target = tgt\<rparr>
         else w_fs w' = w_fs w)
    | Inl e \<Rightarrow> files (w_fs w') p = files (w_fs w) p \<and>
        (display_err e = lit ''failed to add serve route to running server'' \<and> w_fs w' = w_fs w \<or>
         persistent \<and>
         (display_err e = lit ''rolled back runtime serve after persistence failure'' \<and>
            live_serves w name = None \<and> live_serves w' name = None \<or>
          starts_with (lit ''failed to roll back runtime serve after persistence failure: '') (display_err e))) \<and>
        (w_link w = [] \<longrightarrow> live_serves w' name = live_serves w name)"
proof -
  let ?texts = "serve_texts p" and ?persist = "add_persistent_serve_rule tm p name tgt"
  have ok: "serve_world name w" using assms(2-4) by (simp add: serve_world_def)
  have "bindA (install_rule ?texts persistent (client_add_serve env name tgt) (on_fs ?persist)
      (client_del_serve env name)) (\<lambda>_. announce (lit ''persisted serve rule in '' @ path_display p @
        lit '': '' @ arrow name tgt) (lit ''added serve: '' @ arrow name tgt) persistent) w = (r, w')"
    using assms(1,9) unfolding add_serve_command_def by (simp only: bindA_def prod.case sum.case)
  from announced [OF this] obtain w1 where run: "install_rule ?texts persistent
      (client_add_serve env name tgt) (on_fs ?persist) (client_del_serve env name) w = (r, w1)"
    and w1: "w_fs w' = w_fs w1" "live_serves w' = live_serves w1" by metis
  note stored = add_serve_rule_result [OF assms(5-8)]
  show ?thesis
  proof (cases r)
    case (Inr u)
    with serve_rule.install_rule_outcome [OF ok run]
    have "serve_rule.added name tgt persistent ?persist w w1" by simp
    then show ?thesis unfolding w1
      using Inr stored [where r = "Inr ()" and t = "w_fs w1" and name = name and tgt = tgt]
      by (auto simp: serve_rule.added_def)
  next
    case (Inl e)
    have same: "w_link w = [] \<longrightarrow> live_serves w1 name = live_serves w name"
      using serve_undo.install_rule_reliable [OF ok] run Inl by blast
    have "serve_rule.refused ?texts w e w1 \<or> persistent \<and> serve_rule.undone name ?texts ?persist w e w1"
      using serve_rule.install_rule_outcome [OF ok run] Inl by simp
    then show ?thesis
    proof (elim disjE conjE)
      assume "serve_rule.refused ?texts w e w1"
      with Inl same show ?thesis unfolding w1 by (auto simp: serve_rule.refused_def)
    next
      assume "persistent" "serve_rule.undone name ?texts ?persist w e w1"
      with Inl same stored [where t = "w_fs w1" and name = name and tgt = tgt] show ?thesis
        unfolding w1 serve_rule.undone_def serve_texts_simps by fastforce
    qed
  qed
qed


lemma install_rule_Ok:
  "install_rule texts persistent add (on_fs persist) del w = (Inr u, w') \<Longrightarrow> \<exists>w1. add w = (Inr (), w1)"
  by (cases "add w") (auto simp: install_rule_def bindA_def mapErrA_def split: sum.splits)

lemma install_rule_eval:
  assumes "add w = (Inr (), w1)" and "is_ok (fst (persist (w_fs w1)))"
  shows "is_ok (fst (install_rule texts True add (on_fs persist) del w))"
  using assms
  by (auto simp: install_rule_def bindA_def mapErrA_def attemptA_def on_fs_def retA_def is_ok_iff
      split: prod.splits)

lemma install_rule_plain:
  "is_ok (fst (install_rule texts False add (on_fs persist) del w)) = is_ok (fst (add w))"
  by (cases "add w"; cases "fst (add w)") (auto simp: install_rule_def bindA_def mapErrA_def retA_def)

lemma sample_add_command_ok:
  "is_ok (fst (add_serve_command sample_env sample_toml [[99]] (retA ()) True [119] [56] sample_world))"
  (is "is_ok (fst ?run)")
proof -
  have "valid_service [119]" "trim [56] \<noteq> []" by (simp_all add: service_eval trim_def)
  then have "is_ok (fst (client_add_serve sample_env [119] [56] sample_world))"
    unfolding client_requests
    by (intro rpc_granted [where d = "daemon_start []"]) (simp_all add: sample_world_ok scalar_def)
  then obtain w1 where add: "client_add_serve sample_env [119] [56] sample_world = (Inr (), w1)"
    by (cases "client_add_serve sample_env [119] [56] sample_world") (auto simp: is_ok_iff)
  have "w_fs w1 = sample_fs"
    using client_keeps(1) [OF sample_world_ok _ add] by (simp add: scalar_def)
  then show ?thesis
    using install_rule_eval [where add = "client_add_serve sample_env [119] [56]", OF add] sample_add_ok
    by (simp add: add_serve_command_def is_ok_announced)
qed

theorem add_serve_command_spec_witness:
  "live_serves (snd (add_serve_command sample_env sample_toml [[99]] (retA ()) True [119] [56] sample_world))
     [119] = Some [56]"
proof -
  let ?run = "add_serve_command sample_env sample_toml [[99]] (retA ()) True [119] [56] sample_world"
  have "valid_str [119]" by (simp add: scalar_def)
  from add_serve_command_spec [OF _ sample_world_ok this sample_toml_ok _ sample_world_fs
      surjective_pairing, of "retA ()" sample_world sample_env True "[56]"] sample_add_command_ok
  show ?thesis by (auto simp: retA_def split: sum.splits)
qed


lemma add_forward_installs:
  assumes "ensure w0 = (Inr (), w)"
    and "add_forward_command env tm p ensure persistent secs listen remote w0 = (r, w')"
  obtains w1 where "install_rule (forward_texts p) persistent
      (client_add_forward env listen remote persistent secs)
      (on_fs (add_persistent_forward_rule (ce_parse_id env) tm p listen remote secs))
      (client_del_forward env listen) w = (r, w1)"
    and "w_fs w' = w_fs w1" and "live_forwards w' = live_forwards w1"
proof -
  have "bindA (install_rule (forward_texts p) persistent (client_add_forward env listen remote persistent secs)
      (on_fs (add_persistent_forward_rule (ce_parse_id env) tm p listen remote secs))
      (client_del_forward env listen)) (\<lambda>_. announce (lit ''persisted forward rule in '' @
        path_display p @ lit '': '' @ arrow listen remote) (lit ''added forward: '' @ arrow listen remote)
        persistent) w = (r, w')"
    using assms unfolding add_forward_command_def by (simp only: bindA_def prod.case sum.case)
  from announced [OF this] that show thesis by metis
qed

text \<open>C15. \<open>add-forward\<close> likewise: after a success the address is forwarded to the parsed remote
  path, marked persistent as asked, and with \<open>--persistent\<close> the file holds the rule; after an
  error the file is as before, and over a link that loses nothing the forwards are too.\<close>

theorem add_forward_command_spec:
  assumes "ensure w0 = (Inr (), w)" and "world_ok w" "others_avoid (about_forward listen) w"
    and "toml_ok tm" "p \<noteq> []" "quiet (\<lambda>q. butlast q = butlast p) (w_fs w)"
    and "take_turn (w_fs w) = (None, s1)"
    and "add_forward_command env tm p ensure persistent secs listen remote w0 = (r, w')"
  shows "case r of
      Inr _ \<Rightarrow> live_forwards w listen = None \<and>
        (\<exists>rp. remote_from_str (ce_parse_id env) remote = Inr rp \<and>
           live_forwards w' listen = Some (rp, persistent)) \<and>
        (if persistent then \<exists>c. on_disk tm p (w_fs w') = Some c \<and>
           find (\<lambda>e. fw_listen e = listen) (forward_entries c) =
             Some \<lparr>fw_listen = listen, fw_remote = remote, fw_secs = secs\<rparr>
         else w_fs w' = w_fs w)
    | Inl e \<Rightarrow> files (w_fs w') p = files (w_fs w) p \<and>
        (display_err e = lit ''failed to add forward rule to running server'' \<and> w_fs w' = w_fs w \<or>
         persistent \<and>
         (display_err e = lit ''rolled back runtime forward after persistence failure'' \<and>
            live_forwards w listen = None \<and> live_forwards w' listen = None \<or>
          starts_with (lit ''failed to roll back runtime forward after persistence failure: '') (display_err e))) \<and>
        (w_link w = [] \<longrightarrow> live_forwards w' listen = live_forwards w listen)"
proof -
  let ?texts = "forward_texts p"
    and ?persist = "add_persistent_forward_rule (ce_parse_id env) tm p listen remote secs"
  have ok: "forward_world listen w" using assms(2,3) by (simp add: forward_world_def)
  obtain w1 where run: "install_rule ?texts persistent
      (client_add_forward env listen remote persistent secs) (on_fs ?persist)
      (client_del_forward env listen) w = (r, w1)"
    and w1: "w_fs w' = w_fs w1" "live_forwards w' = live_forwards w1"
    using add_forward_installs [OF assms(1,8)] .
  note stored = add_forward_rule_result [OF assms(4-7)]
  show ?thesis
  proof (cases r)
    case (Inr u)
    with forward_rule.install_rule_outcome [OF ok run]
    have new: "forward_rule.added listen env remote persistent persistent ?persist w w1" by simp
    have "is_ok (remote_from_str (ce_parse_id env) remote)"
      using install_rule_Ok run Inr client_add_forward_parses [OF assms(2)] by blast
    then obtain rp where rp: "remote_from_str (ce_parse_id env) remote = Inr rp" by (auto simp: is_ok_iff)
    have "live_forwards w listen = None" "live_forwards w1 listen = Some (rp, persistent)"
      "if persistent then ?persist (w_fs w) = (Inr (), w_fs w1) else w_fs w1 = w_fs w"
      using new rp unfolding forward_rule.added_def by (simp_all add: forward_value_def)
    then show ?thesis unfolding w1
      using Inr rp stored [where r = "Inr ()" and t = "w_fs w1" and listen = listen and remote = remote
          and parse_id = "ce_parse_id env" and secs = secs]
      by (cases persistent) auto
  next
    case (Inl e)
    have same: "w_link w = [] \<longrightarrow> live_forwards w1 listen = live_forwards w listen"
      using forward_undo.install_rule_reliable [OF ok] run Inl by blast
    have "forward_rule.refused ?texts w e w1 \<or> persistent \<and> forward_rule.undone listen ?texts ?persist w e w1"
      using forward_rule.install_rule_outcome [OF ok run] Inl by simp
    then show ?thesis
    proof (elim disjE conjE)
      assume "forward_rule.refused ?texts w e w1"
      with Inl same show ?thesis unfolding w1 by (auto simp: forward_rule.refused_def)
    next
      assume "persistent" "forward_rule.undone listen ?texts ?persist w e w1"
      with Inl same stored [where t = "w_fs w1" and listen = listen and remote = remote
          and parse_id = "ce_parse_id env" and secs = secs] show ?thesis
        unfolding w1 forward_rule.undone_def forward_texts_simps by fastforce
    qed
  qed
qed

lemma sample_remote:
  "remote_from_str (ce_parse_id sample_env) [97, 47, 116, 99, 112, 47, 119] =
     Inr \<lparr>endpoint_id = [97], service = [119]\<rparr>"
proof -
  have "validate_service_name [119] = Inr ()" by (simp add: service_eval)
  then show ?thesis by (simp add: remote_from_str_def slash_def sample_env_def del: validate_ok)
qed

lemma sample_forward_added:
  "is_ok (fst (client_add_forward sample_env [58] [97, 47, 116, 99, 112, 47, 119] False 2 sample_world))"
  unfolding client_requests
  by (intro rpc_granted [where d = "daemon_start []"])
    (use sample_remote in \<open>simp_all add: sample_world_ok sample_env_def\<close>)

theorem add_forward_command_spec_witness:
  "live_forwards (snd (add_forward_command sample_env sample_toml [[99]] (retA ()) False 2 [58]
     [97, 47, 116, 99, 112, 47, 119] sample_world)) [58] = Some (\<lparr>endpoint_id = [97], service = [119]\<rparr>, False)"
proof -
  let ?rp = "[97, 47, 116, 99, 112, 47, 119]"
  let ?run = "add_forward_command sample_env sample_toml [[99]] (retA ()) False 2 [58] ?rp sample_world"
  have ok: "is_ok (fst ?run)"
    using sample_forward_added
    by (simp add: add_forward_command_def is_ok_announced install_rule_plain)
  from add_forward_command_spec [OF _ sample_world_ok sample_toml_ok _ sample_world_fs
      surjective_pairing, of "retA ()" sample_world sample_env False 2 "[58]" ?rp] ok sample_remote
  show ?thesis by (auto simp: retA_def split: sum.splits)
qed


text \<open>C24. Making sure that a server runs: when it returns without error a server is running.
  It starts at most one process, with the arguments of this invocation, and touches neither
  files nor output. It uses the link at most 62 times, twice for each of its 31 polls, and
  besides the time that these uses take, on which the code sets no limit, it takes at most
  six seconds. When a server answers at once it does nothing at all.\<close>

theorem ensure_server_running_spec:
  assumes "ensure_server_running pf env su key_file config_file mdns w = (r, w')"
  shows "(is_ok r \<longrightarrow> w_daemon w' \<noteq> None) \<and>
    (\<exists>used. w_link w = used @ w_link w' \<and> length used \<le> 62 \<and>
       w_clock w' \<le> w_clock w + 6000 + sum_list (map lk_ms used)) \<and>
    w_fs w' = w_fs w \<and> w_out w' = w_out w \<and>
    (w_spawned w' = w_spawned w \<or> (\<exists>exe. su_exe su = Inr exe \<and>
       w_spawned w' = w_spawned w @ [exe # server_args key_file config_file mdns])) \<and>
    (w_link w = [] \<and> w_daemon w \<noteq> None \<longrightarrow> r = Inr () \<and> w' = w)"
proof -
  obtain rc w1 where c: "connect_running env w = (rc, w1)" by fastforce
  then obtain found where f: "rc = Inr found" "found \<noteq> None \<longrightarrow> w_daemon w1 \<noteq> None"
    using connect_running_spec(2) by blast
  have fr: "w_fs w1 = w_fs w" "w_out w1 = w_out w" "w_spawned w1 = w_spawned w"
    using connect_running_spec(1) [OF c] by (auto simp: frame_def)
  note tk = connect_running_spec(3) [OF c]
  have up: "w_link w = [] \<and> w_daemon w \<noteq> None \<longrightarrow> found \<noteq> None \<and> w1 = w"
    using connect_running_up [of w _ env] c f by fastforce
  show ?thesis
  proof (cases found)
    case (Some si)
    then have "r = Inr ()" "w' = w1"
      using assms c f by (simp_all add: ensure_server_running_def capabilities_of_def bindA_def retA_def)
    with f fr up Some took_le [OF tk, of 6000 62, unfolded took_def] show ?thesis by simp
  next
    case None
    then have "start_server env su (server_texts (control_transport_label pf)) key_file config_file mdns w1 = (r, w')"
      using assms c f by (simp add: ensure_server_running_def capabilities_of_def bindA_def)
    note start = start_server_spec [OF this]
    have "took 6000 62 w w'" using took_trans [OF tk, of 6000 60 w'] start by simp
    note this [unfolded took_def]
    with start fr up None show ?thesis by auto
  qed
qed

text \<open>A server that comes up before the third poll.\<close>

definition sample_startup :: "rstr startup" where
  "sample_startup = \<lparr>su_exe = Inr [105], su_spawn = Inr (),
     su_boot = (\<lambda>i. if 2 \<le> i then Some (daemon_start []) else None), su_wait = (\<lambda>_. Inr None)\<rparr>"

text \<open>Every call takes half a second; the server answers the fourth poll.\<close>

definition slow_world :: "rstr world" where
  "slow_world = sample_world\<lparr>w_daemon := None, w_link := replicate 10 (LinkTurn [] None 500)\<rparr>"

theorem ensure_server_running_spec_witness:
  "w_clock (snd (ensure_server_running Linux sample_env sample_startup None [99] True slow_world)) \<le> 11000"
proof -
  obtain r w' where run: "ensure_server_running Linux sample_env sample_startup None [99] True slow_world = (r, w')"
    by fastforce
  have start: "w_link slow_world = replicate 10 (LinkTurn [] None 500)" "w_clock slow_world = 0"
    by (simp_all add: slow_world_def sample_world_def)
  from ensure_server_running_spec [OF run] obtain used
    where used: "replicate 10 (LinkTurn [] None 500) = used @ w_link w'"
      "w_clock w' \<le> 0 + 6000 + sum_list (map lk_ms used)"
    unfolding start by blast
  have "sum_list (map lk_ms (replicate 10 (LinkTurn [] None 500))) = 5000" by (simp add: sum_list_replicate)
  then have "sum_list (map lk_ms used) \<le> 5000" unfolding used(1) by simp
  with used(2) run show ?thesis by simp
qed


lemma del_forward_call:
  assumes "forward_world listen w" and "bindA (connect env) (\<lambda>_. client_del_forward env listen) w = (r1, w1)"
  shows "w_fs w1 = w_fs w \<and> (is_ok r1 \<longrightarrow> live_forwards w1 listen = None)"
  using assms(2)
proof (cases rule: bindA_cases)
  case (fail e)
  with connect_frame [OF fail(1)] show ?thesis by (simp add: frame_def)
next
  case (ok u w0)
  have w0: "forward_world listen w0" "w_fs w0 = w_fs w"
    using connect_frame [OF ok(1)] connect_world [OF ok(1) assms(1)] by (simp_all add: frame_def)
  with forward_rule.del_keeps [OF w0(1) ok(2)] forward_rule.del_ok [OF w0(1), of env w1] ok(2)
  show ?thesis by (auto simp: is_ok_iff)
qed

text \<open>\<open>del-forward\<close> deletes first in the running server, then in the file. After a success the
  address is not forwarded, and with \<open>--persistent\<close> the file has lost exactly the rules for it. After an error
  the file is as before, and when the error is about the running server no file operation was
  made at all: a rule cannot be removed from the file while no server runs.\<close>

theorem del_forward_command_spec:
  assumes "forward_world listen w" and "toml_ok tm" "p \<noteq> []"
    and "quiet (\<lambda>q. butlast q = butlast p) (w_fs w)" and "take_turn (w_fs w) = (None, s1)"
    and "del_forward_command env tm p persistent listen w = (r, w')"
  shows "case r of
      Inr _ \<Rightarrow> live_forwards w' listen = None \<and>
        (if persistent then \<exists>c. on_disk tm p (w_fs w) = Some c \<and>
           (if listen \<in> fw_listen ` set (forward_entries c)
            then \<exists>c'. on_disk tm p (w_fs w') = Some c' \<and> c_serve c' = c_serve c \<and>
              forward_entries c' = filter (\<lambda>e. fw_listen e \<noteq> listen) (forward_entries c)
            else files (w_fs w') p = files (w_fs w) p)
         else w_fs w' = w_fs w)
    | Inl e \<Rightarrow> files (w_fs w') p = files (w_fs w) p \<and>
        (display_err e = lit ''failed to remove forward rule from running server'' \<longrightarrow>
           w_fs w' = w_fs w)"
proof -
  let ?call = "bindA (connect env) (\<lambda>_. client_del_forward env listen)"
  obtain r1 w1 where call: "?call w = (r1, w1)" by fastforce
  note del = del_forward_call [OF assms(1) call]
  show ?thesis
  proof (cases r1)
    case (Inl e)
    with assms(6) call del show ?thesis
      by (auto simp: del_forward_command_def bindA_def mapErrA_def)
  next
    case (Inr u)
    obtain rr s where rm: "remove_persistent_forward_rule_by_listen tm p listen (w_fs w) = (rr, s)" by fastforce
    note gone = remove_forward_rule_result [OF assms(2-5) rm]
    show ?thesis
    proof (cases persistent)
      case False
      with assms(6) call del Inr show ?thesis
        by (auto simp: del_forward_command_def bindA_def mapErrA_def println_def retA_def)
    next
      case True
      show ?thesis
      proof (cases rr)
        case (Inl e)
        with True assms(6) call del Inr rm gone show ?thesis
          by (auto simp: del_forward_command_def bindA_def mapErrA_def println_def on_fs_def)
      next
        case (Inr removed)
        with True assms(6) call del \<open>r1 = Inr u\<close> rm
        have "r = Inr ()" "w_fs w' = s" "live_forwards w' listen = None"
          by (auto simp: del_forward_command_def bindA_def mapErrA_def println_def on_fs_def)
        moreover obtain c where "on_disk tm p (w_fs w) = Some c"
          "removed = (listen \<in> fw_listen ` set (forward_entries c))"
          "if removed then \<exists>c'. on_disk tm p s = Some c' \<and> c_serve c' = c_serve c \<and>
             forward_entries c' = filter (\<lambda>e. fw_listen e \<noteq> listen) (forward_entries c)
           else files s p = files (w_fs w) p"
          using gone Inr by auto
        ultimately show ?thesis using True by simp
      qed
    qed
  qed
qed


theorem del_forward_command_spec_witness:
  "live_forwards (snd (del_forward_command sample_env sample_toml [[99]] False [58]
     (snd (client_add_forward sample_env [58] [97, 47, 116, 99, 112, 47, 119] False 2 sample_world)))) [58] = None"
proof -
  let ?rp = "[97, 47, 116, 99, 112, 47, 119]"
  have sw: "forward_world [58] sample_world" using sample_world_ok by (simp add: forward_world_def)
  obtain w where w: "client_add_forward sample_env [58] ?rp False 2 sample_world = (Inr (), w)"
    using sample_forward_added
    by (cases "client_add_forward sample_env [58] ?rp False 2 sample_world") (auto simp: is_ok_iff)
  note keep = forward_rule.add_keeps [OF sw w] and new = forward_rule.add_ok [OF sw w]
  have link: "w_link w = []" by (rule forward_undo.add_link [OF _ w]) simp
  then have c: "connect sample_env w = (Inr (), w)" by (simp add: connect_def take_link_def)
  have "is_ok (fst (client_del_forward sample_env [58] w))"
    by (rule forward_undo.del_there) (use keep link new in simp_all)
  with c have "is_ok (fst (del_forward_command sample_env sample_toml [[99]] False [58] w))"
    by (auto simp: del_forward_command_def bindA_def mapErrA_def println_def retA_def is_ok_iff
        split: prod.splits)
  with del_forward_command_spec [OF _ sample_toml_ok _ _ _ surjective_pairing, of "[58]" w "[[99]]" sample_fs
      sample_env False] keep sample_world_fs w show ?thesis
    by (auto split: sum.splits)
qed

end
