(* ===== verification/Cli_Status.thy ===== *)
theory Cli_Status
  imports Cli_Commands
begin

text \<open>
  The \<open>status\<close> command (\<open>src/main.rs\<close>): the counters of a running server and the table of
  its connections. Widths are computed from byte lengths and applied to characters, which
  can only make a column wider than it needs to be.
\<close>

definition style :: "rstr \<Rightarrow> rstr \<Rightarrow> bool \<Rightarrow> rstr" where
  "style text code use_ansi =
     (if use_ansi then [27, 91] @ code @ [109] @ text @ [27, 91, 48, 109] else text)"

definition labelled :: "rstr \<Rightarrow> rstr \<Rightarrow> rstr" where
  "labelled label value = pad_right 12 label @ lit '' '' @ value"

definition status_running_lines :: "status_info \<Rightarrow> bool \<Rightarrow> rstr list" where
  "status_running_lines si use_ansi =
     [style (lit ''iroh-proxy status'') (lit ''1'') use_ansi,
      labelled (lit ''server'') (style (lit ''running'') (lit ''32'') use_ansi),
      labelled (lit ''endpoint'') (si_endpoint_id si),
      [],
      style (lit ''counters'') (lit ''1'') use_ansi,
      labelled (lit ''connections'') (show_nat (si_connections si)),
      labelled (lit ''served'') (show_nat (si_served si)),
      labelled (lit ''forwards'') (show_nat (si_forwards si))]"

definition status_stopped_lines :: "bool \<Rightarrow> rstr list" where
  "status_stopped_lines use_ansi =
     [style (lit ''iroh-proxy status'') (lit ''1'') use_ansi,
      labelled (lit ''server'') (style (lit ''stopped'') (lit ''31'') use_ansi),
      labelled (lit ''hint'') (lit ''run `iroh-proxy server`'')]"

text \<open>\<open>iter().max().unwrap_or(d)\<close> of lengths.\<close>

definition max_or :: "nat \<Rightarrow> nat list \<Rightarrow> nat" where
  "max_or d ns = (if ns = [] then d else Max (set ns))"

definition id_text :: "active_row \<Rightarrow> rstr" where
  "id_text r = show_nat (unat (ar_id r))"

record widths =
  id_width :: nat
  kind_width :: nat
  src_width :: nat

definition table_widths :: "active_row list \<Rightarrow> widths" where
  "table_widths rows = \<lparr>
     id_width = max 2 (max_or 2 (map (\<lambda>r. byte_len (id_text r)) rows)),
     kind_width = max (byte_len (lit ''type'')) (max_or 4 (map (\<lambda>r. byte_len (ar_kind r)) rows)),
     src_width = max (byte_len (lit ''source'')) (max_or 6 (map (\<lambda>r. byte_len (ar_src r)) rows))\<rparr>"

definition table_line :: "widths \<Rightarrow> rstr \<Rightarrow> rstr \<Rightarrow> rstr \<Rightarrow> rstr \<Rightarrow> rstr" where
  "table_line ws cid kind src dst =
     pad_left (id_width ws) cid @ lit ''  '' @ pad_right (kind_width ws) kind @ lit ''  '' @
     pad_right (src_width ws) src @ lit ''  '' @ dst"

definition active_connections_lines :: "active_row list \<Rightarrow> bool \<Rightarrow> rstr list" where
  "active_connections_lines rows use_ansi =
     [[], style (lit ''active connections ('' @ show_nat (length rows) @ lit '')'') (lit ''1'') use_ansi] @
     (if rows = [] then [lit ''none'']
      else
        let sorted_rows = sort_key ar_id rows; ws = table_widths sorted_rows in
        table_line ws (lit ''id'') (lit ''type'') (lit ''source'') (lit ''destination'') #
        map (\<lambda>r. table_line ws (id_text r) (ar_kind r) (ar_src r) (ar_dst r)) sorted_rows)"

definition print_lines :: "rstr list \<Rightarrow> ('i world, 'e, unit) act" where
  "print_lines ls w = (Inr (), w\<lparr>w_out := w_out w @ ls\<rparr>)"

definition status_command ::
  "platform \<Rightarrow> 'i client_env \<Rightarrow> bool \<Rightarrow> bool \<Rightarrow> ('i world, error, unit) act" where
  "status_command pf env connections use_ansi =
     (let caps = capabilities_of pf in
      if \<not> live_control caps
      then println (lit ''status is not available on '' @ os_name pf @ lit '' (planned transport: '' @
        transport_label caps @ lit '')'')
      else
        bindA (connect_running env) (\<lambda>found.
        case found of
          None \<Rightarrow> print_lines (status_stopped_lines use_ansi)
        | Some si \<Rightarrow>
            bindA (print_lines (status_running_lines si use_ansi)) (\<lambda>_.
            if connections then
              bindA (client_list_connections env) (\<lambda>conns.
              print_lines (active_connections_lines conns use_ansi))
            else retA ())))"


section \<open>Facts\<close>

lemma length_pad_left [simp]: "length (pad_left w s) = max w (length s)"
  by (simp add: pad_left_def)

lemma length_pad_right [simp]: "length (pad_right w s) = max w (length s)"
  by (simp add: pad_right_def)

lemma max_or_ge: "x \<in> set xs \<Longrightarrow> f x \<le> max_or d (map f xs)"
  by (cases xs) (auto simp: max_or_def intro!: Max_ge)

lemma width_ge: "x \<in> set xs \<Longrightarrow> length (g x) \<le> max n (max_or d (map (\<lambda>r. byte_len (g r)) xs))"
  using max_or_ge [of x xs "\<lambda>r. byte_len (g r)" d] byte_len_ge [of "g x"] by linarith

text \<open>How far into a line its last column starts.\<close>

definition dst_column :: "widths \<Rightarrow> nat" where
  "dst_column ws = id_width ws + kind_width ws + src_width ws + 6"

lemma table_line_column:
  assumes "length cid \<le> id_width ws" "length kind \<le> kind_width ws" "length src \<le> src_width ws"
  shows "drop (dst_column ws) (table_line ws cid kind src dst) = dst"
    and "dst_column ws \<le> length (table_line ws cid kind src dst)"
proof -
  let ?pre = "pad_left (id_width ws) cid @ lit ''  '' @ pad_right (kind_width ws) kind @ lit ''  '' @
     pad_right (src_width ws) src @ lit ''  ''"
  obtain pre where pre: "pre = ?pre" by blast
  have len: "dst_column ws = length pre" using assms by (simp add: dst_column_def pre)
  have line: "table_line ws cid kind src dst = pre @ dst" by (simp add: table_line_def pre)
  show "drop (dst_column ws) (table_line ws cid kind src dst) = dst"
    "dst_column ws \<le> length (table_line ws cid kind src dst)"
    unfolding len line by simp_all
qed

lemma header_widths:
  "2 \<le> id_width (table_widths rows)" "4 \<le> kind_width (table_widths rows)"
  "6 \<le> src_width (table_widths rows)"
  by (simp_all add: table_widths_def byte_len_def utf8_def utf8_nats_def utf8_char_def)


section \<open>Properties\<close>

text \<open>The connection table has a heading and one line per connection, in the order of
  their identifiers, and in every line the destination starts in the same column, whatever
  the lengths and characters of the other columns.\<close>

theorem connection_table_aligned:
  assumes "rows \<noteq> []"
  defines "col \<equiv> dst_column (table_widths (sort_key ar_id rows))"
  shows "map (drop col) (drop 2 (active_connections_lines rows use_ansi)) =
      lit ''destination'' # map ar_dst (sort_key ar_id rows) \<and>
    sorted (map ar_id (sort_key ar_id rows)) \<and>
    mset (sort_key ar_id rows) = mset rows \<and>
    list_all (\<lambda>l. col \<le> length l) (drop 2 (active_connections_lines rows use_ansi))"
proof -
  let ?rows = "sort_key ar_id rows" and ?ws = "table_widths (sort_key ar_id rows)"
  have row: "length (id_text r) \<le> id_width ?ws \<and> length (ar_kind r) \<le> kind_width ?ws \<and>
      length (ar_src r) \<le> src_width ?ws" if "r \<in> set ?rows" for r
    using width_ge [OF that, of id_text 2 2] width_ge [OF that, of ar_kind "byte_len (lit ''type'')" 4]
      width_ge [OF that, of ar_src "byte_len (lit ''source'')" 6]
    by (simp add: table_widths_def del: lit_simps)
  have head: "length (lit ''id'') \<le> id_width ?ws" "length (lit ''type'') \<le> kind_width ?ws"
    "length (lit ''source'') \<le> src_width ?ws"
    using header_widths [of ?rows] by simp_all
  have lines: "drop 2 (active_connections_lines rows use_ansi) =
      table_line ?ws (lit ''id'') (lit ''type'') (lit ''source'') (lit ''destination'') #
      map (\<lambda>r. table_line ?ws (id_text r) (ar_kind r) (ar_src r) (ar_dst r)) ?rows"
    using assms(1) by (simp add: active_connections_lines_def Let_def del: lit_simps)
  have "map (drop col \<circ> (\<lambda>r. table_line ?ws (id_text r) (ar_kind r) (ar_src r) (ar_dst r))) ?rows =
      map ar_dst ?rows"
    by (rule map_cong [OF refl]) (use row in \<open>simp add: col_def table_line_column\<close>)
  moreover have "list_all (\<lambda>r. col \<le> length (table_line ?ws (id_text r) (ar_kind r) (ar_src r) (ar_dst r))) ?rows"
    using row by (auto simp: list_all_iff col_def intro!: table_line_column(2))
  ultimately show ?thesis
    unfolding lines using table_line_column [OF head, of "lit ''destination''"]
    by (simp add: col_def list.pred_map comp_def del: lit_simps)
qed

theorem connection_table_aligned_witness:
  "length (active_connections_lines [\<lparr>ar_id = 2, ar_src = [97], ar_kind = [98], ar_dst = [99]\<rparr>,
     \<lparr>ar_id = 1, ar_src = [0x1F600], ar_kind = [98], ar_dst = [100]\<rparr>] False) = 5"
proof -
  let ?rows = "[\<lparr>ar_id = 2, ar_src = [97], ar_kind = [98], ar_dst = [99]\<rparr>,
     \<lparr>ar_id = 1, ar_src = [0x1F600], ar_kind = [98], ar_dst = [100]\<rparr>]"
  have ne: "?rows \<noteq> []" by simp
  note c = conjunct1 [OF connection_table_aligned [OF ne, of False]]
  have "length (drop 2 (active_connections_lines ?rows False)) = 3"
    using arg_cong [OF c, of length] by simp
  then show ?thesis by simp
qed

end
