(* ===== verification/Tui_State.thy ===== *)
theory Tui_State
  imports Control_Client "HOL-Library.List_Lexorder"
begin

text \<open>
  The state of the terminal interface (\<open>src/tui.rs\<close>): panes and the two layouts with their
  focus, the tables with their selections, the dialogs, and the operations on them that touch
  nothing else. The choice between the layouts, the detection of icon fonts and the texts
  that depend on them are here too.
\<close>

section \<open>Panes and layouts\<close>

datatype pane = Services | Forwards | Connections

fun pane_next :: "pane \<Rightarrow> pane" where
  "pane_next Services = Forwards"
| "pane_next Forwards = Connections"
| "pane_next Connections = Services"

fun pane_prev :: "pane \<Rightarrow> pane" where
  "pane_prev Services = Connections"
| "pane_prev Forwards = Services"
| "pane_prev Connections = Forwards"

datatype layout_mode = Full | Compact

datatype icon_mode = IconsEnabled | IconsDisabled

datatype compact_focus = FocusRoutes | FocusConnections

fun compact_focus_toggle :: "compact_focus \<Rightarrow> compact_focus" where
  "compact_focus_toggle FocusRoutes = FocusConnections"
| "compact_focus_toggle FocusConnections = FocusRoutes"

datatype routes_view = ViewServices | ViewForwards

fun routes_view_toggle :: "routes_view \<Rightarrow> routes_view" where
  "routes_view_toggle ViewServices = ViewForwards"
| "routes_view_toggle ViewForwards = ViewServices"

fun as_pane :: "routes_view \<Rightarrow> pane" where
  "as_pane ViewServices = Services"
| "as_pane ViewForwards = Forwards"

definition compact_width_threshold :: "16 word" where
  "compact_width_threshold = 160"

definition compact_height_threshold :: "16 word" where
  "compact_height_threshold = 36"

definition layout_mode_for_dimensions :: "16 word \<Rightarrow> 16 word \<Rightarrow> layout_mode" where
  "layout_mode_for_dimensions width height =
     (if width < compact_width_threshold \<or> height < compact_height_threshold then Compact else Full)"


section \<open>Selections\<close>

definition clamp_selection :: "nat option \<Rightarrow> nat \<Rightarrow> nat option" where
  "clamp_selection sel len =
     (if len = 0 then None else Some (min (case sel of None \<Rightarrow> 0 | Some i \<Rightarrow> i) (len - 1)))"

definition move_selection_prev :: "nat option \<Rightarrow> nat \<Rightarrow> nat option" where
  "move_selection_prev sel len =
     (if len = 0 then None
      else Some (case sel of Some current \<Rightarrow> if current > 0 then current - 1 else 0 | None \<Rightarrow> 0))"

definition move_selection_next :: "nat option \<Rightarrow> nat \<Rightarrow> nat option" where
  "move_selection_next sel len =
     (if len = 0 then None
      else Some (case sel of
          Some current \<Rightarrow> if current + 1 < len then current + 1 else current
        | None \<Rightarrow> 0))"


section \<open>Dialogs and the application\<close>

record add_service_dialog =
  as_name :: rstr
  as_target :: rstr
  as_persist :: bool
  as_field :: nat

record add_forward_dialog =
  af_listen :: rstr
  af_remote :: rstr
  af_persist :: bool
  af_field :: nat

record remove_forward_dialog =
  rf_listen :: rstr
  rf_remote :: rstr
  rf_persistently :: bool

datatype modal =
    AddServiceModal add_service_dialog
  | AddForwardModal add_forward_dialog
  | RemoveServiceModal rstr
  | RemoveForwardModal remove_forward_dialog
  | MessageModal rstr rstr

record snapshot_data =
  sn_status :: "status_info option"
  sn_services :: "serve_row list"
  sn_forwards :: "forward_row list"
  sn_connections :: "active_row list"

definition snapshot_default :: snapshot_data where
  "snapshot_default = \<lparr>sn_status = None, sn_services = [], sn_forwards = [], sn_connections = []\<rparr>"

record app =
  app_status :: "status_info option"
  app_services :: "serve_row list"
  app_forwards :: "forward_row list"
  app_connections :: "active_row list"
  focus :: pane
  compact_focus :: compact_focus
  compact_routes :: routes_view
  icons :: icon_mode
  selected_service :: "nat option"
  selected_forward :: "nat option"
  selected_connection :: "nat option"
  modal :: "modal option"

definition app_default :: app where
  "app_default = \<lparr>app_status = None, app_services = [], app_forwards = [], app_connections = [],
     focus = Services, compact_focus = FocusRoutes, compact_routes = ViewServices,
     icons = IconsDisabled, selected_service = None, selected_forward = None,
     selected_connection = None, modal = None\<rparr>"

text \<open>Strings compare by their bytes; connections are listed newest first.\<close>

definition sort_services :: "serve_row list \<Rightarrow> serve_row list" where
  "sort_services = sort_key (\<lambda>r. utf8 (sr_name r))"

definition sort_forwards :: "forward_row list \<Rightarrow> forward_row list" where
  "sort_forwards = sort_key (\<lambda>r. utf8 (fr_listen_addr r))"

definition sort_connections :: "active_row list \<Rightarrow> active_row list" where
  "sort_connections = sort_key (\<lambda>r. - int (unat (ar_id r)))"

definition apply_snapshot :: "snapshot_data \<Rightarrow> app \<Rightarrow> app" where
  "apply_snapshot sn a =
     (let services = sort_services (sn_services sn);
          fwds = sort_forwards (sn_forwards sn);
          connections = sort_connections (sn_connections sn)
      in a\<lparr>app_status := sn_status sn, app_services := services, app_forwards := fwds,
           app_connections := connections,
           selected_service := clamp_selection (selected_service a) (length services),
           selected_forward := clamp_selection (selected_forward a) (length fwds),
           selected_connection := clamp_selection (selected_connection a) (length connections)\<rparr>)"

definition set_error :: "error \<Rightarrow> app \<Rightarrow> app" where
  "set_error err a = a\<lparr>modal := Some (MessageModal (lit ''Error'') (display_err err))\<rparr>"

definition set_info :: "rstr \<Rightarrow> app \<Rightarrow> app" where
  "set_info message a = a\<lparr>modal := Some (MessageModal (lit ''Info'') message)\<rparr>"

definition active_pane :: "layout_mode \<Rightarrow> app \<Rightarrow> pane" where
  "active_pane lm a =
     (case lm of
        Full \<Rightarrow> focus a
      | Compact \<Rightarrow> (case compact_focus a of
            FocusRoutes \<Rightarrow> as_pane (compact_routes a)
          | FocusConnections \<Rightarrow> Connections))"

definition sync_compact_from_focus :: "app \<Rightarrow> app" where
  "sync_compact_from_focus a =
     (case focus a of
        Services \<Rightarrow> a\<lparr>compact_focus := FocusRoutes, compact_routes := ViewServices\<rparr>
      | Forwards \<Rightarrow> a\<lparr>compact_focus := FocusRoutes, compact_routes := ViewForwards\<rparr>
      | Connections \<Rightarrow> a\<lparr>compact_focus := FocusConnections\<rparr>)"

definition sync_focus_from_compact :: "app \<Rightarrow> app" where
  "sync_focus_from_compact a = a\<lparr>focus := active_pane Compact a\<rparr>"

definition open_add_dialog :: "pane \<Rightarrow> app \<Rightarrow> app" where
  "open_add_dialog p a =
     (case p of
        Services \<Rightarrow> a\<lparr>modal := Some (AddServiceModal
          \<lparr>as_name = [], as_target = [], as_persist = False, as_field = 0\<rparr>)\<rparr>
      | Forwards \<Rightarrow> a\<lparr>modal := Some (AddForwardModal
          \<lparr>af_listen = [], af_remote = [], af_persist = False, af_field = 0\<rparr>)\<rparr>
      | Connections \<Rightarrow> a)"

text \<open>\<open>Vec::get\<close>.\<close>

definition get_row :: "'a list \<Rightarrow> nat option \<Rightarrow> 'a option" where
  "get_row xs sel = (case sel of None \<Rightarrow> None | Some i \<Rightarrow> if i < length xs then Some (xs ! i) else None)"

definition open_remove_dialog :: "pane \<Rightarrow> app \<Rightarrow> app" where
  "open_remove_dialog p a =
     (case p of
        Services \<Rightarrow> (case get_row (app_services a) (selected_service a) of
            None \<Rightarrow> a
          | Some row \<Rightarrow> a\<lparr>modal := Some (RemoveServiceModal (sr_name row))\<rparr>)
      | Forwards \<Rightarrow> (case get_row (app_forwards a) (selected_forward a) of
            None \<Rightarrow> a
          | Some row \<Rightarrow> a\<lparr>modal := Some (RemoveForwardModal
              \<lparr>rf_listen = fr_listen_addr row, rf_remote = fr_remote_path row,
               rf_persistently = fr_is_persisted row\<rparr>)\<rparr>)
      | Connections \<Rightarrow> a)"

definition move_selection_up :: "pane \<Rightarrow> app \<Rightarrow> app" where
  "move_selection_up p a =
     (case p of
        Services \<Rightarrow> a\<lparr>selected_service := move_selection_prev (selected_service a) (length (app_services a))\<rparr>
      | Forwards \<Rightarrow> a\<lparr>selected_forward := move_selection_prev (selected_forward a) (length (app_forwards a))\<rparr>
      | Connections \<Rightarrow>
          a\<lparr>selected_connection := move_selection_prev (selected_connection a) (length (app_connections a))\<rparr>)"

definition move_selection_down :: "pane \<Rightarrow> app \<Rightarrow> app" where
  "move_selection_down p a =
     (case p of
        Services \<Rightarrow> a\<lparr>selected_service := move_selection_next (selected_service a) (length (app_services a))\<rparr>
      | Forwards \<Rightarrow> a\<lparr>selected_forward := move_selection_next (selected_forward a) (length (app_forwards a))\<rparr>
      | Connections \<Rightarrow>
          a\<lparr>selected_connection := move_selection_next (selected_connection a) (length (app_connections a))\<rparr>)"



section \<open>Invariant\<close>

text \<open>A selection is a row of its table, and there is one exactly when the table has rows.\<close>

definition sel_ok :: "nat option \<Rightarrow> nat \<Rightarrow> bool" where
  "sel_ok sel len \<longleftrightarrow> (case sel of None \<Rightarrow> len = 0 | Some i \<Rightarrow> i < len)"

fun modal_ok :: "modal \<Rightarrow> bool" where
  "modal_ok (AddServiceModal d) = (as_field d < 3)"
| "modal_ok (AddForwardModal d) = (af_field d < 3)"
| "modal_ok _ = True"

definition tables_ok :: "app \<Rightarrow> bool" where
  "tables_ok a \<longleftrightarrow>
     sorted (map (\<lambda>r. utf8 (sr_name r)) (app_services a)) \<and>
     sorted (map (\<lambda>r. utf8 (fr_listen_addr r)) (app_forwards a)) \<and>
     sorted (map (\<lambda>r. - int (unat (ar_id r))) (app_connections a))"

definition selections_ok :: "app \<Rightarrow> bool" where
  "selections_ok a \<longleftrightarrow>
     sel_ok (selected_service a) (length (app_services a)) \<and>
     sel_ok (selected_forward a) (length (app_forwards a)) \<and>
     sel_ok (selected_connection a) (length (app_connections a))"

definition app_ok :: "app \<Rightarrow> bool" where
  "app_ok a \<longleftrightarrow> tables_ok a \<and> selections_ok a \<and> active_pane Full a = active_pane Compact a \<and>
     (case modal a of None \<Rightarrow> True | Some m \<Rightarrow> modal_ok m)"

named_theorems app_defs \<open>the operations on the application and its invariant\<close>

lemmas [app_defs] = app_ok_def tables_ok_def selections_ok_def active_pane_def

lemma sel_ok_clamp [simp]: "sel_ok (clamp_selection sel len) len"
  by (auto simp: sel_ok_def clamp_selection_def split: option.splits)

lemma sel_ok_prev [simp]: "sel_ok sel len \<Longrightarrow> sel_ok (move_selection_prev sel len) len"
  by (auto simp: sel_ok_def move_selection_prev_def split: option.splits)

lemma sel_ok_next [simp]: "sel_ok sel len \<Longrightarrow> sel_ok (move_selection_next sel len) len"
  by (auto simp: sel_ok_def move_selection_next_def split: option.splits)

lemma app_ok_default [simp]: "app_ok (app_default\<lparr>icons := im\<rparr>)"
  by (simp add: app_defs app_default_def sel_ok_def)

lemma app_ok_snapshot [simp]: "app_ok a \<Longrightarrow> app_ok (apply_snapshot sn a)"
  by (simp add: app_defs apply_snapshot_def Let_def sort_services_def sort_forwards_def sort_connections_def
      split: compact_focus.split)

lemma app_ok_modal [simp]: "app_ok a \<Longrightarrow> modal_ok m \<Longrightarrow> app_ok (a\<lparr>modal := Some m\<rparr>)"
  by (simp add: app_defs split: compact_focus.split)

lemma app_ok_no_modal [simp]: "app_ok a \<Longrightarrow> app_ok (a\<lparr>modal := None\<rparr>)"
  by (simp add: app_defs split: compact_focus.split)

lemma app_ok_messages [simp]: "app_ok a \<Longrightarrow> app_ok (set_error e a)" "app_ok a \<Longrightarrow> app_ok (set_info t a)"
  by (simp_all add: set_error_def set_info_def)

lemma app_ok_dialogs [simp]: "app_ok a \<Longrightarrow> app_ok (open_add_dialog p a)"
    "app_ok a \<Longrightarrow> app_ok (open_remove_dialog p a)"
  by (cases p; simp add: open_add_dialog_def open_remove_dialog_def split: option.split)+

lemma app_ok_move [simp]: "app_ok a \<Longrightarrow> app_ok (move_selection_up p a)"
    "app_ok a \<Longrightarrow> app_ok (move_selection_down p a)"
  by (cases p; simp add: app_defs move_selection_up_def move_selection_down_def split: compact_focus.split)+

lemma app_ok_sync_compact: "app_ok a \<Longrightarrow> app_ok (sync_compact_from_focus (a\<lparr>focus := p\<rparr>))"
  by (cases p) (simp_all add: app_defs sync_compact_from_focus_def split: compact_focus.splits)

lemma app_ok_sync_focus:
  "app_ok a \<Longrightarrow> app_ok (sync_focus_from_compact (a\<lparr>compact_focus := cf, compact_routes := rv\<rparr>))"
  by (simp add: app_defs sync_focus_from_compact_def split: compact_focus.split)


section \<open>Cycles\<close>

interpretation panes: cycle pane_next pane_prev "\<lambda>_. True"
proof unfold_locales
  fix p show "pane_prev (pane_next p) = p" "pane_next (pane_prev p) = p" by (cases p; simp)+
qed simp_all

lemma toggle_toggle [simp]:
  "compact_focus_toggle (compact_focus_toggle cf) = cf" "routes_view_toggle (routes_view_toggle rv) = rv"
  by (cases cf, simp_all) (cases rv, simp_all)

interpretation compact_foci: cycle compact_focus_toggle compact_focus_toggle "\<lambda>_. True"
  by unfold_locales simp_all

interpretation routes_views: cycle routes_view_toggle routes_view_toggle "\<lambda>_. True"
  by unfold_locales simp_all

text \<open>The three fields of an add dialog.\<close>

definition field_next :: "nat \<Rightarrow> nat" where
  "field_next f = (f + 1) mod 3"

definition field_prev :: "nat \<Rightarrow> nat" where
  "field_prev f = (f + 2) mod 3"

interpretation dialog_fields: cycle field_next field_prev "\<lambda>f. f < 3"
proof unfold_locales
  fix f :: nat assume "f < 3"
  then consider "f = 0" | "f = 1" | "f = 2" by linarith
  then show "field_prev (field_next f) = f" "field_next (field_prev f) = f"
    by (cases; simp add: field_next_def field_prev_def)+
qed (simp_all add: field_next_def field_prev_def)

end
