(* ===== verification/Tui_Labels.thy ===== *)
theory Tui_Labels
  imports Tui_State
begin

text \<open>
  Texts of the terminal interface (\<open>src/tui.rs\<close>): whether icon fonts are used, as the
  environment says or as the locale suggests, the labels with and without icons, and the
  shortening of texts that do not fit.
\<close>

section \<open>Icon fonts\<close>

definition parse_use_nerd_fonts_value :: "rstr \<Rightarrow> bool option" where
  "parse_use_nerd_fonts_value v =
     (let t = ascii_lower (trim v) in
      if t \<in> {lit ''1'', lit ''true'', lit ''yes'', lit ''on''} then Some True
      else if t \<in> {lit ''0'', lit ''false'', lit ''no'', lit ''off''} then Some False
      else None)"

text \<open>The answer of \<open>std::env::var\<close>.\<close>

datatype env_var = VarText rstr | VarNotPresent | VarNotUnicode

fun parse_use_nerd_fonts_env :: "env_var \<Rightarrow> bool option" where
  "parse_use_nerd_fonts_env (VarText v) = parse_use_nerd_fonts_value v"
| "parse_use_nerd_fonts_env VarNotPresent = None"
| "parse_use_nerd_fonts_env VarNotUnicode = None"

definition locale_has_utf8 :: "rstr option \<Rightarrow> bool" where
  "locale_has_utf8 loc =
     (case loc of
        None \<Rightarrow> False
      | Some v \<Rightarrow> let upper = ascii_upper v in
          contains_str (lit ''UTF-8'') upper \<or> contains_str (lit ''UTF8'') upper)"

definition detect_icon_mode_auto_with_env :: "(rstr \<Rightarrow> rstr option) \<Rightarrow> icon_mode" where
  "detect_icon_mode_auto_with_env env =
     (if (case env (lit ''TERM'') of Some term \<Rightarrow> eq_ignore_ascii_case term (lit ''dumb'') | None \<Rightarrow> False)
      then IconsDisabled
      else if \<not> (locale_has_utf8 (env (lit ''LC_ALL'')) \<or> locale_has_utf8 (env (lit ''LC_CTYPE'')) \<or>
          locale_has_utf8 (env (lit ''LANG'')))
      then IconsDisabled
      else IconsEnabled)"

fun var_text :: "env_var \<Rightarrow> rstr option" where
  "var_text (VarText v) = Some v"
| "var_text _ = None"

definition detect_icon_mode_auto :: "(rstr \<Rightarrow> env_var) \<Rightarrow> icon_mode" where
  "detect_icon_mode_auto var = detect_icon_mode_auto_with_env
     (\<lambda>key. if key \<in> {lit ''TERM'', lit ''LC_ALL'', lit ''LC_CTYPE'', lit ''LANG''}
            then var_text (var key) else None)"

definition resolve_icon_mode :: "(rstr \<Rightarrow> env_var) \<Rightarrow> icon_mode" where
  "resolve_icon_mode var =
     (case parse_use_nerd_fonts_env (var (lit ''USE_NERD_FONTS'')) of
        Some True \<Rightarrow> IconsEnabled
      | Some False \<Rightarrow> IconsDisabled
      | None \<Rightarrow> detect_icon_mode_auto var)"


section \<open>Labels\<close>

definition icon_label :: "icon_mode \<Rightarrow> nat \<Rightarrow> rstr \<Rightarrow> rstr" where
  "icon_label im icon text = (case im of IconsEnabled \<Rightarrow> icon # 32 # text | IconsDisabled \<Rightarrow> text)"

definition services_label :: "icon_mode \<Rightarrow> rstr" where
  "services_label im = icon_label im 0xF085 (lit ''Services'')"

definition forwards_label :: "icon_mode \<Rightarrow> rstr" where
  "forwards_label im = icon_label im 0xF064 (lit ''Forwards'')"

definition connections_label :: "icon_mode \<Rightarrow> bool \<Rightarrow> rstr" where
  "connections_label im compact =
     icon_label im 0xF0C1 (if compact then lit ''Conns'' else lit ''Active Connections'')"

definition status_running_label :: "icon_mode \<Rightarrow> rstr" where
  "status_running_label im = icon_label im 0xF058 (lit ''running'')"

definition status_disconnected_label :: "icon_mode \<Rightarrow> rstr" where
  "status_disconnected_label im = icon_label im 0xF06A (lit ''disconnected'')"

definition status_up_label :: "icon_mode \<Rightarrow> rstr" where
  "status_up_label im = icon_label im 0xF058 (lit ''up'')"

definition status_down_label :: "icon_mode \<Rightarrow> rstr" where
  "status_down_label im = icon_label im 0xF06A (lit ''down'')"

fun endpoint_label :: "icon_mode \<Rightarrow> bool \<Rightarrow> rstr" where
  "endpoint_label IconsEnabled True = [0xF0A5F]"
| "endpoint_label IconsEnabled False = 0xF0A5F # lit '' endpoint''"
| "endpoint_label IconsDisabled True = lit ''ep''"
| "endpoint_label IconsDisabled False = lit ''endpoint''"

definition compact_counters_label :: "icon_mode \<Rightarrow> status_info \<Rightarrow> rstr" where
  "compact_counters_label im si =
     (case im of
        IconsEnabled \<Rightarrow>
          [32, 32, 0xF085, 58] @ show_nat (si_served si) @ [32, 32, 0xF064, 58] @ show_nat (si_forwards si) @
          [32, 32, 0xF0C1, 58] @ show_nat (si_connections si)
      | IconsDisabled \<Rightarrow>
          lit '' sv:'' @ show_nat (si_served si) @ lit '' fw:'' @ show_nat (si_forwards si) @
          lit '' cn:'' @ show_nat (si_connections si))"

definition truncate_with_ellipsis :: "rstr \<Rightarrow> nat \<Rightarrow> rstr" where
  "truncate_with_ellipsis value max_chars =
     (if length value \<le> max_chars then value
      else if max_chars = 0 then []
      else if max_chars \<le> 3 then replicate max_chars 46
      else take (max_chars - 3) value @ lit ''...'')"


section \<open>Properties\<close>

text \<open>A shortened text never exceeds its width; it is the text itself when that fits, and
  otherwise uses the whole width, ends in dots and keeps as much of the start as they leave
  room for.\<close>

theorem truncate_fits:
  "length (truncate_with_ellipsis v n) = min (length v) n \<and>
   (if length v \<le> n then truncate_with_ellipsis v n = v
    else truncate_with_ellipsis v n = take (n - 3) v @ replicate (min n 3) 46)"
  by (auto simp: truncate_with_ellipsis_def numeral_3_eq_3 min_def)

text \<open>The icon font is used when the variable asks for it; else the locale decides.\<close>

lemma resolve_icon_mode_forced:
  "var (lit ''USE_NERD_FONTS'') = VarText v \<Longrightarrow> parse_use_nerd_fonts_value v = Some b \<Longrightarrow>
     resolve_icon_mode var = (if b then IconsEnabled else IconsDisabled)"
  by (simp add: resolve_icon_mode_def del: lit_simps split: bool.splits)

end
