(* ===== verification/Tui_Keys.thy ===== *)
theory Tui_Keys
  imports Tui_State Tui_Labels Cli_Commands
begin

text \<open>
  What the keys of the terminal interface do (\<open>src/tui.rs\<close>): reading the server into a
  snapshot, starting it, the dialogs with the changes they make on the server and in the
  configuration, and the loop that handles one event after the other. A session is the world
  together with whether a control client is cached.
\<close>

section \<open>The session\<close>

type_synonym 'i session = "bool \<times> 'i world"

definition on_world :: "('i world, 'e, 'a) act \<Rightarrow> ('i session, 'e, 'a) act" where
  "on_world m s = (case s of (cached, w) \<Rightarrow> (case m w of (r, w') \<Rightarrow> (r, (cached, w'))))"

definition get_or_connect_control_client :: "'i client_env \<Rightarrow> ('i session, error, unit) act" where
  "get_or_connect_control_client env s =
     (case s of (cached, w) \<Rightarrow>
        if cached then (Inr (), s)
        else (case connect env w of
            (Inl e, w') \<Rightarrow> (Inl e, (False, w'))
          | (Inr _, w') \<Rightarrow> (Inr (), (True, w'))))"

text \<open>A failure drops the cached client and shows a disconnected server.\<close>

definition disconnected :: "('i session, 'e, snapshot_data) act" where
  "disconnected s = (Inr snapshot_default, (False, snd s))"

definition or_disconnected ::
  "('i session, error, 'a) act \<Rightarrow> ('a \<Rightarrow> ('i session, error, snapshot_data) act) \<Rightarrow>
   ('i session, error, snapshot_data) act" where
  "or_disconnected m k = bindA (attemptA m) (\<lambda>r. case r of Inl _ \<Rightarrow> disconnected | Inr a \<Rightarrow> k a)"

definition fetch_snapshot :: "'i client_env \<Rightarrow> ('i session, error, snapshot_data) act" where
  "fetch_snapshot env =
     bindA (attemptA (get_or_connect_control_client env)) (\<lambda>c.
     case c of
       Inl _ \<Rightarrow> retA snapshot_default
     | Inr _ \<Rightarrow>
         or_disconnected (on_world (client_status env)) (\<lambda>status.
         case status of
           None \<Rightarrow> disconnected
         | Some _ \<Rightarrow>
             or_disconnected (on_world (client_list_serves env)) (\<lambda>services.
             or_disconnected (on_world (client_list_forwards env)) (\<lambda>fwds.
             or_disconnected (on_world (client_list_connections env)) (\<lambda>connections.
             retA \<lparr>sn_status = status, sn_services = services, sn_forwards = fwds,
               sn_connections = connections\<rparr>)))))"

definition backend_texts :: startup_texts where
  "backend_texts = \<lparr>
     ut_spawn = lit ''failed to start backend server process'',
     ut_wait = lit ''failed while waiting for backend startup'',
     ut_exited = lit ''backend server exited while starting'',
     ut_timeout = lit ''timed out waiting for backend server to start''\<rparr>"

definition start_backend ::
  "'i client_env \<Rightarrow> 'i startup \<Rightarrow> rstr option \<Rightarrow> rstr \<Rightarrow> bool \<Rightarrow> ('i world, error, bool) act" where
  "start_backend env su key_file config_file mdns =
     bindA (connect_running env) (\<lambda>found.
     if found \<noteq> None then retA False
     else bindA (start_server env su backend_texts key_file config_file mdns) (\<lambda>_. retA True))"


section \<open>Keys outside a dialog\<close>

datatype key_code =
    KChar nat | KTab | KBackTab | KUp | KDown | KLeft | KRight | KEnter | KEsc | KBackspace | KOther

record key_event =
  key_code :: key_code
  key_control :: bool

datatype key_action = Continue | Quit | Refresh | StartBackend

definition handle_full_key :: "key_code \<Rightarrow> app \<Rightarrow> key_action \<times> app" where
  "handle_full_key code a =
     (case code of
        KChar c \<Rightarrow>
          if [c] = lit ''q'' then (Quit, a)
          else if [c] = lit ''a'' then (Continue, if app_status a \<noteq> None then open_add_dialog (focus a) a else a)
          else if [c] = lit ''d'' then (Continue, if app_status a \<noteq> None then open_remove_dialog (focus a) a else a)
          else if [c] = lit ''s'' \<and> app_status a = None then (StartBackend, a)
          else if [c] = lit ''r'' then (Refresh, a)
          else (Continue, a)
      | KTab \<Rightarrow> (Continue, sync_compact_from_focus (a\<lparr>focus := pane_next (focus a)\<rparr>))
      | KBackTab \<Rightarrow> (Continue, sync_compact_from_focus (a\<lparr>focus := pane_prev (focus a)\<rparr>))
      | KUp \<Rightarrow> (Continue, move_selection_up (focus a) a)
      | KDown \<Rightarrow> (Continue, move_selection_down (focus a) a)
      | _ \<Rightarrow> (Continue, a))"


definition handle_compact_key :: "key_code \<Rightarrow> app \<Rightarrow> key_action \<times> app" where
  "handle_compact_key code a =
     (let pane = active_pane Compact a;
          switch_view = (if compact_focus a = FocusRoutes
            then sync_focus_from_compact (a\<lparr>compact_routes := routes_view_toggle (compact_routes a)\<rparr>) else a)
      in case code of
        KChar c \<Rightarrow>
          if [c] = lit ''q'' then (Quit, a)
          else if [c] = lit ''a'' then (Continue, if app_status a \<noteq> None then open_add_dialog pane a else a)
          else if [c] = lit ''d'' then (Continue, if app_status a \<noteq> None then open_remove_dialog pane a else a)
          else if [c] = lit ''s'' \<and> app_status a = None then (StartBackend, a)
          else if [c] = lit ''r'' then (Refresh, a)
          else (Continue, a)
      | KTab \<Rightarrow> (Continue, sync_focus_from_compact (a\<lparr>compact_focus := compact_focus_toggle (compact_focus a)\<rparr>))
      | KBackTab \<Rightarrow> (Continue, sync_focus_from_compact (a\<lparr>compact_focus := compact_focus_toggle (compact_focus a)\<rparr>))
      | KLeft \<Rightarrow> (Continue, switch_view)
      | KRight \<Rightarrow> (Continue, switch_view)
      | KUp \<Rightarrow> (Continue, move_selection_up pane a)
      | KDown \<Rightarrow> (Continue, move_selection_down pane a)
      | _ \<Rightarrow> (Continue, a))"

definition handle_non_modal_key :: "key_event \<Rightarrow> layout_mode \<Rightarrow> app \<Rightarrow> key_action \<times> app" where
  "handle_non_modal_key key lm a =
     (case lm of Full \<Rightarrow> handle_full_key (key_code key) a | Compact \<Rightarrow> handle_compact_key (key_code key) a)"


section \<open>Keys in a dialog\<close>

datatype modal_outcome = Stay | Close | ShowInfo rstr | ShowError error

definition connected :: "'i client_env \<Rightarrow> ('i session, error, unit) act" where
  "connected env = mapErrA (context_err (lit ''failed to connect to running server''))
     (get_or_connect_control_client env)"

definition tui_serve_texts :: "path \<Rightarrow> rstr \<Rightarrow> rstr \<Rightarrow> rule_texts" where
  "tui_serve_texts p name tgt = \<lparr>
     rt_add_failed = lit ''failed to add service '' @ quoted (arrow name tgt),
     rt_persist_failed = lit ''failed to persist service '' @ quoted name @ lit '' in '' @ path_display p,
     rt_rolled_back = lit ''rolled back runtime service after persistence failure'',
     rt_rollback_failed = lit ''failed to roll back runtime service after persistence failure: ''\<rparr>"

definition tui_forward_texts :: "path \<Rightarrow> rstr \<Rightarrow> rstr \<Rightarrow> rule_texts" where
  "tui_forward_texts p listen remote = \<lparr>
     rt_add_failed = lit ''failed to add forward '' @ quoted (arrow listen remote),
     rt_persist_failed = lit ''failed to persist forward '' @ quoted listen @ lit '' in '' @ path_display p,
     rt_rolled_back = lit ''rolled back runtime forward after persistence failure'',
     rt_rollback_failed = lit ''failed to roll back runtime forward after persistence failure: ''\<rparr>"

definition submit_service ::
  "'i client_env \<Rightarrow> toml \<Rightarrow> path \<Rightarrow> add_service_dialog \<Rightarrow> ('i session, error, modal_outcome) act" where
  "submit_service env tm p d =
     (let name = trim (as_name d); tgt = trim (as_target d) in
      if name = [] \<or> tgt = []
      then retA (ShowError (anyhow (lit ''service name and target are required'')))
      else
        bindA (connected env) (\<lambda>_.
        bindA (on_world (install_rule (tui_serve_texts p name tgt) (as_persist d)
          (client_add_serve env name tgt) (on_fs (add_persistent_serve_rule tm p name tgt))
          (client_del_serve env name))) (\<lambda>_.
        retA (ShowInfo (lit ''Added service: '' @ arrow name tgt @
          (if as_persist d then lit '' (persisted)'' else []))))))"

definition handle_add_service_key ::
  "'i client_env \<Rightarrow> toml \<Rightarrow> path \<Rightarrow> key_event \<Rightarrow> add_service_dialog \<Rightarrow>
   ('i session, error, modal_outcome \<times> add_service_dialog) act" where
  "handle_add_service_key env tm p key d =
     (case key_code key of
        KEsc \<Rightarrow> retA (Close, d)
      | KTab \<Rightarrow> retA (Stay, d\<lparr>as_field := field_next (as_field d)\<rparr>)
      | KBackTab \<Rightarrow> retA (Stay, d\<lparr>as_field := field_prev (as_field d)\<rparr>)
      | KBackspace \<Rightarrow> retA (Stay,
          if as_field d = 0 then d\<lparr>as_name := butlast (as_name d)\<rparr>
          else if as_field d = 1 then d\<lparr>as_target := butlast (as_target d)\<rparr> else d)
      | KChar c \<Rightarrow> retA (Stay,
          if c = 32 \<and> as_field d = 2 then d\<lparr>as_persist := \<not> as_persist d\<rparr>
          else if as_field d < 2 \<and> \<not> key_control key then
            (if as_field d = 0 then d\<lparr>as_name := as_name d @ [c]\<rparr> else d\<lparr>as_target := as_target d @ [c]\<rparr>)
          else d)
      | KEnter \<Rightarrow> bindA (submit_service env tm p d) (\<lambda>out. retA (out, d))
      | _ \<Rightarrow> retA (Stay, d))"

definition submit_forward ::
  "'i client_env \<Rightarrow> toml \<Rightarrow> path \<Rightarrow> add_forward_dialog \<Rightarrow> ('i session, error, modal_outcome) act" where
  "submit_forward env tm p d =
     (let listen = trim (af_listen d); remote = trim (af_remote d) in
      if listen = [] \<or> remote = []
      then retA (ShowError (anyhow (lit ''listen and remote are required'')))
      else
        bindA (liftA (with_context (lit ''invalid remote path '' @ quoted remote)
          (remote_from_str (ce_parse_id env) remote))) (\<lambda>_.
        bindA (connected env) (\<lambda>_.
        bindA (on_world (install_rule (tui_forward_texts p listen remote) (af_persist d)
          (client_add_forward env listen remote (af_persist d) 2)
          (on_fs (add_persistent_forward_rule (ce_parse_id env) tm p listen remote 2))
          (client_del_forward env listen))) (\<lambda>_.
        retA (ShowInfo (lit ''Added forward: '' @ arrow listen remote @
          (if af_persist d then lit '' (persisted)'' else [])))))))"

definition handle_add_forward_key ::
  "'i client_env \<Rightarrow> toml \<Rightarrow> path \<Rightarrow> key_event \<Rightarrow> add_forward_dialog \<Rightarrow>
   ('i session, error, modal_outcome \<times> add_forward_dialog) act" where
  "handle_add_forward_key env tm p key d =
     (case key_code key of
        KEsc \<Rightarrow> retA (Close, d)
      | KTab \<Rightarrow> retA (Stay, d\<lparr>af_field := field_next (af_field d)\<rparr>)
      | KBackTab \<Rightarrow> retA (Stay, d\<lparr>af_field := field_prev (af_field d)\<rparr>)
      | KBackspace \<Rightarrow> retA (Stay,
          if af_field d = 0 then d\<lparr>af_listen := butlast (af_listen d)\<rparr>
          else if af_field d = 1 then d\<lparr>af_remote := butlast (af_remote d)\<rparr> else d)
      | KChar c \<Rightarrow> retA (Stay,
          if c = 32 \<and> af_field d = 2 then d\<lparr>af_persist := \<not> af_persist d\<rparr>
          else if af_field d < 2 \<and> \<not> key_control key then
            (if af_field d = 0 then d\<lparr>af_listen := af_listen d @ [c]\<rparr>
             else d\<lparr>af_remote := af_remote d @ [c]\<rparr>)
          else d)
      | KEnter \<Rightarrow> bindA (submit_forward env tm p d) (\<lambda>out. retA (out, d))
      | _ \<Rightarrow> retA (Stay, d))"

definition submit_removal ::
  "'i client_env \<Rightarrow> toml \<Rightarrow> path \<Rightarrow> remove_forward_dialog \<Rightarrow> ('i session, error, modal_outcome) act" where
  "submit_removal env tm p d =
     bindA (connected env) (\<lambda>_.
     bindA (mapErrA (context_err (lit ''failed to remove forward '' @ quoted (rf_listen d)))
       (on_world (client_del_forward env (rf_listen d)))) (\<lambda>_.
     if rf_persistently d then
       bindA (mapErrA (context_err (lit ''failed to update persisted forwards in '' @ path_display p))
         (on_world (on_fs (remove_persistent_forward_rule tm p (rf_listen d) (rf_remote d))))) (\<lambda>_.
       retA (ShowInfo (lit ''Removed forward: '' @ arrow (rf_listen d) (rf_remote d) @
         lit '' (runtime + config)'')))
     else
       retA (ShowInfo (lit ''Removed forward: '' @ arrow (rf_listen d) (rf_remote d) @
         lit '' (runtime only)''))))"

definition handle_remove_forward_key ::
  "'i client_env \<Rightarrow> toml \<Rightarrow> path \<Rightarrow> key_event \<Rightarrow> remove_forward_dialog \<Rightarrow>
   ('i session, error, modal_outcome \<times> remove_forward_dialog) act" where
  "handle_remove_forward_key env tm p key d =
     (let toggled = d\<lparr>rf_persistently := \<not> rf_persistently d\<rparr> in
      case key_code key of
        KEsc \<Rightarrow> retA (Close, d)
      | KTab \<Rightarrow> retA (Stay, toggled)
      | KLeft \<Rightarrow> retA (Stay, toggled)
      | KRight \<Rightarrow> retA (Stay, toggled)
      | KChar c \<Rightarrow> retA (Stay, if c = 32 then toggled else d)
      | KEnter \<Rightarrow> bindA (submit_removal env tm p d) (\<lambda>out. retA (out, d))
      | _ \<Rightarrow> retA (Stay, d))"

definition handle_modal_key ::
  "'i client_env \<Rightarrow> toml \<Rightarrow> path \<Rightarrow> key_event \<Rightarrow> modal \<Rightarrow>
   ('i session, error, modal_outcome \<times> modal) act" where
  "handle_modal_key env tm p key m =
     (case m of
        MessageModal title body \<Rightarrow>
          retA (if key_code key = KEnter \<or> key_code key = KEsc then Close else Stay, m)
      | AddServiceModal d \<Rightarrow>
          bindA (handle_add_service_key env tm p key d) (\<lambda>(out, d'). retA (out, AddServiceModal d'))
      | AddForwardModal d \<Rightarrow>
          bindA (handle_add_forward_key env tm p key d) (\<lambda>(out, d'). retA (out, AddForwardModal d'))
      | RemoveServiceModal name \<Rightarrow>
          (case key_code key of
             KEsc \<Rightarrow> retA (Close, m)
           | KEnter \<Rightarrow>
               bindA (connected env) (\<lambda>_.
               bindA (mapErrA (context_err (lit ''failed to remove service '' @ quoted name))
                 (on_world (client_del_serve env name))) (\<lambda>_.
               retA (ShowInfo (lit ''Removed service: '' @ name), m)))
           | _ \<Rightarrow> retA (Stay, m))
      | RemoveForwardModal d \<Rightarrow>
          bindA (handle_remove_forward_key env tm p key d) (\<lambda>(out, d'). retA (out, RemoveForwardModal d')))"


section \<open>The loop\<close>

record 'i tui =
  tu_app :: app
  tu_session :: "'i session"

definition on_session :: "('i session, 'e, 'a) act \<Rightarrow> ('i tui, 'e, 'a) act" where
  "on_session m t = (case m (tu_session t) of (r, s) \<Rightarrow> (r, t\<lparr>tu_session := s\<rparr>))"

definition modify_app :: "(app \<Rightarrow> app) \<Rightarrow> ('i tui, 'e, unit) act" where
  "modify_app f t = (Inr (), t\<lparr>tu_app := f (tu_app t)\<rparr>)"

definition refresh :: "'i client_env \<Rightarrow> ('i tui, error, unit) act" where
  "refresh env = bindA (on_session (fetch_snapshot env)) (\<lambda>sn. modify_app (apply_snapshot sn))"

text \<open>What the loop is given: the library's parameters and the command line.\<close>

record 'i tui_env =
  te_client :: "'i client_env"
  te_startup :: "'i startup"
  te_toml :: toml
  te_config :: path
  te_key_file :: "rstr option"
  te_config_file :: rstr
  te_mdns :: bool

definition after_modal_key :: "'i tui_env \<Rightarrow> error + modal_outcome \<times> modal \<Rightarrow> ('i tui, error, unit) act" where
  "after_modal_key te r =
     (case r of
        Inr (Stay, m) \<Rightarrow> modify_app (\<lambda>a. a\<lparr>modal := Some m\<rparr>)
      | Inr (Close, _) \<Rightarrow> refresh (te_client te)
      | Inr (ShowInfo message, _) \<Rightarrow> bindA (refresh (te_client te)) (\<lambda>_. modify_app (set_info message))
      | Inr (ShowError err, _) \<Rightarrow> modify_app (set_error err)
      | Inl err \<Rightarrow> modify_app (set_error err))"

definition after_key :: "'i tui_env \<Rightarrow> key_action \<Rightarrow> ('i tui, error, bool) act" where
  "after_key te action =
     (case action of
        Quit \<Rightarrow> retA True
      | Refresh \<Rightarrow> bindA (refresh (te_client te)) (\<lambda>_. retA False)
      | StartBackend \<Rightarrow>
          bindA (attemptA (on_session (on_world (start_backend (te_client te) (te_startup te)
            (te_key_file te) (te_config_file te) (te_mdns te))))) (\<lambda>r.
          bindA (case r of
              Inr started \<Rightarrow> bindA (refresh (te_client te)) (\<lambda>_. modify_app (set_info
                (if started then lit ''Started backend server'' else lit ''Backend is already running'')))
            | Inl err \<Rightarrow> modify_app (set_error err)) (\<lambda>_. retA False))
      | Continue \<Rightarrow> retA False)"

definition handle_key :: "'i tui_env \<Rightarrow> key_event \<Rightarrow> layout_mode \<Rightarrow> ('i tui, error, bool) act" where
  "handle_key te key lm t =
     (case modal (tu_app t) of
        Some m \<Rightarrow>
          bindA (modify_app (\<lambda>a. a\<lparr>modal := None\<rparr>)) (\<lambda>_.
          bindA (attemptA (on_session (handle_modal_key (te_client te) (te_toml te) (te_config te) key m))) (\<lambda>r.
          bindA (after_modal_key te r) (\<lambda>_. retA False))) t
      | None \<Rightarrow>
          (case handle_non_modal_key key lm (tu_app t) of
             (action, a) \<Rightarrow> after_key te action (t\<lparr>tu_app := a\<rparr>)))"

text \<open>The events the loop selects from; a terminal call may fail before any of them.\<close>

datatype tui_event = Tick | KeyPress key_event "16 word" "16 word" | InputEnded | TerminalFailed error

definition tui_step :: "'i tui_env \<Rightarrow> tui_event \<Rightarrow> ('i tui, error, bool) act" where
  "tui_step te ev =
     (case ev of
        Tick \<Rightarrow>
          bindA (attemptA (refresh (te_client te))) (\<lambda>r.
          bindA (case r of Inl err \<Rightarrow> modify_app (set_error err) | Inr _ \<Rightarrow> retA ()) (\<lambda>_. retA False))
      | KeyPress key width height \<Rightarrow> handle_key te key (layout_mode_for_dimensions width height)
      | InputEnded \<Rightarrow> retA True
      | TerminalFailed e \<Rightarrow> failA e)"

fun tui_loop :: "'i tui_env \<Rightarrow> tui_event list \<Rightarrow> ('i tui, error, bool) act" where
  "tui_loop te [] = retA False"
| "tui_loop te (ev # evs) = bindA (tui_step te ev) (\<lambda>quit. if quit then retA True else tui_loop te evs)"

definition run_tui_loop ::
  "'i tui_env \<Rightarrow> (rstr \<Rightarrow> env_var) \<Rightarrow> tui_event list \<Rightarrow> 'i world \<Rightarrow> (error + bool) \<times> 'i tui" where
  "run_tui_loop te var evs w =
     bindA (refresh (te_client te)) (\<lambda>_. tui_loop te evs)
       \<lparr>tu_app = app_default\<lparr>icons := resolve_icon_mode var\<rparr>, tu_session = (False, w)\<rparr>"

end
