(* ===== verification/Tui_Invariant.thy ===== *)
theory Tui_Invariant
  imports Tui_Keys
begin

text \<open>
  Properties of the terminal interface: it keeps its invariant and survives every failure of
  the server, the link and the files; what it shows after a refresh; and that its dialogs
  change the server and the configuration as the commands of \<open>Cli_Commands\<close> do.
\<close>

section \<open>The invariant\<close>

text \<open>An action that cannot fail and keeps a predicate.\<close>

abbreviation safe :: "('s \<Rightarrow> bool) \<Rightarrow> ('s, 'e, 'a) act \<Rightarrow> bool" where
  "safe P m \<equiv> hoare P m (\<lambda>_. P) (\<lambda>_ _. False)"

lemma hoare_trivial: "hoare P m (\<lambda>_ _. True) (\<lambda>_ _. True)"
  by (auto simp: hoare_def split: prod.splits sum.splits)

lemma safe_ret: "safe P (retA a)"
  by (simp add: hoare_def retA_def)

lemma safe_bind: "safe P m \<Longrightarrow> (\<And>a. safe P (f a)) \<Longrightarrow> safe P (bindA m f)"
  by (rule hoare_bind)

lemma safe_attempt: "keeps P m \<Longrightarrow> safe P (attemptA m)"
  by (rule hoare_attempt)

text \<open>A snapshot is always taken.\<close>

abbreviation always :: "('s, 'e, 'a) act \<Rightarrow> bool" where
  "always m \<equiv> safe (\<lambda>_. True) m"

lemma always_disconnected: "always disconnected"
  by (simp add: hoare_def disconnected_def)

lemma always_attempt: "always (attemptA m)"
  by (rule safe_attempt) (rule hoare_trivial)

lemma always_or_disconnected: "(\<And>a. always (k a)) \<Longrightarrow> always (or_disconnected m k)"
  unfolding or_disconnected_def
  by (intro safe_bind always_attempt) (auto intro: always_disconnected split: sum.splits)

lemma always_fetch: "always (fetch_snapshot env)"
  unfolding fetch_snapshot_def
  by (intro safe_bind always_attempt)
    (auto intro!: always_or_disconnected always_disconnected safe_ret split: sum.splits option.splits)

definition tui_ok :: "'i tui \<Rightarrow> bool" where
  "tui_ok t \<longleftrightarrow> app_ok (tu_app t)"

lemma safe_modify: "(\<And>a. app_ok a \<Longrightarrow> app_ok (f a)) \<Longrightarrow> safe tui_ok (modify_app f)"
  by (simp add: hoare_def modify_app_def tui_ok_def)

lemma keeps_session: "keeps tui_ok (on_session m)"
  by (auto simp: hoare_def on_session_def tui_ok_def split: prod.splits sum.splits)

lemma on_session_eq: "on_session m t = (fst (m (tu_session t)), t\<lparr>tu_session := snd (m (tu_session t))\<rparr>)"
  by (simp add: on_session_def split: prod.splits)

lemma safe_session:
  assumes "always m"
  shows "safe tui_ok (on_session m)"
proof (rule hoareI)
  fix t a t' assume "tui_ok t" "on_session m t = (Inr a, t')"
  then show "tui_ok t'" by (auto simp: on_session_eq tui_ok_def)
next
  fix t e t' assume "tui_ok t" "on_session m t = (Inl e, t')"
  then have "m (tu_session t) = (Inl e, snd (m (tu_session t)))"
    by (auto simp: on_session_eq prod_eq_iff)
  with hoareD_err [OF assms] show False by blast
qed

lemma safe_refresh: "safe tui_ok (refresh env)"
  unfolding refresh_def by (intro safe_bind safe_session always_fetch safe_modify) simp

text \<open>A dialog key leaves a well-formed dialog.\<close>

definition dialog_kept :: "('i session, error, 'o \<times> modal) act \<Rightarrow> bool" where
  "dialog_kept m \<longleftrightarrow> hoare (\<lambda>_. True) m (\<lambda>(_, d) _. modal_ok d) (\<lambda>_ _. True)"

lemma dialog_kept_ret: "modal_ok d \<Longrightarrow> dialog_kept (retA (out, d))"
  by (simp add: dialog_kept_def hoare_def retA_def)

lemma dialog_kept_bind: "(\<And>a. dialog_kept (f a)) \<Longrightarrow> dialog_kept (bindA m f)"
  unfolding dialog_kept_def by (rule hoare_bind [OF hoare_trivial])

lemma bindA_assoc: "bindA (bindA m f) g = bindA m (\<lambda>x. bindA (f x) g)"
  by (rule ext) (simp add: bindA_def split: prod.splits sum.splits)

lemma field_bounds [simp]: "field_next f < 3" "field_prev f < 3"
  by (simp_all add: field_next_def field_prev_def)

lemma dialog_kept_service:
  "as_field d < 3 \<Longrightarrow>
     dialog_kept (bindA (handle_add_service_key env tm p key d) (\<lambda>(out, d'). retA (out, AddServiceModal d')))"
  by (cases "key_code key")
    (auto simp: handle_add_service_key_def bindA_assoc intro!: dialog_kept_bind dialog_kept_ret)

lemma dialog_kept_forward:
  "af_field d < 3 \<Longrightarrow>
     dialog_kept (bindA (handle_add_forward_key env tm p key d) (\<lambda>(out, d'). retA (out, AddForwardModal d')))"
  by (cases "key_code key")
    (auto simp: handle_add_forward_key_def bindA_assoc intro!: dialog_kept_bind dialog_kept_ret)

lemma dialog_kept_modal:
  assumes "modal_ok m"
  shows "dialog_kept (handle_modal_key env tm p key m)"
proof (cases m)
  case (AddServiceModal d)
  with assms show ?thesis by (simp add: handle_modal_key_def dialog_kept_service)
next
  case (AddForwardModal d)
  with assms show ?thesis by (simp add: handle_modal_key_def dialog_kept_forward)
qed (auto simp: handle_modal_key_def intro!: dialog_kept_bind dialog_kept_ret
    split: key_code.splits prod.splits)

lemma app_ok_handle_full: "app_ok a \<Longrightarrow> app_ok (snd (handle_full_key code a))"
  by (cases code) (simp_all add: handle_full_key_def app_ok_sync_compact)

lemma app_ok_handle_compact: "app_ok a \<Longrightarrow> app_ok (snd (handle_compact_key code a))"
proof -
  assume ok: "app_ok a"
  have "app_ok (sync_focus_from_compact (a\<lparr>compact_routes := rv\<rparr>))"
    "app_ok (sync_focus_from_compact (a\<lparr>compact_focus := cf\<rparr>))" for rv cf
    using app_ok_sync_focus [OF ok, where cf = "compact_focus a" and rv = rv]
      app_ok_sync_focus [OF ok, where cf = cf and rv = "compact_routes a"]
    by simp_all
  with ok show ?thesis by (cases code) (simp_all add: handle_compact_key_def Let_def)
qed

lemma app_ok_handle: "app_ok a \<Longrightarrow> app_ok (snd (handle_non_modal_key key lm a))"
  by (simp add: handle_non_modal_key_def app_ok_handle_full app_ok_handle_compact split: layout_mode.splits)

lemma safe_after_key: "safe tui_ok (after_key te action)"
  unfolding after_key_def
  by (cases action) (auto intro!: safe_bind safe_ret safe_refresh safe_attempt keeps_session safe_modify
      split: sum.splits)

lemma safe_after_modal:
  "(case r of Inr (_, m) \<Rightarrow> modal_ok m | Inl _ \<Rightarrow> True) \<Longrightarrow> safe tui_ok (after_modal_key te r)"
  unfolding after_modal_key_def
  by (auto intro!: safe_bind safe_refresh safe_modify split: sum.splits prod.splits modal_outcome.splits)

lemma hoare_session:
  assumes "hoare (\<lambda>_. True) m (\<lambda>a _. Q a) (\<lambda>_ _. True)"
  shows "hoare tui_ok (attemptA (on_session m))
    (\<lambda>r t. tui_ok t \<and> (case r of Inr a \<Rightarrow> Q a | Inl _ \<Rightarrow> True)) (\<lambda>_ _. False)"
proof (rule hoareI)
  fix t r t' assume t: "tui_ok t" and "attemptA (on_session m) t = (Inr r, t')"
  then have r: "r = fst (m (tu_session t))" "tui_ok t'"
    by (auto simp: attemptA_eq on_session_eq tui_ok_def)
  have "Q a" if "r = Inr a" for a
    using hoareD_ok [OF assms TrueI, of "tu_session t" a] that r by (simp add: prod_eq_iff)
  with r show "tui_ok t' \<and> (case r of Inr a \<Rightarrow> Q a | Inl _ \<Rightarrow> True)" by (simp split: sum.splits)
qed (simp add: attemptA_eq)

lemma hoare_given: "(b \<Longrightarrow> hoare P m Q E) \<Longrightarrow> hoare (\<lambda>s. P s \<and> b) m Q E"
  by (auto simp: hoare_def)

lemma safe_modal_key:
  assumes "modal_ok m"
  shows "safe tui_ok (bindA (modify_app (\<lambda>a. a\<lparr>modal := None\<rparr>)) (\<lambda>_.
      bindA (attemptA (on_session (handle_modal_key env tm p key m))) (\<lambda>r.
      bindA (after_modal_key te r) (\<lambda>_. retA False))))"
proof (rule safe_bind [OF safe_modify])
  show "app_ok (a\<lparr>modal := None\<rparr>)" if "app_ok a" for a using that by simp
  have "hoare (\<lambda>_. True) (handle_modal_key env tm p key m) (\<lambda>a _. modal_ok (snd a)) (\<lambda>_ _. True)"
    using dialog_kept_modal [OF assms] by (simp add: dialog_kept_def case_prod_unfold)
  note h = hoare_session [OF this]
  show "safe tui_ok (bindA (attemptA (on_session (handle_modal_key env tm p key m))) (\<lambda>r.
      bindA (after_modal_key te r) (\<lambda>_. retA False)))" for u :: unit
    by (rule hoare_bind [OF h], rule hoare_given, rule safe_bind [OF safe_after_modal safe_ret])
      (auto split: sum.splits)
qed

lemma safe_handle_key: "safe tui_ok (handle_key te key lm)"
proof (rule hoareI)
  fix t r t' assume ok: "tui_ok t" and run: "handle_key te key lm t = (Inr r, t')"
  show "tui_ok t'"
  proof (cases "modal (tu_app t)")
    case None
    from app_ok_handle ok have "tui_ok (t\<lparr>tu_app := snd (handle_non_modal_key key lm (tu_app t))\<rparr>)"
      by (simp add: tui_ok_def)
    from hoareD_ok [OF safe_after_key this] None run show ?thesis
      by (auto simp: handle_key_def split: prod.splits)
  next
    case (Some m)
    with ok have "modal_ok m" by (simp add: tui_ok_def app_ok_def)
    from hoareD_ok [OF safe_modal_key [OF this] ok] Some run show ?thesis by (simp add: handle_key_def)
  qed
next
  fix t e t' assume ok: "tui_ok t" and run: "handle_key te key lm t = (Inl e, t')"
  show False
  proof (cases "modal (tu_app t)")
    case None
    from app_ok_handle ok have "tui_ok (t\<lparr>tu_app := snd (handle_non_modal_key key lm (tu_app t))\<rparr>)"
      by (simp add: tui_ok_def)
    from hoareD_err [OF safe_after_key this] None run show ?thesis
      by (auto simp: handle_key_def split: prod.splits)
  next
    case (Some m)
    with ok have "modal_ok m" by (simp add: tui_ok_def app_ok_def)
    from hoareD_err [OF safe_modal_key [OF this] ok] Some run show ?thesis by (simp add: handle_key_def)
  qed
qed

lemma keeps_step: "keeps tui_ok (tui_step te ev)"
  and safe_step: "(\<And>e. ev \<noteq> TerminalFailed e) \<Longrightarrow> safe tui_ok (tui_step te ev)"
proof -
  have tick: "safe tui_ok (bindA (attemptA (refresh (te_client te))) (\<lambda>r.
          bindA (case r of Inl err \<Rightarrow> modify_app (set_error err) | Inr _ \<Rightarrow> retA ()) (\<lambda>_. retA False)))"
    by (intro safe_bind safe_attempt safe_ret)
      (auto intro!: safe_modify safe_ret hoare_conseq [OF safe_refresh] split: sum.splits)
  show s: "safe tui_ok (tui_step te ev)" if "\<And>e. ev \<noteq> TerminalFailed e"
    using that tick safe_handle_key safe_ret by (cases ev) (auto simp: tui_step_def)
  show "keeps tui_ok (tui_step te ev)"
  proof (cases "\<exists>e. ev = TerminalFailed e")
    case True
    then show ?thesis by (auto simp: tui_step_def intro: keeps_fail)
  next
    case False
    then show ?thesis by (intro hoare_conseq [OF s]) auto
  qed
qed


lemma safe_loop: "list_all (\<lambda>ev. \<forall>e. ev \<noteq> TerminalFailed e) evs \<Longrightarrow> safe tui_ok (tui_loop te evs)"
proof (induction evs)
  case Nil
  then show ?case by (simp add: safe_ret)
next
  case (Cons ev evs)
  then show ?case
    by (auto intro!: safe_bind safe_step safe_ret)
qed

lemma keeps_loop: "keeps tui_ok (tui_loop te evs)"
  by (induction evs) (auto intro!: keeps_bind keeps_step keeps_ret)


section \<open>Properties\<close>

text \<open>C18. The interface keeps its invariant at every event: the tables stay sorted, a table with
  rows has a selected row that exists and an empty one has none, the two layouts agree on the
  focused pane, and an open dialog is on one of its three fields. And nothing that goes wrong
  behind it ends the interface: only a failing terminal call is an error of the loop, however
  the server, the link, the configuration file and a background start behave.\<close>

theorem tui_keeps_invariant:
  "app_ok (tu_app (snd (run_tui_loop te var evs w))) \<and>
   (list_all (\<lambda>ev. \<forall>e. ev \<noteq> TerminalFailed e) evs \<longrightarrow> is_ok (fst (run_tui_loop te var evs w)))"
proof -
  let ?t = "\<lparr>tu_app = app_default\<lparr>icons := resolve_icon_mode var\<rparr>, tu_session = (False, w)\<rparr>"
  let ?run = "bindA (refresh (te_client te)) (\<lambda>_. tui_loop te evs)"
  have ok: "tui_ok ?t" by (simp add: tui_ok_def)
  have "keeps tui_ok ?run"
    by (intro keeps_bind keeps_loop hoare_conseq [OF safe_refresh]) auto
  from keepsD [OF this ok] have "app_ok (tu_app (snd (?run ?t)))" by (simp add: tui_ok_def)
  moreover have "is_ok (fst (?run ?t))" if "list_all (\<lambda>ev. \<forall>e. ev \<noteq> TerminalFailed e) evs"
  proof -
    have "safe tui_ok ?run" using that by (intro safe_bind safe_refresh safe_loop)
    with ok show ?thesis by (cases "?run ?t"; cases "fst (?run ?t)") (auto dest: hoareD_err)
  qed
  ultimately show ?thesis by (simp add: run_tui_loop_def)
qed


definition sample_tui_env :: "rstr tui_env" where
  "sample_tui_env = \<lparr>te_client = sample_env, te_startup = sample_startup, te_toml = sample_toml,
     te_config = [[99]], te_key_file = None, te_config_file = [99], te_mdns = True\<rparr>"

theorem tui_keeps_invariant_witness:
  "is_ok (fst (run_tui_loop sample_tui_env (\<lambda>_. VarNotPresent)
     [Tick, KeyPress \<lparr>key_code = KChar 97, key_control = False\<rparr> 200 50, InputEnded] sample_world))"
  using tui_keeps_invariant [of sample_tui_env "\<lambda>_. VarNotPresent"
      "[Tick, KeyPress \<lparr>key_code = KChar 97, key_control = False\<rparr> 200 50, InputEnded]" sample_world]
  by simp

text \<open>The texts of a rule do not change what is done.\<close>

lemma install_rule_texts:
  "is_ok (fst (install_rule t1 persistent add (on_fs persist) del w)) =
     is_ok (fst (install_rule t2 persistent add (on_fs persist) del w)) \<and>
   snd (install_rule t1 persistent add (on_fs persist) del w) =
     snd (install_rule t2 persistent add (on_fs persist) del w)"
proof (cases "add w")
  case (Pair r1 w1)
  show ?thesis
  proof (cases r1)
    case (Inl e)
    with Pair show ?thesis by (simp add: install_rule_def bindA_def mapErrA_def)
  next
    case (Inr u)
    obtain rp s where p: "persist (w_fs w1) = (rp, s)" by fastforce
    obtain rd w2 where d: "del (w1\<lparr>w_fs := s\<rparr>) = (rd, w2)" by fastforce
    from Pair Inr p d show ?thesis
      by (cases rp) (simp_all add: install_rule_def bindA_def mapErrA_def retA_def attemptA_def on_fs_def failA_def)
  qed
qed

lemma command_outcome:
  "is_ok (fst (bindA m (\<lambda>_. announce a b persistent) w)) = is_ok (fst (m w)) \<and>
   (snd (bindA m (\<lambda>_. announce a b persistent) w))\<lparr>w_out := []\<rparr> = (snd (m w))\<lparr>w_out := []\<rparr>"
  by (cases "m w"; cases "fst (m w)")
    (simp_all add: bindA_def announce_def println_def retA_def)

lemma submit_outcome:
  "is_ok (fst (bindA (on_world m) (\<lambda>_. retA x) (c, w))) = is_ok (fst (m w)) \<and>
   snd (snd (bindA (on_world m) (\<lambda>_. retA x) (c, w))) = snd (m w)"
  by (cases "m w"; cases "fst (m w)") (simp_all add: bindA_def on_world_def retA_def)

lemma connected_cached: "bindA (connected env) f (True, w) = f () (True, w)"
  by (simp add: connected_def get_or_connect_control_client_def bindA_def mapErrA_def)

text \<open>C19. Submitting a dialog does what the command does: with the blank space around the two
  texts removed, the dialog for a new service and \<open>add-serve\<close> succeed in the same states and
  leave the same server, link and files, and so do the dialog for a new forward and
  \<open>add-forward\<close> with a timeout of two seconds, once the remote path parses.\<close>

theorem dialogs_act_like_commands:
  assumes "trim (as_name ds) \<noteq> []" "trim (as_target ds) \<noteq> []"
    and "trim (af_listen df) \<noteq> []" "trim (af_remote df) \<noteq> []"
    and "is_ok (remote_from_str (ce_parse_id env) (trim (af_remote df)))"
  shows "(case (submit_service env tm p ds (True, w),
        add_serve_command env tm p (retA ()) (as_persist ds) (trim (as_name ds)) (trim (as_target ds)) w) of
      ((r, (_, w1)), (r', w2)) \<Rightarrow> is_ok r = is_ok r' \<and> w1\<lparr>w_out := []\<rparr> = w2\<lparr>w_out := []\<rparr>) \<and>
    (case (submit_forward env tm p df (True, w),
        add_forward_command env tm p (retA ()) (af_persist df) 2 (trim (af_listen df)) (trim (af_remote df)) w) of
      ((r, (_, w1)), (r', w2)) \<Rightarrow> is_ok r = is_ok r' \<and> w1\<lparr>w_out := []\<rparr> = w2\<lparr>w_out := []\<rparr>)"
proof -
  let ?n = "trim (as_name ds)" and ?t = "trim (as_target ds)"
  let ?l = "trim (af_listen df)" and ?r = "trim (af_remote df)"
  let ?serve = "\<lambda>texts. install_rule texts (as_persist ds) (client_add_serve env ?n ?t)
    (on_fs (add_persistent_serve_rule tm p ?n ?t)) (client_del_serve env ?n)"
  let ?forward = "\<lambda>texts. install_rule texts (af_persist df) (client_add_forward env ?l ?r (af_persist df) 2)
    (on_fs (add_persistent_forward_rule (ce_parse_id env) tm p ?l ?r 2)) (client_del_forward env ?l)"
  obtain ms where s: "submit_service env tm p ds (True, w) =
      bindA (on_world (?serve (tui_serve_texts p ?n ?t))) (\<lambda>_. retA ms) (True, w)"
    using assms(1,2) by (simp add: submit_service_def Let_def connected_cached)
  obtain rp where "remote_from_str (ce_parse_id env) ?r = Inr rp" using assms(5) by (auto simp: is_ok_iff)
  then obtain mf where f: "submit_forward env tm p df (True, w) =
      bindA (on_world (?forward (tui_forward_texts p ?l ?r))) (\<lambda>_. retA mf) (True, w)"
    using assms(3,4) by (simp add: submit_forward_def Let_def connected_cached)
  show ?thesis
    unfolding s f add_serve_command_def add_forward_command_def bindA_ret_left
    using submit_outcome [of "?serve (tui_serve_texts p ?n ?t)" ms True w]
      submit_outcome [of "?forward (tui_forward_texts p ?l ?r)" mf True w]
      install_rule_texts [of "tui_serve_texts p ?n ?t" "as_persist ds" _ _ _ w "serve_texts p"]
      install_rule_texts [of "tui_forward_texts p ?l ?r" "af_persist df" _ _ _ w "forward_texts p"]
      command_outcome [of "?serve (serve_texts p)" _ _ "as_persist ds" w]
      command_outcome [of "?forward (forward_texts p)" _ _ "af_persist df" w]
    by (simp add: case_prod_unfold)
qed


theorem dialogs_act_like_commands_witness:
  "is_ok (fst (submit_service sample_env sample_toml [[99]]
     \<lparr>as_name = [32, 119], as_target = [56, 32], as_persist = True, as_field = 0\<rparr> (True, sample_world)))"
proof -
  let ?ds = "\<lparr>as_name = [32, 119], as_target = [56, 32], as_persist = True, as_field = 0\<rparr>"
  let ?df = "\<lparr>af_listen = [58], af_remote = [97, 47, 116, 99, 112, 47, 119], af_persist = False, af_field = 0\<rparr>"
  have t: "trim [32, 119] = [119]" "trim [56, 32] = [56]" "trim [58] = [58]"
    "trim [97, 47, 116, 99, 112, 47, 119] = [97, 47, 116, 99, 112, 47, 119]"
    by (simp_all add: trim_def is_whitespace_def)
  show ?thesis
    using dialogs_act_like_commands [of ?ds ?df sample_env sample_toml "[[99]]" sample_world]
      sample_add_command_ok sample_remote t
    by (simp add: case_prod_unfold)
qed

text \<open>What a refresh reads over a link that loses nothing.\<close>

lemma fetch_running:
  assumes "w_link w = []" and "w_daemon w = Some d"
  shows "fetch_snapshot env (cached, w) =
    (Inr \<lparr>sn_status = (case status (ce_show_id env) d of (eid, connections, served_count, fwds) \<Rightarrow>
         Some \<lparr>si_endpoint_id = eid, si_connections = connections, si_served = served_count, si_forwards = fwds\<rparr>),
       sn_services = map (\<lambda>(name, tgt). \<lparr>sr_name = name, sr_target = tgt\<rparr>) (list_serves d),
       sn_forwards = map (\<lambda>(listen, remote, persisted).
         \<lparr>fr_listen_addr = listen, fr_remote_path = remote, fr_is_persisted = persisted\<rparr>)
         (list_forwards (ce_show_id env) d),
       sn_connections = map (\<lambda>(cid, src, kind, dst).
         \<lparr>ar_id = cid, ar_src = src, ar_kind = kind, ar_dst = dst\<rparr>) (list_connections d)\<rparr>, (True, w))"
proof -
  have w: "w\<lparr>w_daemon := Some d\<rparr> = w" using assms(2) by simp
  have g: "get_or_connect_control_client env (cached, w) = (Inr (), (True, w))"
    using assms(1) by (simp add: get_or_connect_control_client_def connect_def take_link_def)
  have call: "rpc env meth (reading q) w = (Inr (q d), w)" for meth and q :: "'a daemon \<Rightarrow> 'b"
    using assms w by (simp add: rpc_reliable reading_def)
  show ?thesis
    by (simp add: fetch_snapshot_def bindA_def attemptA_def g or_disconnected_def on_world_def retA_def
        client_status_def client_list_serves_def client_list_forwards_def client_list_connections_def call
        split: prod.split)
qed

text \<open>C36. What the interface shows after a refresh of a running server, over a link that loses
  nothing, is the server's state: the same services, forwards and connections, each once, the
  tables sorted, the counters those of \<open>Status\<close>, and the refresh changes nothing in the world.\<close>

theorem refresh_shows_server:
  assumes "w_link w = []" and "w_daemon w = Some d" and "tu_session t = (cached, w)"
  shows "(case refresh env t of (r, t') \<Rightarrow>
      r = Inr () \<and> tu_session t' = (True, w) \<and>
      mset (map (\<lambda>r. (sr_name r, sr_target r)) (app_services (tu_app t'))) = mset (list_serves d) \<and>
      mset (map (\<lambda>r. (fr_listen_addr r, fr_remote_path r, fr_is_persisted r)) (app_forwards (tu_app t'))) =
        mset (list_forwards (ce_show_id env) d) \<and>
      mset (map (\<lambda>r. (ar_id r, ar_src r, ar_kind r, ar_dst r)) (app_connections (tu_app t'))) =
        mset (list_connections d) \<and>
      tables_ok (tu_app t') \<and> selections_ok (tu_app t') \<and>
      (\<exists>si. app_status (tu_app t') = Some si \<and> status (ce_show_id env) d =
        (si_endpoint_id si, si_connections si, si_served si, si_forwards si)))"
proof -
  obtain eid cn sv fw where st: "status (ce_show_id env) d = (eid, cn, sv, fw)"
    by (metis prod_cases4)
  show ?thesis
    using fetch_running [OF assms(1,2), of env cached] assms(3) st
    by (simp add: refresh_def bindA_def on_session_def modify_app_def apply_snapshot_def Let_def
        sort_services_def sort_forwards_def sort_connections_def tables_ok_def selections_ok_def
        multiset.map_comp comp_def case_prod_unfold)
qed


theorem refresh_shows_server_witness:
  "app_services (tu_app (snd (refresh sample_env
     \<lparr>tu_app = app_default, tu_session = (True, sample_world)\<rparr>))) = []"
proof -
  let ?res = "refresh sample_env \<lparr>tu_app = app_default, tu_session = (True, sample_world)\<rparr>"
  have "list_serves (daemon_start [] :: rstr daemon) = []"
    by (simp add: list_serves_def daemon_start_def serve_rows_def hm_empty_def hm_values_def)
  with refresh_shows_server [of sample_world "daemon_start []"
      "\<lparr>tu_app = app_default, tu_session = (True, sample_world)\<rparr>" True sample_env]
  have "mset (map (\<lambda>r. (sr_name r, sr_target r)) (app_services (tu_app (snd ?res)))) = {#}"
    by (simp add: case_prod_unfold)
  then show ?thesis by simp
qed

text \<open>C37. Removing a forward with its persistent rule compares texts: the rule in the file is found
  only if it spells the remote path as the server prints it. When it does not, the dialog still
  reports that the rule was removed from the configuration, but the file is as before and the
  forward is back after the next start.\<close>

theorem removal_misses_other_spelling:
  assumes "rf_persistently d" and "client_del_forward env (rf_listen d) w = (Inr (), w1)"
    and "forward_world (rf_listen d) w" and "toml_ok tm" "p \<noteq> []"
    and "quiet (\<lambda>q. butlast q = butlast p) (w_fs w)" and "take_turn (w_fs w) = (None, s1)"
    and "on_disk tm p (w_fs w) = Some c"
    and "list_all (\<lambda>e. fw_listen e = rf_listen d \<longrightarrow> fw_remote e \<noteq> rf_remote d) (forward_entries c)"
    and "submit_removal env tm p d (True, w) = (Inr out, (cached, w'))"
  shows "out = ShowInfo (lit ''Removed forward: '' @ arrow (rf_listen d) (rf_remote d) @
      lit '' (runtime + config)'') \<and> files (w_fs w') p = files (w_fs w) p"
proof -
  let ?m = "\<lambda>e. fw_listen e = rf_listen d \<and> fw_remote e = rf_remote d"
  have fs: "w_fs w1 = w_fs w" using forward_rule.del_keeps [OF assms(3,2)] .
  obtain rr s where rm: "remove_persistent_forward_rule tm p (rf_listen d) (rf_remote d) (w_fs w) = (rr, s)"
    by fastforce
  then have ed: "edited tm p (\<lambda>c. Inr (retain_forwards ?m c \<noteq> None, retain_forwards ?m c)) (w_fs w) rr s"
    using edit_config_spec [OF assms(4-7)] by (simp add: remove_persistent_forward_rule_def remove_rule_edit)
  have none: "retain_forwards ?m c = None"
    using assms(9) by (auto simp: retain_None list_ex_iff list_all_iff)
  have kept: "files s p = files (w_fs w) p"
    using ed assms(8) none by (auto simp: edited_def split: sum.splits)
  have "out = ShowInfo (lit ''Removed forward: '' @ arrow (rf_listen d) (rf_remote d) @
      lit '' (runtime + config)'') \<and> w_fs w' = s"
    using assms(10) rm fs assms(1,2) unfolding submit_removal_def connected_cached
    by (cases rr) (auto simp: bindA_def on_world_def mapErrA_def on_fs_def retA_def simp del: lit_simps)
  with kept show ?thesis by simp
qed


text \<open>A session whose server forwards \<open>:\<close> and whose configuration has that forward under another
  spelling of its remote path.\<close>

definition sample_forwarded :: "rstr world" where
  "sample_forwarded = snd (client_add_forward sample_env [58] [97, 47, 116, 99, 112, 47, 119] True 2
     (sample_world\<lparr>w_fs := sample_fwd_fs\<rparr>))"

lemma sample_forwarded_facts:
  "forward_world [58] sample_forwarded" "w_fs sample_forwarded = sample_fwd_fs"
  "is_ok (fst (client_del_forward sample_env [58] sample_forwarded))"
proof -
  let ?w = "sample_world\<lparr>w_fs := sample_fwd_fs\<rparr>" and ?rp = "[97, 47, 116, 99, 112, 47, 119]"
  have w: "forward_world [58] ?w" using sample_world_ok by (simp add: forward_world_def)
  have "is_ok (fst (client_add_forward sample_env [58] ?rp True 2 ?w))"
    unfolding client_requests
    by (intro rpc_granted [where d = "daemon_start []"])
      (use sample_remote in \<open>simp_all add: sample_world_ok sample_env_def\<close>)
  then have a: "client_add_forward sample_env [58] ?rp True 2 ?w = (Inr (), sample_forwarded)"
    by (cases "client_add_forward sample_env [58] ?rp True 2 ?w") (auto simp: is_ok_iff sample_forwarded_def)
  from forward_rule.add_keeps [OF w a]
  show f: "forward_world [58] sample_forwarded" and "w_fs sample_forwarded = sample_fwd_fs" by simp_all
  have l: "w_link sample_forwarded = []" by (rule forward_undo.add_link [OF _ a]) simp
  show "is_ok (fst (client_del_forward sample_env [58] sample_forwarded))"
    using forward_undo.del_there [OF f l] forward_rule.add_ok [OF w a] by simp
qed

theorem removal_misses_other_spelling_witness:
  "files (w_fs (snd (snd (submit_removal sample_env sample_toml [[99]]
     \<lparr>rf_listen = [58], rf_remote = [65, 47, 116, 99, 112, 47, 119], rf_persistently = True\<rparr>
     (True, sample_forwarded))))) [[99]] = files sample_fwd_fs [[99]]"
proof -
  let ?d = "\<lparr>rf_listen = [58], rf_remote = [65, 47, 116, 99, 112, 47, 119], rf_persistently = True\<rparr>"
  let ?res = "submit_removal sample_env sample_toml [[99]] ?d (True, sample_forwarded)"
  obtain w1 where gone: "client_del_forward sample_env [58] sample_forwarded = (Inr (), w1)"
    using sample_forwarded_facts(3)
    by (cases "client_del_forward sample_env [58] sample_forwarded") (auto simp: is_ok_iff)
  have w1: "w_fs w1 = sample_fwd_fs"
    using forward_rule.del_keeps [OF sample_forwarded_facts(1) gone] sample_forwarded_facts(2) by simp
  have e: "forward_entries (push_forward sample_forward config_default) = [sample_forward]"
    by (simp add: push_forward_def forward_entries_def config_default_def)
  have "retain_forwards (\<lambda>e. fw_listen e = [58] \<and> fw_remote e = [65, 47, 116, 99, 112, 47, 119])
      (push_forward sample_forward config_default) = None"
    using e by (simp add: retain_None sample_forward_def)
  then have rm: "remove_persistent_forward_rule sample_toml [[99]] [58] [65, 47, 116, 99, 112, 47, 119] sample_fwd_fs
      = (Inr False, log_state (log_state sample_fwd_fs))"
    by (simp add: remove_persistent_forward_rule_def remove_persistent_forward_rule_inner_def bindA_def
        sample_fwd_load retA_def)
  have "is_ok (fst ?res)"
    unfolding submit_removal_def connected_cached
    by (simp add: bindA_def on_world_def gone mapErrA_def on_fs_def w1 rm retA_def)
  then obtain out w' c where run: "?res = (Inr out, (c, w'))"
    by (cases ?res) (auto simp: is_ok_iff)
  from removal_misses_other_spelling [OF _ _ _ sample_toml_ok _ _ _ _ _ run, of w1 sample_fwd_fs
      "push_forward sample_forward config_default"] gone sample_forwarded_facts sample_fwd_disk e
  show ?thesis by (simp add: run sample_forward_def)
qed

end
