(* ===== verification/Tui_Draw.thy ===== *)
theory Tui_Draw
  imports Tui_Keys
begin

text \<open>
  What the terminal interface draws (\<open>src/tui.rs\<close>), as the list of widgets with their areas in
  the order they are rendered. Splitting an area by constraints and painting a widget are the
  library's: the split is a parameter.
\<close>

section \<open>Widgets\<close>

datatype color = Green | Red | White | Black | Yellow | Cyan | LightCyan | DarkGray | Gray

record tstyle =
  fg :: "color option"
  bg :: "color option"
  bold :: bool
  underlined :: bool

definition plain :: tstyle where
  "plain = \<lparr>fg = None, bg = None, bold = False, underlined = False\<rparr>"

definition colored :: "color \<Rightarrow> tstyle" where
  "colored c = plain\<lparr>fg := Some c\<rparr>"

type_synonym span = "tstyle \<times> rstr"
type_synonym text_line = "span list"

definition raw :: "rstr \<Rightarrow> span" where
  "raw t = (plain, t)"

record frame_block =
  bl_title :: rstr
  bl_border :: "color option"

datatype constraint = Exactly nat | AtLeast nat | Percent nat

record table_row =
  tr_cells :: "rstr list"
  tr_style :: tstyle

record table =
  tb_rows :: "table_row list"
  tb_widths :: "constraint list"
  tb_style :: tstyle
  tb_header :: "rstr list"
  tb_header_style :: tstyle
  tb_highlight_style :: tstyle
  tb_spacing :: nat
  tb_symbol :: rstr
  tb_block :: "frame_block option"
  tb_selected :: "nat option"

datatype widget =
    Paragraph "text_line list" "bool option" "frame_block option"
  | Tabs "text_line list" nat tstyle "rstr \<times> rstr" rstr
  | TableW table
  | ClearW

datatype direction = Vertical | Horizontal

record rect =
  rc_x :: "16 word"
  rc_y :: "16 word"
  rc_width :: "16 word"
  rc_height :: "16 word"

type_synonym splitter = "direction \<Rightarrow> constraint list \<Rightarrow> rect \<Rightarrow> rect list"
type_synonym screen = "(widget \<times> rect) list"


section \<open>Tables\<close>

text \<open>Every second row is shaded.\<close>

definition striped :: "rstr list list \<Rightarrow> table_row list" where
  "striped cells = map (\<lambda>(idx, cs). \<lparr>tr_cells = cs,
     tr_style = (if idx mod 2 = 1 then plain\<lparr>bg := Some DarkGray\<rparr> else plain)\<rparr>) (enumerate 0 cells)"

definition titled :: "rstr \<Rightarrow> bool \<Rightarrow> frame_block" where
  "titled title focused = \<lparr>bl_title = title, bl_border = (if focused then Some Yellow else None)\<rparr>"

text \<open>The styles the three tables share.\<close>

definition header_style :: tstyle where
  "header_style = plain\<lparr>fg := Some Cyan, bold := True, underlined := True\<rparr>"

definition row_highlight_style :: tstyle where
  "row_highlight_style = plain\<lparr>fg := Some Black, bg := Some LightCyan, bold := True\<rparr>"

definition highlight_symbol :: "bool \<Rightarrow> rstr" where
  "highlight_symbol compact = (if compact then lit ''> '' else lit ''-> '')"

definition draw_services :: "rect \<Rightarrow> app \<Rightarrow> rstr \<Rightarrow> bool \<Rightarrow> bool \<Rightarrow> bool \<Rightarrow> screen" where
  "draw_services area a title focused compact decorated =
     [(TableW \<lparr>tb_rows = striped (map (\<lambda>r. [sr_name r, sr_target r]) (app_services a)),
        tb_widths = (if compact then [Exactly 14, AtLeast 8] else [Exactly 18, AtLeast 10]),
        tb_style = colored White,
        tb_header = [lit ''name'', lit ''target''], tb_header_style = header_style,
        tb_highlight_style = row_highlight_style, tb_spacing = 1,
        tb_symbol = highlight_symbol compact,
        tb_block = (if decorated then Some (titled title focused) else None),
        tb_selected = selected_service a\<rparr>, area)]"

definition draw_forwards :: "rect \<Rightarrow> app \<Rightarrow> rstr \<Rightarrow> bool \<Rightarrow> bool \<Rightarrow> bool \<Rightarrow> screen" where
  "draw_forwards area a title focused compact decorated =
     [(TableW \<lparr>tb_rows = striped (map (\<lambda>r. [fr_listen_addr r, fr_remote_path r,
          if compact then (if fr_is_persisted r then lit ''y'' else lit ''n'')
          else if fr_is_persisted r then lit ''yes'' else lit ''no'']) (app_forwards a)),
        tb_widths = (if compact then [Exactly 16, AtLeast 12, Exactly 1]
          else [Exactly 16, AtLeast 16, Exactly 4]),
        tb_style = colored White,
        tb_header = [lit ''listen'', lit ''remote'', lit ''p''], tb_header_style = header_style,
        tb_highlight_style = row_highlight_style, tb_spacing = 1,
        tb_symbol = highlight_symbol compact,
        tb_block = (if decorated then Some (titled title focused) else None),
        tb_selected = selected_forward a\<rparr>, area)]"

definition draw_connections :: "rect \<Rightarrow> app \<Rightarrow> rstr \<Rightarrow> bool \<Rightarrow> bool \<Rightarrow> screen" where
  "draw_connections area a title focused compact =
     [(TableW \<lparr>tb_rows = striped (map (\<lambda>r. [ar_kind r, ar_src r, ar_dst r]) (app_connections a)),
        tb_widths = (if compact then [Exactly 6, Exactly 20, AtLeast 8]
          else [Exactly 8, Exactly 24, AtLeast 12]),
        tb_style = colored White,
        tb_header = [lit ''type'', lit ''src'', lit ''dst''], tb_header_style = header_style,
        tb_highlight_style = row_highlight_style, tb_spacing = 1,
        tb_symbol = highlight_symbol compact,
        tb_block = Some (titled title focused),
        tb_selected = selected_connection a\<rparr>, area)]"


section \<open>The two layouts\<close>

definition draw_full :: "splitter \<Rightarrow> rect \<Rightarrow> app \<Rightarrow> screen" where
  "draw_full split area a =
     (let vertical = split Vertical [Exactly 5, AtLeast 12, Exactly 3] area;
          status_lines = (case app_status a of
              Some si \<Rightarrow>
                [[(colored Green, status_running_label (icons a)),
                  raw (lit ''  served: '' @ show_nat (si_served si) @ lit ''  forwards: '' @
                    show_nat (si_forwards si) @ lit ''  connections: '' @ show_nat (si_connections si))],
                 [raw (endpoint_label (icons a) False @ lit '': '' @ si_endpoint_id si)]]
            | None \<Rightarrow>
                [[(colored Red, status_disconnected_label (icons a)),
                  raw (lit ''  waiting for iroh-proxy server (press s to start)'')]]);
          body = split Horizontal [Percent 33, Percent 33, Percent 34] (vertical ! 1);
          help = (if app_status a \<noteq> None
            then lit ''Tab/Shift-Tab focus  Up/Down move  a add  d remove  r refresh  q quit''
            else lit ''Tab/Shift-Tab focus  Up/Down move  s start backend  r refresh  q quit'')
      in [(Paragraph status_lines (Some False) (Some (titled (lit ''Status'') False)), vertical ! 0)] @
         draw_services (body ! 0) a (services_label (icons a)) (focus a = Services) False True @
         draw_forwards (body ! 1) a (forwards_label (icons a)) (focus a = Forwards) False True @
         draw_connections (body ! 2) a (connections_label (icons a) False) (focus a = Connections) False @
         [(Paragraph [[raw help]] None (Some (titled (lit ''Keys'') False)), vertical ! 2)])"

definition draw_routes_tabs :: "rect \<Rightarrow> icon_mode \<Rightarrow> routes_view \<Rightarrow> bool \<Rightarrow> screen" where
  "draw_routes_tabs area im view focused =
     (let tab = (\<lambda>label. [(plain\<lparr>fg := Some White, bg := Some DarkGray\<rparr>,
            lit ''  '' @ label @ lit ''  '')]);
          highlight = (if focused then plain\<lparr>fg := Some Black, bg := Some Cyan, bold := True\<rparr>
            else plain\<lparr>fg := Some White, bg := Some Gray\<rparr>)
      in [(Tabs [tab (services_label im), tab (forwards_label im)]
            (case view of ViewServices \<Rightarrow> 0 | ViewForwards \<Rightarrow> 1) highlight ([], []) (lit '' ''), area)])"

text \<open>\<open>saturating_sub\<close> on 16 bits.\<close>

definition saturating_sub :: "16 word \<Rightarrow> nat \<Rightarrow> nat" where
  "saturating_sub w n = unat w - n"

definition draw_compact :: "splitter \<Rightarrow> rect \<Rightarrow> app \<Rightarrow> screen" where
  "draw_compact split area a =
     (let vertical = split Vertical [Exactly 2, AtLeast 8, Exactly 1] area;
          status_lines = (case app_status a of
              Some si \<Rightarrow>
                [[(colored Green, status_up_label (icons a)), raw (compact_counters_label (icons a) si)],
                 [raw (endpoint_label (icons a) True @ lit '': '' @ truncate_with_ellipsis (si_endpoint_id si)
                   (saturating_sub (rc_width (vertical ! 0)) 4))]]
            | None \<Rightarrow>
                [[(colored Red, status_down_label (icons a)), raw (lit '' waiting for server (s=start)'')],
                 [raw []]]);
          body = split Vertical [Percent 55, Percent 45] (vertical ! 1);
          routes_focused = (compact_focus a = FocusRoutes);
          routes = split Vertical [Exactly 1, AtLeast 5] (body ! 0);
          help = (if app_status a \<noteq> None
            then lit ''Tab row  Left/Right view  Up/Down select  a add  d del  r sync  q quit''
            else lit ''Tab row  Left/Right view  Up/Down select  s start  r sync  q quit'')
      in [(Paragraph status_lines (Some True) None, vertical ! 0)] @
         draw_routes_tabs (routes ! 0) (icons a) (compact_routes a) routes_focused @
         (case compact_routes a of
            ViewServices \<Rightarrow> draw_services (routes ! 1) a (services_label (icons a)) routes_focused True False
          | ViewForwards \<Rightarrow> draw_forwards (routes ! 1) a (forwards_label (icons a)) routes_focused True False) @
         draw_connections (body ! 1) a (connections_label (icons a) True)
           (compact_focus a = FocusConnections) True @
         [(Paragraph [[raw (truncate_with_ellipsis help (unat (rc_width (vertical ! 2))))]] None None,
           vertical ! 2)])"


section \<open>Dialogs\<close>

definition centered_rect :: "splitter \<Rightarrow> nat \<Rightarrow> nat \<Rightarrow> rect \<Rightarrow> rect" where
  "centered_rect split percent_x percent_y area =
     (let margin = (\<lambda>p. Percent ((100 - p) div 2));
          vertical = split Vertical [margin percent_y, Percent percent_y, margin percent_y] area
      in split Horizontal [margin percent_x, Percent percent_x, margin percent_x] (vertical ! 1) ! 1)"

definition field_line :: "nat \<Rightarrow> nat \<Rightarrow> rstr \<Rightarrow> rstr \<Rightarrow> text_line" where
  "field_line current idx label value =
     [(colored Yellow, (if current = idx then lit ''> '' else lit ''  '') @ label @ lit '': ''), raw value]"

definition dialog_lines :: "nat \<Rightarrow> rstr \<times> rstr \<Rightarrow> rstr \<times> rstr \<Rightarrow> bool \<Rightarrow> text_line list" where
  "dialog_lines current first second persist =
     [field_line current 0 (fst first) (snd first),
      field_line current 1 (fst second) (snd second),
      field_line current 2 (lit ''persist'') (if persist then lit ''yes'' else lit ''no''),
      [raw []],
      [raw (lit ''Tab switch field, Space toggle, Enter submit, Esc cancel'')]]"

fun modal_lines :: "modal \<Rightarrow> text_line list" where
  "modal_lines (AddServiceModal d) =
     dialog_lines (as_field d) (lit ''name'', as_name d) (lit ''target'', as_target d) (as_persist d)"
| "modal_lines (AddForwardModal d) =
     dialog_lines (af_field d) (lit ''listen'', af_listen d) (lit ''remote'', af_remote d) (af_persist d)"
| "modal_lines (RemoveServiceModal name) =
     [[raw (lit ''Remove service '' @ quoted name @ lit ''?'')], [raw []],
      [raw (lit ''Enter confirm, Esc cancel'')]]"
| "modal_lines (RemoveForwardModal d) =
     [[raw (lit ''Remove forward '' @ quoted (arrow (rf_listen d) (rf_remote d)) @ lit ''?'')], [raw []],
      [raw (lit ''mode: '' @ (if rf_persistently d then lit ''runtime + config'' else lit ''runtime only''))],
      [raw (lit ''Tab/Left/Right/Space toggle mode'')],
      [raw (lit ''Enter confirm, Esc cancel'')]]"
| "modal_lines (MessageModal title body) = [[raw body], [raw []], [raw (lit ''Enter/Esc close'')]]"

fun modal_title :: "modal \<Rightarrow> rstr" where
  "modal_title (AddServiceModal d) = lit ''Add Service''"
| "modal_title (AddForwardModal d) = lit ''Add Forward''"
| "modal_title (RemoveServiceModal name) = lit ''Remove Service''"
| "modal_title (RemoveForwardModal d) = lit ''Remove Forward''"
| "modal_title (MessageModal title body) = title"

definition draw_modal :: "splitter \<Rightarrow> rect \<Rightarrow> modal \<Rightarrow> screen" where
  "draw_modal split area m =
     (let popup = centered_rect split 70 55 area in
      [(ClearW, popup), (Paragraph (modal_lines m) None (Some (titled (modal_title m) False)), popup)])"

definition draw :: "splitter \<Rightarrow> rect \<Rightarrow> app \<Rightarrow> screen" where
  "draw split area a =
     (case layout_mode_for_dimensions (rc_width area) (rc_height area) of
        Full \<Rightarrow> draw_full split area a
      | Compact \<Rightarrow> draw_compact split area a) @
     (case modal a of None \<Rightarrow> [] | Some m \<Rightarrow> draw_modal split area m)"



section \<open>Properties\<close>

definition tables :: "screen \<Rightarrow> table list" where
  "tables ws = concat (map (\<lambda>(wd, r). case wd of TableW tb \<Rightarrow> [tb] | _ \<Rightarrow> []) ws)"

text \<open>The cells of the row a table highlights.\<close>

definition highlighted :: "table \<Rightarrow> rstr list option" where
  "highlighted tb = get_row (map tr_cells (tb_rows tb)) (tb_selected tb)"

lemma striped_cells [simp]: "map tr_cells (striped cells) = cells"
  by (simp add: striped_def comp_def case_prod_unfold)

lemma striped_map [simp]: "map (\<lambda>x. g (tr_cells x)) (striped cells) = map g cells"
  using arg_cong [OF striped_cells, of "map g"] by (simp only: map_map comp_def)

lemma striped_Nil [simp]: "striped cells = [] \<longleftrightarrow> cells = []"
  by (metis striped_cells map_is_Nil_conv)

lemma tables_simps [simp]:
  "tables [] = []" "tables (x # ws) = (case fst x of TableW tb \<Rightarrow> [tb] | _ \<Rightarrow> []) @ tables ws"
  "tables (ws @ vs) = tables ws @ tables vs"
  by (simp_all add: tables_def case_prod_unfold)

lemma tables_modal [simp]: "tables (draw_modal split area m) = []"
  by (simp add: draw_modal_def Let_def)

lemma tables_tabs [simp]: "tables (draw_routes_tabs area im view focused) = []"
  by (simp add: draw_routes_tabs_def Let_def)

lemma tables_draw:
  "tables (draw split area a) =
     tables (case layout_mode_for_dimensions (rc_width area) (rc_height area) of
        Full \<Rightarrow> draw_full split area a | Compact \<Rightarrow> draw_compact split area a)"
  by (simp add: draw_def split: option.splits)

lemma get_row_map: "get_row (map f xs) sel = map_option f (get_row xs sel)"
  by (simp add: get_row_def split: option.splits)

lemma get_row_sel: "sel_ok sel (length xs) \<Longrightarrow> get_row xs sel = None \<longleftrightarrow> xs = []"
  by (auto simp: get_row_def sel_ok_def split: option.splits)

text \<open>The table of a pane, wherever it is drawn.\<close>

definition shows_services :: "app \<Rightarrow> table \<Rightarrow> bool" where
  "shows_services a tb \<longleftrightarrow> map tr_cells (tb_rows tb) = map (\<lambda>r. [sr_name r, sr_target r]) (app_services a) \<and>
     tb_selected tb = selected_service a"

definition shows_forwards :: "app \<Rightarrow> table \<Rightarrow> bool" where
  "shows_forwards a tb \<longleftrightarrow> map (take 2) (map tr_cells (tb_rows tb)) =
     map (\<lambda>r. [fr_listen_addr r, fr_remote_path r]) (app_forwards a) \<and> tb_selected tb = selected_forward a"

definition shows_connections :: "app \<Rightarrow> table \<Rightarrow> bool" where
  "shows_connections a tb \<longleftrightarrow> map tr_cells (tb_rows tb) =
     map (\<lambda>r. [ar_kind r, ar_src r, ar_dst r]) (app_connections a) \<and> tb_selected tb = selected_connection a"

lemma tables_services: "\<exists>tb. tables (draw_services area a title focused compact decorated) = [tb] \<and> shows_services a tb"
  by (simp add: draw_services_def shows_services_def)

lemma tables_forwards: "\<exists>tb. tables (draw_forwards area a title focused compact decorated) = [tb] \<and> shows_forwards a tb"
  by (simp add: draw_forwards_def shows_forwards_def comp_def)

lemma tables_connections: "\<exists>tb. tables (draw_connections area a title focused compact) = [tb] \<and> shows_connections a tb"
  by (simp add: draw_connections_def shows_connections_def)

text \<open>Which tables a layout draws.\<close>

lemma tables_full:
  "\<exists>s f c. tables (draw_full split area a) = [s, f, c] \<and> shows_services a s \<and> shows_forwards a f \<and>
     shows_connections a c"
proof -
  let ?body = "split Horizontal [Percent 33, Percent 33, Percent 34]
    (split Vertical [Exactly 5, AtLeast 12, Exactly 3] area ! 1)"
  obtain s where s: "tables (draw_services (?body ! 0) a (services_label (icons a)) (focus a = Services) False True) = [s]"
    "shows_services a s" using tables_services by blast
  obtain f where f: "tables (draw_forwards (?body ! 1) a (forwards_label (icons a)) (focus a = Forwards) False True) = [f]"
    "shows_forwards a f" using tables_forwards by blast
  obtain c where c: "tables (draw_connections (?body ! 2) a (connections_label (icons a) False)
      (focus a = Connections) False) = [c]" "shows_connections a c" using tables_connections by blast
  from s f c show ?thesis by (simp add: draw_full_def Let_def del: lit_simps)
qed

lemma tables_compact:
  "\<exists>r c. tables (draw_compact split area a) = [r, c] \<and> shows_connections a c \<and>
     (case compact_routes a of ViewServices \<Rightarrow> shows_services a r | ViewForwards \<Rightarrow> shows_forwards a r)"
proof -
  let ?body = "split Vertical [Percent 55, Percent 45] (split Vertical [Exactly 2, AtLeast 8, Exactly 1] area ! 1)"
  let ?area = "split Vertical [Exactly 1, AtLeast 5] (?body ! 0) ! 1"
  obtain s where s: "tables (draw_services ?area a (services_label (icons a)) (compact_focus a = FocusRoutes) True False) = [s]"
    "shows_services a s" using tables_services by blast
  obtain f where f: "tables (draw_forwards ?area a (forwards_label (icons a)) (compact_focus a = FocusRoutes) True False) = [f]"
    "shows_forwards a f" using tables_forwards by blast
  obtain c where c: "tables (draw_connections (?body ! 1) a (connections_label (icons a) True)
      (compact_focus a = FocusConnections) True) = [c]" "shows_connections a c" using tables_connections by blast
  from s f c show ?thesis
    by (cases "compact_routes a") (simp_all add: draw_compact_def Let_def del: lit_simps)
qed

lemma shows_highlight:
  assumes "selections_ok a" and "shows_services a tb \<or> shows_forwards a tb \<or> shows_connections a tb"
  shows "tb_rows tb = [] \<or> highlighted tb \<noteq> None"
proof -
  have *: "tb_rows tb = [] \<or> highlighted tb \<noteq> None"
    if "length (tb_rows tb) = n" "sel_ok (tb_selected tb) n" for n
    using get_row_sel [of "tb_selected tb" "map tr_cells (tb_rows tb)"] that by (auto simp: highlighted_def)
  have len: "shows_services a tb \<Longrightarrow> length (tb_rows tb) = length (app_services a)"
    "shows_forwards a tb \<Longrightarrow> length (tb_rows tb) = length (app_forwards a)"
    "shows_connections a tb \<Longrightarrow> length (tb_rows tb) = length (app_connections a)"
    unfolding shows_services_def shows_forwards_def shows_connections_def
    by (drule conjunct1, drule arg_cong [where f = length], simp)+
  have sel: "shows_services a tb \<Longrightarrow> sel_ok (tb_selected tb) (length (app_services a))"
    "shows_forwards a tb \<Longrightarrow> sel_ok (tb_selected tb) (length (app_forwards a))"
    "shows_connections a tb \<Longrightarrow> sel_ok (tb_selected tb) (length (app_connections a))"
    using assms(1) by (simp_all add: selections_ok_def shows_services_def shows_forwards_def
        shows_connections_def)
  from assms(2) show ?thesis
    using * [OF len(1) sel(1)] * [OF len(2) sel(2)] * [OF len(3) sel(3)] by blast
qed

lemma drawn_tables:
  "list_all (\<lambda>tb. shows_services a tb \<or> shows_forwards a tb \<or> shows_connections a tb) (tables (draw split area a))"
  using tables_full [of split area a] tables_compact [of split area a]
  by (cases "layout_mode_for_dimensions (rc_width area) (rc_height area)"; cases "compact_routes a")
    (auto simp: tables_draw)

lemma active_table:
  "case active_pane (layout_mode_for_dimensions (rc_width area) (rc_height area)) a of
     Services \<Rightarrow> list_ex (shows_services a) (tables (draw split area a))
   | Forwards \<Rightarrow> list_ex (shows_forwards a) (tables (draw split area a))
   | Connections \<Rightarrow> list_ex (shows_connections a) (tables (draw split area a))"
  using tables_full [of split area a] tables_compact [of split area a]
  by (cases "layout_mode_for_dimensions (rc_width area) (rc_height area)"; cases "compact_routes a";
      cases "compact_focus a"; cases "focus a") (auto simp: tables_draw active_pane_def)


text \<open>C38. The screen shows the state and the keys act on what it shows. In either layout every table
  drawn is one of the three of the application, and a table with rows highlights one of them.
  The pane that has the focus is on the screen, and with a running server the key \<open>d\<close> asks to
  remove exactly the rule in its highlighted row: for the service with the name in the first
  cell, for the forward with the address and remote path in the first two.\<close>

theorem remove_key_acts_on_highlighted:
  fixes a :: app and area :: rect and split :: splitter
  assumes "app_ok a" and "app_status a \<noteq> None" and "modal a = None"
  defines "lm \<equiv> layout_mode_for_dimensions (rc_width area) (rc_height area)"
  defines "a' \<equiv> snd (handle_non_modal_key \<lparr>key_code = KChar 100, key_control = False\<rparr> lm a)"
  shows "list_all (\<lambda>tb. tb_rows tb = [] \<or> highlighted tb \<noteq> None) (tables (draw split area a)) \<and>
    (case active_pane lm a of
       Services \<Rightarrow> list_ex (\<lambda>tb. shows_services a tb \<and>
         modal a' = map_option (\<lambda>cs. RemoveServiceModal (cs ! 0)) (highlighted tb)) (tables (draw split area a))
     | Forwards \<Rightarrow> list_ex (\<lambda>tb. shows_forwards a tb \<and>
         map_option (\<lambda>m. case m of RemoveForwardModal d \<Rightarrow> (rf_listen d, rf_remote d) | _ \<Rightarrow> ([], [])) (modal a') =
         map_option (\<lambda>cs. (cs ! 0, cs ! 1)) (highlighted tb)) (tables (draw split area a))
     | Connections \<Rightarrow> list_ex (shows_connections a) (tables (draw split area a)) \<and> modal a' = None)"
proof
  have sel: "selections_ok a" using assms(1) by (simp add: app_ok_def)
  show "list_all (\<lambda>tb. tb_rows tb = [] \<or> highlighted tb \<noteq> None) (tables (draw split area a))"
    using drawn_tables [of a split area] shows_highlight [OF sel] by (simp add: list_all_iff)
  have a': "a' = open_remove_dialog (active_pane lm a) a"
    using assms(2) by (cases lm) (simp_all add: a'_def handle_non_modal_key_def handle_full_key_def
        handle_compact_key_def active_pane_def [of Full])
  have s: "modal (open_remove_dialog Services a) = map_option (\<lambda>cs. RemoveServiceModal (cs ! 0)) (highlighted tb)"
    if "shows_services a tb" for tb
    using that assms(3)
    by (auto simp: shows_services_def highlighted_def get_row_map open_remove_dialog_def split: option.split)
  have f: "map_option (\<lambda>m. case m of RemoveForwardModal d \<Rightarrow> (rf_listen d, rf_remote d) | _ \<Rightarrow> ([], []))
      (modal (open_remove_dialog Forwards a)) = map_option (\<lambda>cs. (cs ! 0, cs ! 1)) (highlighted tb)"
    if "shows_forwards a tb" for tb
  proof -
    have "map_option (take 2) (highlighted tb) =
        map_option (\<lambda>r. [fr_listen_addr r, fr_remote_path r]) (get_row (app_forwards a) (selected_forward a))"
      using that by (simp add: shows_forwards_def highlighted_def flip: get_row_map)
    then have "map_option (\<lambda>cs. (cs ! 0, cs ! 1)) (highlighted tb) =
        map_option (\<lambda>r. (fr_listen_addr r, fr_remote_path r)) (get_row (app_forwards a) (selected_forward a))"
      by (cases "highlighted tb"; cases "get_row (app_forwards a) (selected_forward a)")
        (auto dest: arg_cong [where f = "\<lambda>xs. (xs ! 0, xs ! 1)"])
    then show ?thesis using assms(3) by (auto simp: open_remove_dialog_def split: option.split)
  qed
  show "case active_pane lm a of
       Services \<Rightarrow> list_ex (\<lambda>tb. shows_services a tb \<and>
         modal a' = map_option (\<lambda>cs. RemoveServiceModal (cs ! 0)) (highlighted tb)) (tables (draw split area a))
     | Forwards \<Rightarrow> list_ex (\<lambda>tb. shows_forwards a tb \<and>
         map_option (\<lambda>m. case m of RemoveForwardModal d \<Rightarrow> (rf_listen d, rf_remote d) | _ \<Rightarrow> ([], [])) (modal a') =
         map_option (\<lambda>cs. (cs ! 0, cs ! 1)) (highlighted tb)) (tables (draw split area a))
     | Connections \<Rightarrow> list_ex (shows_connections a) (tables (draw split area a)) \<and> modal a' = None"
    using active_table [where area = area and a = a and split = split] s f assms(3)
    unfolding a' lm_def [symmetric]
    by (cases "active_pane lm a") (auto simp: list_ex_iff open_remove_dialog_def)
qed

theorem remove_key_acts_on_highlighted_witness:
  "list_ex (\<lambda>tb. highlighted tb = Some [[119], [56]])
     (tables (draw (\<lambda>_ cs r. map (\<lambda>_. r) cs) \<lparr>rc_x = 0, rc_y = 0, rc_width = 200, rc_height = 50\<rparr>
       (app_default\<lparr>app_status := Some \<lparr>si_endpoint_id = [], si_connections = 0, si_served = 1, si_forwards = 0\<rparr>,
          app_services := [\<lparr>sr_name = [119], sr_target = [56]\<rparr>], selected_service := Some 0\<rparr>)))"
proof -
  let ?a = "app_default\<lparr>app_status := Some \<lparr>si_endpoint_id = [], si_connections = 0, si_served = 1, si_forwards = 0\<rparr>,
     app_services := [\<lparr>sr_name = [119], sr_target = [56]\<rparr>], selected_service := Some 0\<rparr>"
  have "app_ok ?a" by (simp add: app_defs app_default_def sel_ok_def)
  moreover have "active_pane Full ?a = Services" by (simp add: active_pane_def app_default_def)
  moreover have "layout_mode_for_dimensions 200 50 = Full"
    by (simp add: layout_mode_for_dimensions_def compact_width_threshold_def compact_height_threshold_def)
  moreover have "snd (handle_non_modal_key \<lparr>key_code = KChar 100, key_control = False\<rparr> Full ?a) =
      ?a\<lparr>modal := Some (RemoveServiceModal [119])\<rparr>"
    by (simp add: handle_non_modal_key_def handle_full_key_def open_remove_dialog_def get_row_def app_default_def)
  ultimately have "list_ex (\<lambda>tb. shows_services ?a tb \<and>
      Some (RemoveServiceModal [119]) = map_option (\<lambda>cs. RemoveServiceModal (cs ! 0)) (highlighted tb))
      (tables (draw (\<lambda>_ cs r. map (\<lambda>_. r) cs) \<lparr>rc_x = 0, rc_y = 0, rc_width = 200, rc_height = 50\<rparr> ?a))"
    using remove_key_acts_on_highlighted [where a = ?a and area = "\<lparr>rc_x = 0, rc_y = 0, rc_width = 200, rc_height = 50\<rparr>"
        and split = "\<lambda>_ cs r. map (\<lambda>_. r) cs", THEN conjunct2]
    by (simp add: app_default_def)
  moreover have "highlighted tb = Some [[119], [56]]" if "shows_services ?a tb" for tb
    using that by (simp add: shows_services_def highlighted_def get_row_def)
  ultimately show ?thesis unfolding list_ex_iff by blast
qed

end
