(* ===== verification/Systemd_Unit.thy ===== *)
theory Systemd_Unit
  imports Cli_Commands "HOL-Library.Multiset"
begin

text \<open>
  The user service of systemd (\<open>src/systemd.rs\<close>): the quoting of a command line, the text of
  the unit and its installation. How systemd reads a command line is a parameter, of which
  \<open>systemd_reader\<close> states the documented rules on double-quoted words.
\<close>

section \<open>Definitions\<close>

definition user_service_name :: rstr where
  "user_service_name = lit ''iroh-proxy.service''"

definition quote_systemd_arg :: "rstr \<Rightarrow> rstr" where
  "quote_systemd_arg arg =
     [34] @ concat (map (\<lambda>ch. if ch = 92 \<or> ch = 34 then [92, ch] else [ch]) arg) @ [34]"

definition render_exec_start :: "rstr \<Rightarrow> rstr option \<Rightarrow> rstr \<Rightarrow> bool \<Rightarrow> rstr" where
  "render_exec_start exe key_file config_file mdns_enabled =
     join_with [32] (
       [quote_systemd_arg exe] @
       (case key_file of
          Some k \<Rightarrow> [quote_systemd_arg (lit ''--key-file''), quote_systemd_arg k]
        | None \<Rightarrow> []) @
       [quote_systemd_arg (lit ''--config-file''), quote_systemd_arg config_file] @
       (if mdns_enabled then [] else [quote_systemd_arg (lit ''--no-mdns'')]) @
       [quote_systemd_arg (lit ''server'')])"

definition render_unit :: "rstr \<Rightarrow> rstr option \<Rightarrow> rstr \<Rightarrow> bool \<Rightarrow> rstr" where
  "render_unit exe key_file config_file mdns_enabled =
     concat (map (\<lambda>line. line @ [10])
       [lit ''[Unit]'',
        lit ''Description=iroh-proxy server'',
        lit ''After=network-online.target'',
        lit ''Wants=network-online.target'',
        [],
        lit ''[Service]'',
        lit ''Type=simple'',
        lit ''ExecStart='' @ render_exec_start exe key_file config_file mdns_enabled,
        lit ''Restart=on-failure'',
        lit ''RestartSec=2'',
        [],
        lit ''[Install]'',
        lit ''WantedBy=default.target''])"

text \<open>A path as text; \<open>join\<close> puts a separator between unless there is one.\<close>

definition is_absolute :: "rstr \<Rightarrow> bool" where
  "is_absolute p = starts_with [47] p"

definition join_path :: "rstr \<Rightarrow> rstr \<Rightarrow> rstr" where
  "join_path base p =
     (if is_absolute p then p
      else if base = [] \<or> last base = 47 then base @ p
      else base @ 47 # p)"

definition absolutize_path :: "io_error + rstr \<Rightarrow> rstr \<Rightarrow> error + rstr" where
  "absolutize_path cwd p =
     (if is_absolute p then Inr p
      else bind_res (with_context (lit ''failed to resolve current directory'') (map_err io_chain cwd))
        (\<lambda>d. Inr (join_path d p)))"

definition user_service_path :: "path option \<Rightarrow> error + path" where
  "user_service_path config_dir =
     (case config_dir of
        None \<Rightarrow> Inl (anyhow (lit ''failed to locate home directory for systemd user unit path''))
      | Some d \<Rightarrow> Inr (d @ [lit ''systemd'', lit ''user'', user_service_name]))"

text \<open>\<open>std::fs::write\<close> creates or truncates the file and then writes it.\<close>

definition create_truncated :: "path \<Rightarrow> (fs, io_error, unit) act" where
  "create_truncated p = fs_op (\<lambda>s.
     if dirs s p then (Inl is_directory, s)
     else (Inr (), s\<lparr>files := (files s)(p \<mapsto> \<lparr>content = [],
       fmode = (case files s p of Some f \<Rightarrow> fmode f | None \<Rightarrow> 420)\<rparr>)\<rparr>)) no_effect"

definition fs_write :: "path \<Rightarrow> byte list \<Rightarrow> (fs, io_error, unit) act" where
  "fs_write p bs = bindA (create_truncated p) (\<lambda>_. write_all p bs)"

definition install_user_service ::
  "path option \<Rightarrow> io_error + rstr \<Rightarrow> rstr \<Rightarrow> rstr option \<Rightarrow> rstr \<Rightarrow> bool \<Rightarrow> (fs, error, path) act" where
  "install_user_service config_dir cwd exe key_file config_file mdns_enabled =
     bindA (liftA (user_service_path config_dir)) (\<lambda>service_path.
     bindA (case path_parent service_path of
        None \<Rightarrow> retA ()
      | Some parent \<Rightarrow>
          ctx (lit ''failed to create systemd user dir '' @ path_display parent) (create_dir_all parent)) (\<lambda>_.
     bindA (liftA (case key_file of
        None \<Rightarrow> Inr None
      | Some k \<Rightarrow> bind_res (absolutize_path cwd k) (\<lambda>k'. Inr (Some k')))) (\<lambda>key.
     bindA (liftA (absolutize_path cwd config_file)) (\<lambda>config.
     bindA (ctx (lit ''failed to write systemd user service '' @ path_display service_path)
       (fs_write service_path (utf8 (render_unit exe key config mdns_enabled)))) (\<lambda>_.
     retA service_path)))))"


section \<open>Reading a command line back\<close>

text \<open>
  What systemd documents of a text between double quotes: a backslash with a backslash or a
  quote stands for the latter, and a character stands for itself when it is no control
  character, no quote or backslash, no percent sign (which begins a specifier) and no dollar
  sign (which begins a variable).
\<close>

definition plain_char :: "nat \<Rightarrow> bool" where
  "plain_char c \<longleftrightarrow> scalar c \<and> 32 \<le> c \<and> c \<noteq> 127 \<and> c \<noteq> 37 \<and> c \<noteq> 36"

inductive denotes :: "rstr \<Rightarrow> rstr \<Rightarrow> bool" where
  denotes_nil: "denotes [] []"
| denotes_plain: "denotes r w \<Longrightarrow> plain_char c \<Longrightarrow> c \<noteq> 34 \<Longrightarrow> c \<noteq> 92 \<Longrightarrow> denotes (c # r) (c # w)"
| denotes_backslash: "denotes r w \<Longrightarrow> denotes (92 # 92 # r) (92 # w)"
| denotes_quote: "denotes r w \<Longrightarrow> denotes (92 # 34 # r) (34 # w)"

text \<open>
  The reader of command lines: a word in double quotes at the end of the text is read as
  what it denotes, and one that a blank follows is read as what it denotes, then the rest. The
  words are those before systemd looks for a special prefix of the program's path, which an
  absolute path does not have.
\<close>

definition systemd_reader :: "(rstr \<Rightarrow> rstr list option) \<Rightarrow> bool" where
  "systemd_reader read \<longleftrightarrow> (\<forall>r w. denotes r w \<longrightarrow> read (34 # r @ [34]) = Some [w] \<and>
     (\<forall>t. read (34 # r @ 34 # 32 # t) = map_option ((#) w) (read t)))"

definition escaped :: "rstr \<Rightarrow> rstr" where
  "escaped w = concat (map (\<lambda>ch. if ch = 92 \<or> ch = 34 then [92, ch] else [ch]) w)"

lemma quote_eq: "quote_systemd_arg w = 34 # escaped w @ [34]"
  by (simp add: quote_systemd_arg_def escaped_def)

lemma escaped_denotes: "list_all plain_char w \<Longrightarrow> denotes (escaped w) w"
  by (induction w) (auto simp: escaped_def intro: denotes.intros)

lemma read_join_quoted:
  assumes "systemd_reader read"
  shows "ws \<noteq> [] \<Longrightarrow> list_all (list_all plain_char) ws \<Longrightarrow>
    read (join_with [32] (map quote_systemd_arg ws)) = Some ws"
proof (induction ws)
  case (Cons w ws)
  have w: "denotes (escaped w) w" using Cons.prems by (simp add: escaped_denotes)
  show ?case
  proof (cases ws)
    case Nil
    with assms w show ?thesis by (simp add: systemd_reader_def quote_eq)
  next
    case (Cons v vs)
    have "read (join_with [32] (map quote_systemd_arg (w # ws))) =
        read (34 # escaped w @ 34 # 32 # join_with [32] (map quote_systemd_arg ws))"
      by (simp add: Cons quote_eq)
    with assms w Cons.IH Cons.prems \<open>ws = v # vs\<close> show ?thesis by (simp add: systemd_reader_def)
  qed
qed simp

text \<open>
  A reader that satisfies the rules: it expands the specifiers that \<open>spec\<close> knows, two
  percent or dollar signs to one, and refuses every variable, every other escape and every
  unquoted word.
\<close>

fun words_in :: "(nat \<Rightarrow> rstr option) \<Rightarrow> rstr \<Rightarrow> rstr \<Rightarrow> rstr list option" where
  "words_in spec acc [] = None"
| "words_in spec acc [c] = (if c = 34 then Some [acc] else None)"
| "words_in spec acc (c # d # s) =
     (if c = 34 then
        (case s of
           [] \<Rightarrow> None
         | e # t \<Rightarrow> if d = 32 \<and> e = 34 then map_option ((#) acc) (words_in spec [] t) else None)
      else if c = 92 then if d = 92 \<or> d = 34 then words_in spec (acc @ [d]) s else None
      else if c = 37 then
        (if d = 37 then words_in spec (acc @ [37]) s
         else (case spec d of None \<Rightarrow> None | Some x \<Rightarrow> words_in spec (acc @ x) s))
      else if c = 36 then if d = 36 then words_in spec (acc @ [36]) s else None
      else words_in spec (acc @ [c]) (d # s))"

definition read_words :: "(nat \<Rightarrow> rstr option) \<Rightarrow> rstr \<Rightarrow> rstr list option" where
  "read_words spec s = (case s of [] \<Rightarrow> None | c # t \<Rightarrow> if c = 34 then words_in spec [] t else None)"

lemma words_in_denoted: "denotes r w \<Longrightarrow> words_in spec acc (r @ 34 # t) = words_in spec (acc @ w) (34 # t)"
proof (induction arbitrary: acc rule: denotes.induct)
  case (denotes_plain r w c)
  obtain d s where ds: "r @ 34 # t = d # s" by (cases "r @ 34 # t") auto
  then have "words_in spec acc ((c # r) @ 34 # t) = words_in spec (acc @ [c]) (r @ 34 # t)"
    using denotes_plain.hyps by (auto simp: plain_char_def)
  with denotes_plain.IH show ?case by simp
qed simp_all

lemma read_words_reader: "systemd_reader (read_words spec)"
  by (auto simp: systemd_reader_def read_words_def words_in_denoted split: list.splits)

text \<open>The words the unit is meant to start.\<close>

definition exec_words :: "rstr \<Rightarrow> rstr option \<Rightarrow> rstr \<Rightarrow> bool \<Rightarrow> rstr list" where
  "exec_words exe key_file config_file mdns =
     [exe] @ (case key_file of Some k \<Rightarrow> [lit ''--key-file'', k] | None \<Rightarrow> []) @
     [lit ''--config-file'', config_file] @ (if mdns then [] else [lit ''--no-mdns'']) @ [lit ''server'']"

lemma exec_start_words:
  "render_exec_start exe key config mdns = join_with [32] (map quote_systemd_arg (exec_words exe key config mdns))"
  by (simp add: render_exec_start_def exec_words_def del: lit_simps split: option.split)

lemma exec_words_args: "mset (exec_words exe key config mdns) = mset (exe # server_args key config mdns)"
  by (simp add: exec_words_def server_args_def del: lit_simps split: option.split)

lemma split_lines:
  "list_all (\<lambda>l. 10 \<notin> set l) ls \<Longrightarrow> split_on 10 (concat (map (\<lambda>line. line @ [10]) ls)) = ls @ [[]]"
  by (induction ls) (auto simp: split_on_append)

lemma join_set: "c \<in> set (join_with d ws) \<Longrightarrow> c \<in> set d \<or> (\<exists>w\<in>set ws. c \<in> set w)"
  by (induction d ws rule: join_with.induct) auto

lemma quote_set: "c \<in> set (quote_systemd_arg w) \<Longrightarrow> c = 34 \<or> c = 92 \<or> c \<in> set w"
  by (auto simp: quote_systemd_arg_def split: if_splits)

text \<open>A text that stands for itself in quotes, its quotes and backslashes escaped.\<close>

definition plain_text :: "rstr \<Rightarrow> bool" where
  "plain_text t \<longleftrightarrow> list_all plain_char t"

lemma plain_valid: "plain_text t \<Longrightarrow> valid_str t \<and> 10 \<notin> set t"
  by (auto simp: plain_text_def valid_str_def plain_char_def list_all_iff)

lemma plain_words:
  assumes "plain_text exe" "plain_text config" "case key of Some k \<Rightarrow> plain_text k | None \<Rightarrow> True"
  shows "list_all (list_all plain_char) (exec_words exe key config mdns)"
  using assms by (auto simp: exec_words_def plain_text_def plain_char_def scalar_def split: option.splits)

lemma exec_start_text:
  assumes "list_all (list_all plain_char) (exec_words exe key config mdns)"
  shows "valid_str (render_exec_start exe key config mdns) \<and> 10 \<notin> set (render_exec_start exe key config mdns)"
proof -
  have sc: "scalar 32" "scalar 34" "scalar 92" by simp_all
  have "scalar c \<and> c \<noteq> 10" if "c \<in> set (render_exec_start exe key config mdns)" for c
  proof -
    from join_set [OF that [unfolded exec_start_words]]
    consider "c = 32" | w where "w \<in> set (exec_words exe key config mdns)" "c \<in> set (quote_systemd_arg w)"
      by auto
    then show ?thesis
    proof cases
      case (2 w)
      from quote_set [OF 2(2)] show ?thesis
        using 2(1) assms sc by (auto simp: list_all_iff plain_char_def dest!: bspec)
    qed (use sc in simp)
  qed
  then show ?thesis by (auto simp: valid_str_def list_all_iff)
qed

definition unit_lines :: "rstr \<Rightarrow> rstr list" where
  "unit_lines cmd =
     [lit ''[Unit]'', lit ''Description=iroh-proxy server'', lit ''After=network-online.target'',
      lit ''Wants=network-online.target'', [], lit ''[Service]'', lit ''Type=simple'',
      lit ''ExecStart='' @ cmd, lit ''Restart=on-failure'', lit ''RestartSec=2'', [],
      lit ''[Install]'', lit ''WantedBy=default.target'']"

lemma unit_split:
  "valid_str cmd \<and> 10 \<notin> set cmd \<Longrightarrow> cmd = render_exec_start exe key config mdns \<Longrightarrow>
     split_on 10 (render_unit exe key config mdns) = unit_lines cmd @ [[]] \<and>
     valid_str (render_unit exe key config mdns)"
  unfolding render_unit_def by (simp only: unit_lines_def [symmetric])
    (subst split_lines; simp add: unit_lines_def)

definition exec_lines :: "rstr list \<Rightarrow> rstr list" where
  "exec_lines ls = filter (starts_with (lit ''ExecStart='')) ls"

lemma exec_lines_unit: "exec_lines (unit_lines cmd @ [[]]) = [lit ''ExecStart='' @ cmd]"
  by (simp add: exec_lines_def unit_lines_def)

text \<open>The section that a line after the given ones belongs to.\<close>

definition section_after :: "rstr list \<Rightarrow> rstr" where
  "section_after ls = last (filter (starts_with [91]) ls)"

lemma unit_section:
  "\<exists>pre post. unit_lines cmd @ [[]] = pre @ (lit ''ExecStart='' @ cmd) # post \<and>
     section_after pre = lit ''[Service]''"
  by (intro exI [of _ "take 7 (unit_lines cmd)"] exI [of _ "drop 8 (unit_lines cmd) @ [[]]"])
    (simp add: unit_lines_def section_after_def)


section \<open>Installation\<close>

lemma absolutize_ok:
  assumes "absolutize_path cwd p = Inr q" and "case cwd of Inr d \<Rightarrow> is_absolute d \<and> plain_text d | Inl _ \<Rightarrow> True"
    and "plain_text p"
  shows "is_absolute q \<and> plain_text q \<and> (is_absolute p \<longrightarrow> q = p)"
proof -
  have abs: "is_absolute (x @ y)" if "is_absolute x" for x y
    using that by (cases x) (auto simp: is_absolute_def)
  show ?thesis
    using assms abs
    by (auto simp: absolutize_path_def join_path_def plain_text_def plain_char_def scalar_def with_context_def
        bind_res_def split: if_splits sum.splits)
qed

lemma fs_op_quiet:
  assumes "fs_op body partial s = (Inr a, t)" and "quiet P s"
    and "\<And>s1. turns (snd (body s1)) = turns s1"
  obtains s1 s2 where "quiet P s1" "body s1 = (Inr a, s2)" "files t = files s2" "quiet P t"
    "\<And>p. P p \<Longrightarrow> files s1 p = files s p"
  using assms(1)
proof (cases rule: fs_op_cases)
  case (ran s1 s2)
  have "quiet P s1" "\<And>p. P p \<Longrightarrow> files s1 p = files s p" using take_turn_quiet [OF ran(1) assms(2)] by auto
  moreover have "quiet P t" using \<open>quiet P s1\<close> ran(2,3) assms(3) [of s1] by (simp add: quiet_def)
  ultimately show ?thesis using that ran by auto
qed simp

lemma fs_write_content:
  assumes "fs_write p bs s = (Inr u, t)" and "quiet ((=) p) s"
  shows "\<exists>f. files t p = Some f \<and> content f = bs"
proof -
  obtain x s1 where c: "create_truncated p s = (Inr x, s1)" and w: "write_all p bs s1 = (Inr u, t)"
    using assms(1) unfolding fs_write_def by (rule bindA_ok)
  obtain f where f: "files s1 p = Some f" "content f = []" and q: "quiet ((=) p) s1"
    using c [unfolded create_truncated_def] assms(2)
    by (rule fs_op_quiet) (auto split: if_splits)
  show ?thesis
    using w [unfolded write_all_def] q
    by (rule fs_op_quiet) (use f in auto)
qed

lemma create_dir_quiet:
  "create_dir_all p s = (Inr u, t) \<Longrightarrow> quiet P s \<Longrightarrow> quiet P t"
  unfolding create_dir_all_def by (erule fs_op_quiet) (auto split: if_splits)

lemma unit_reads_back:
  fixes mdns :: bool
  assumes "systemd_reader read"
    and "plain_text exe" "plain_text config" "case key of Some k \<Rightarrow> plain_text k | None \<Rightarrow> True"
  defines "cmd \<equiv> render_exec_start exe key config mdns"
  shows "utf8_decode (utf8 (render_unit exe key config mdns)) = Some (render_unit exe key config mdns)"
    and "exec_lines (split_on 10 (render_unit exe key config mdns)) = [lit ''ExecStart='' @ cmd]"
    and "\<exists>pre post. split_on 10 (render_unit exe key config mdns) = pre @ (lit ''ExecStart='' @ cmd) # post \<and>
      section_after pre = lit ''[Service]''"
    and "read cmd = Some (exec_words exe key config mdns)"
proof -
  have plain: "list_all (list_all plain_char) (exec_words exe key config mdns)"
    by (rule plain_words) (use assms(2-4) in auto)
  note unit = unit_split [OF exec_start_text [OF plain] refl, folded cmd_def]
  show "utf8_decode (utf8 (render_unit exe key config mdns)) = Some (render_unit exe key config mdns)"
    using unit by simp
  show "exec_lines (split_on 10 (render_unit exe key config mdns)) = [lit ''ExecStart='' @ cmd]"
    using unit exec_lines_unit by (simp del: lit_simps)
  show "\<exists>pre post. split_on 10 (render_unit exe key config mdns) = pre @ (lit ''ExecStart='' @ cmd) # post \<and>
      section_after pre = lit ''[Service]''"
    using unit unit_section [of cmd] by (simp del: lit_simps)
  show "read cmd = Some (exec_words exe key config mdns)"
    unfolding cmd_def exec_start_words
    by (rule read_join_quoted [OF assms(1) _ plain]) (simp add: exec_words_def)
qed

text \<open>C22. Installing the user service, when it reports success, leaves a unit at
  \<open>systemd/user/iroh-proxy.service\<close> under the configuration directory whose only \<open>ExecStart\<close>
  line is in its \<open>[Service]\<close> section and is read, by any reader that follows systemd's rules
  for double-quoted words, as the command line of this installation: the program, the key
  file if there is one, the configuration file, the mDNS choice and \<open>server\<close>, which are the
  arguments a client starts a server with, up to their order; both files by absolute paths
  that do not depend on the directory the service is started in. The paths must not contain
  control characters, percent signs or dollar signs, which the code does not escape.\<close>

theorem installed_unit_starts_server:
  assumes "install_user_service config_dir cwd exe key config mdns s = (Inr p, t)"
    and "quiet ((=) p) s" and "systemd_reader read"
    and "plain_text exe" and "plain_text config" and "case key of Some k \<Rightarrow> plain_text k | None \<Rightarrow> True"
    and "case cwd of Inr d \<Rightarrow> is_absolute d \<and> plain_text d | Inl _ \<Rightarrow> True"
  shows "\<exists>dir f unit cmd key' config'.
    config_dir = Some dir \<and> p = dir @ [lit ''systemd'', lit ''user'', lit ''iroh-proxy.service''] \<and>
    files t p = Some f \<and> utf8_decode (content f) = Some unit \<and>
    exec_lines (split_on 10 unit) = [lit ''ExecStart='' @ cmd] \<and>
    (\<exists>pre post. split_on 10 unit = pre @ (lit ''ExecStart='' @ cmd) # post \<and>
       section_after pre = lit ''[Service]'') \<and>
    read cmd = Some (exec_words exe key' config' mdns) \<and>
    mset (exec_words exe key' config' mdns) = mset (exe # server_args key' config' mdns) \<and>
    is_absolute config' \<and> (is_absolute config \<longrightarrow> config' = config) \<and>
    (case key of
       None \<Rightarrow> key' = None
     | Some k \<Rightarrow> \<exists>k'. key' = Some k' \<and> is_absolute k' \<and> (is_absolute k \<longrightarrow> k' = k))"
proof -
  from assms(1) obtain dir s1 key' config' s2 u
    where dir: "config_dir = Some dir" and p: "p = dir @ [lit ''systemd'', lit ''user'', user_service_name]"
      and cd: "create_dir_all (butlast p) s = (Inr u, s1)"
      and key': "(case key of None \<Rightarrow> Inr None | Some k \<Rightarrow> bind_res (absolutize_path cwd k) (\<lambda>k'. Inr (Some k'))) =
        Inr key'"
      and config': "absolutize_path cwd config = Inr config'"
      and w: "fs_write p (utf8 (render_unit exe key' config' mdns)) s1 = (Inr (), t)"
    unfolding install_user_service_def
    by (auto elim!: bindA_ok simp: liftA_def retA_def user_service_path_def path_parent_def ctx_def
        split: option.splits simp del: lit_simps)
  have c: "is_absolute config'" "plain_text config'" "is_absolute config \<Longrightarrow> config' = config"
    using absolutize_ok [OF config' assms(7,5)] by auto
  have k: "case key of None \<Rightarrow> key' = None
     | Some k \<Rightarrow> \<exists>k'. key' = Some k' \<and> is_absolute k' \<and> plain_text k' \<and> (is_absolute k \<longrightarrow> k' = k)"
    using key' absolutize_ok [OF _ assms(7)] assms(6) by (auto simp: bind_res_Inr_iff split: option.splits)
  note rb = unit_reads_back [OF assms(3,4) c(2), of key' mdns]
  have key_plain: "case key' of Some k \<Rightarrow> plain_text k | None \<Rightarrow> True" using k by (auto split: option.splits)
  obtain f where f: "files t p = Some f" "content f = utf8 (render_unit exe key' config' mdns)"
    using fs_write_content [OF w create_dir_quiet [OF cd assms(2)]] by auto
  have "utf8_decode (content f) = Some (render_unit exe key' config' mdns)" using rb(1) [OF key_plain] by (simp add: f)
  moreover note rb(2-4) [OF key_plain]
  moreover have "p = dir @ [lit ''systemd'', lit ''user'', lit ''iroh-proxy.service'']"
    using p by (simp add: user_service_name_def del: lit_simps)
  moreover have "case key of None \<Rightarrow> key' = None
     | Some k \<Rightarrow> \<exists>k'. key' = Some k' \<and> is_absolute k' \<and> (is_absolute k \<longrightarrow> k' = k)"
    using k by (auto split: option.splits)
  moreover have "is_absolute config \<longrightarrow> config' = config" using c by simp
  ultimately show ?thesis
    using dir f(1) c(1) exec_words_args [of exe key' config' mdns]
    by - (rule exI [of _ dir], rule exI [of _ f], rule exI [of _ "render_unit exe key' config' mdns"],
        rule exI [of _ "render_exec_start exe key' config' mdns"], 
        rule exI [of _ key'], rule exI [of _ config'], intro conjI; assumption)
qed

theorem installed_unit_starts_server_witness:
  "\<exists>f unit cmd config'.
     files (snd (install_user_service (Some []) (Inr (lit ''/home'')) (lit ''/bin/x'') None (lit ''a b.toml'') False
       \<lparr>files = \<lambda>_. None, dirs = \<lambda>_. False, locked = \<lambda>_. False, turns = [], hist = [], pid = 1,
         temp_counter = 0\<rparr>)) [lit ''systemd'', lit ''user'', lit ''iroh-proxy.service''] = Some f \<and>
     utf8_decode (content f) = Some unit \<and>
     exec_lines (split_on 10 unit) = [lit ''ExecStart='' @ cmd] \<and>
     read_words (\<lambda>_. None) cmd = Some (exec_words (lit ''/bin/x'') None config' False)"
proof -
  let ?s = "\<lparr>files = \<lambda>_. None, dirs = \<lambda>_. False, locked = \<lambda>_. False, turns = [], hist = [], pid = 1,
     temp_counter = 0\<rparr> :: fs"
  let ?p = "[lit ''systemd'', lit ''user'', lit ''iroh-proxy.service'']"
  let ?run = "install_user_service (Some []) (Inr (lit ''/home'')) (lit ''/bin/x'') None (lit ''a b.toml'') False ?s"
  have run: "fst ?run = Inr ?p"
    by (simp add: install_user_service_def bindA_def liftA_def retA_def user_service_path_def user_service_name_def
        path_parent_def ctx_def mapErrA_def create_dir_all_def fs_write_def create_truncated_def write_all_def
        fs_op_def take_turn_def absolutize_path_def join_path_def is_absolute_def no_effect_def
        with_context_def del: lit_simps)
      (auto dest!: arg_cong [where f = length] simp del: lit_simps)
  have "?run = (Inr ?p, snd ?run)" using run by (metis prod.collapse)
  moreover have "plain_text (lit ''/bin/x'')" "plain_text (lit ''a b.toml'')" "plain_text (lit ''/home'')"
    and "is_absolute (lit ''/home'')" and "quiet ((=) ?p) ?s"
    by (simp_all add: is_absolute_def quiet_def plain_text_def plain_char_def scalar_def)
  ultimately show ?thesis
    using installed_unit_starts_server [where config_dir = "Some []" and cwd = "Inr (lit ''/home'')"
        and exe = "lit ''/bin/x''" and key = None and config = "lit ''a b.toml''" and mdns = False
        and s = ?s and t = "snd ?run" and p = ?p and read = "read_words (\<lambda>_. None)"] read_words_reader
    unfolding option.case sum.case by blast
qed

end
