(* ===== verification/Build_Date.thy ===== *)
theory Build_Date
  imports Errors
begin

text \<open>
  The build time in the version text (\<open>iso8601_utc\<close> of \<open>build.rs\<close>): seconds since 1970 to a
  date and time without a calendar library. The code computes in 64-bit and 32-bit integers;
  the reference is the calendar itself, counted forward one day at a time.
\<close>

section \<open>Definitions\<close>

record civil =
  ci_year :: int
  ci_month :: "32 word"
  ci_day :: "32 word"
  ci_hour :: "32 word"
  ci_minute :: "32 word"
  ci_second :: "32 word"

text \<open>An \<open>i64\<close> is an \<open>int\<close> here, a \<open>u32\<close> a word; a cast to \<open>u32\<close> keeps the low 32 bits.\<close>

definition civil_from_secs :: "64 word \<Rightarrow> civil" where
  "civil_from_secs secs =
     (let days = sint (secs div 86400);
          remainder = (ucast (secs mod 86400) :: 32 word);
          hour = remainder div 3600;
          remainder = remainder mod 3600;
          minute = remainder div 60;
          second = remainder mod 60;
          z = days + 719468;
          era = (if z \<ge> 0 then z else z - 146096) div 146097;
          doe = (word_of_int (z - era * 146097) :: 32 word);
          yoe = (doe - doe div 1460 + doe div 36524 - doe div 146096) div 365;
          y = uint yoe + era * 400;
          doy = doe - (365 * yoe + yoe div 4 - yoe div 100);
          mp = (5 * doy + 2) div 153;
          d = doy - (153 * mp + 2) div 5 + 1;
          m = (if mp < 10 then mp + 3 else mp - 9);
          y = y + (if m \<le> 2 then 1 else 0)
      in \<lparr>ci_year = y, ci_month = m, ci_day = d, ci_hour = hour, ci_minute = minute, ci_second = second\<rparr>)"

text \<open>\<open>{:04}\<close> of a signed number counts the sign.\<close>

definition year_text :: "int \<Rightarrow> rstr" where
  "year_text y = (if y < 0 then 45 # zero_pad 3 (nat (- y)) else zero_pad 4 (nat y))"

definition iso8601_utc :: "64 word \<Rightarrow> rstr" where
  "iso8601_utc secs =
     (let c = civil_from_secs secs; two = (\<lambda>w. zero_pad 2 (unat w)) in
      year_text (ci_year c) @ lit ''-'' @ two (ci_month c) @ lit ''-'' @ two (ci_day c) @ lit ''T'' @
      two (ci_hour c) @ lit '':'' @ two (ci_minute c) @ lit '':'' @ two (ci_second c) @ lit ''Z'')"


section \<open>The calendar\<close>

definition leap_year :: "nat \<Rightarrow> bool" where
  "leap_year y \<longleftrightarrow> y mod 4 = 0 \<and> (y mod 100 \<noteq> 0 \<or> y mod 400 = 0)"

definition days_in_month :: "nat \<Rightarrow> nat \<Rightarrow> nat" where
  "days_in_month y m =
     (if m = 2 then (if leap_year y then 29 else 28)
      else if m \<in> {4, 6, 9, 11} then 30 else 31)"

fun next_day :: "nat \<times> nat \<times> nat \<Rightarrow> nat \<times> nat \<times> nat" where
  "next_day (y, m, d) =
     (if d < days_in_month y m then (y, m, d + 1)
      else if m < 12 then (y, m + 1, 1)
      else (y + 1, 1, 1))"


section \<open>The same computation on natural numbers\<close>

definition year_of_era :: "nat \<Rightarrow> nat" where
  "year_of_era doe = (doe - doe div 1460 + doe div 36524 - doe div 146096) div 365"

definition year_start :: "nat \<Rightarrow> nat" where
  "year_start y = 365 * y + y div 4 - y div 100"

definition month_day :: "nat \<Rightarrow> nat \<times> nat" where
  "month_day doy =
     (let mp = (5 * doy + 2) div 153 in
      (if mp < 10 then mp + 3 else mp - 9, doy - (153 * mp + 2) div 5 + 1))"

definition era_date :: "nat \<Rightarrow> nat \<Rightarrow> nat \<Rightarrow> nat \<times> nat \<times> nat" where
  "era_date era y doy =
     (case month_day doy of (m, d) \<Rightarrow> (y + era * 400 + (if m \<le> 2 then 1 else 0), m, d))"

definition date_of_days :: "nat \<Rightarrow> nat \<times> nat \<times> nat" where
  "date_of_days n =
     (let z = n + 719468; doe = z mod 146097; y = year_of_era doe in
      era_date (z div 146097) y (doe - year_start y))"

text \<open>A year of the era starts in March; the last one has the leap day of the fourth century.\<close>

definition year_end :: "nat \<Rightarrow> nat" where
  "year_end y = (if y = 399 then 146097 else year_start (y + 1))"

section \<open>Years of an era\<close>

definition year_len :: "nat \<Rightarrow> nat" where
  "year_len y = (if leap_year (y + 1) then 366 else 365)"

lemma leap_400: "leap_year 400"
  by (simp add: leap_year_def)

text \<open>The counts of leap days that \<open>year_start\<close> and the divisions make.\<close>

lemma year_parts:
  assumes "y < 400"
  obtains q r c where "y = 4 * q + r" "r < 4" "y div 4 = q" "y div 100 = c" "c < 4" "25 * c \<le> q" "q < 25 * c + 25"
    "year_start y + c = 365 * y + q"
proof -
  have "y div 100 \<le> y div 4" "25 * (y div 100) \<le> y div 4" "y div 4 < 25 * (y div 100) + 25" "y div 100 < 4"
    using assms by linarith+
  then show ?thesis
    by (intro that [of "y div 4" "y mod 4" "y div 100"]) (simp_all add: year_start_def)
qed

lemma mod_100_4: "n mod 100 = 0 \<Longrightarrow> n mod 4 = 0" for n :: nat
  by (metis dvd_eq_mod_eq_0 dvd_trans dvd_triv_left mult_numeral_1_right numeral_times_numeral
      semiring_norm(12,13,14))

lemma year_start_Suc:
  "year_start (Suc y) = year_start y +
     (if Suc y mod 4 = 0 \<and> Suc y mod 100 \<noteq> 0 then 366 else 365)"
proof -
  define q c P4 P100 where "q = y div 4" and "c = y div 100" and "P4 = (Suc y mod 4 = 0)"
    and "P100 = (Suc y mod 100 = 0)"
  have s: "year_start y = 365 * y + q - c"
    "year_start (Suc y) = 365 * Suc y + (if P4 then Suc q else q) - (if P100 then Suc c else c)"
    unfolding year_start_def P4_def P100_def by (simp_all only: div_Suc q_def c_def)
  have "c \<le> q" unfolding q_def c_def by (rule div_le_mono2) auto
  moreover have "P100 \<Longrightarrow> P4" unfolding P4_def P100_def by (rule mod_100_4)
  ultimately show ?thesis
    unfolding s P4_def [symmetric] P100_def [symmetric] by (cases P4; cases P100) simp_all
qed

lemma year_end_len:
  assumes "y < 400"
  shows "year_end y = year_start y + year_len y"
proof (cases "y = 399")
  case True
  then show ?thesis by (simp add: year_end_def year_len_def year_start_def leap_400)
next
  case False
  have "Suc y mod 400 \<noteq> 0" using False assms by simp
  then have "leap_year (Suc y) \<longleftrightarrow> Suc y mod 4 = 0 \<and> Suc y mod 100 \<noteq> 0"
    by (simp add: leap_year_def)
  then show ?thesis
    using False year_start_Suc [of y] by (simp add: year_end_def year_len_def)
qed

lemma year_len_366:
  assumes "year_len y = 366" and "y < 400"
  shows "y mod 4 = 3" and "y = 399 \<or> y < 100 * (y div 100) + 99"
proof -
  have l: "Suc y mod 4 = 0" "Suc y mod 100 \<noteq> 0 \<or> Suc y mod 400 = 0"
    using assms(1) by (auto simp: year_len_def leap_year_def split: if_splits)
  show "y mod 4 = 3" using l(1) by presburger
  show "y = 399 \<or> y < 100 * (y div 100) + 99"
  proof (cases "Suc y mod 400 = 0")
    case True
    then have "\<not> Suc y < 400" by (metis Zero_not_Suc mod_less)
    then show ?thesis using assms(2) by simp
  next
    case False
    have "y mod 100 \<noteq> 99" using l(2) False by (auto simp: mod_Suc)
    moreover have "y = 100 * (y div 100) + y mod 100" "y mod 100 < 100" by simp_all
    ultimately show ?thesis by linarith
  qed
qed

lemma year_end_le:
  assumes "y < 400"
  shows "year_end y \<le> 146097"
proof (cases "y = 399")
  case False
  obtain q r c where "c < 4" "q < 25 * c + 25" "year_start y + c = 365 * y + q"
    using assms by (rule year_parts)
  then show ?thesis using assms False year_end_len [OF assms] by (simp add: year_len_def)
qed (simp add: year_end_def)

lemma century_of_day:
  fixes doe :: nat
  assumes "y = 4 * q + r" "r < 4" "y div 4 = q" "y div 100 = c" "c < 4" "25 * c \<le> q" "q < 25 * c + 25"
    and "doe + c = 365 * y + q + e" and "doe \<noteq> 146096"
    and "e < 365 \<or> (e = 365 \<and> r = 3 \<and> (y = 399 \<or> y < 100 * c + 99))"
  shows "doe div 36524 = c"
proof (rule div_nat_eqI)
  show "36524 * c \<le> doe" using assms by linarith
  have "y = 399 \<Longrightarrow> c = 3 \<and> q = 99" using assms(3,4) by simp
  then show "doe < 36524 * Suc c"
    using assms(10)
  proof (elim disjE)
    assume "e = 365 \<and> r = 3 \<and> (y = 399 \<or> y < 100 * c + 99)"
    then show ?thesis using assms(5-9) \<open>y = 399 \<Longrightarrow> c = 3 \<and> q = 99\<close> by (cases "y = 399") auto
  next
    assume "e < 365"
    then show ?thesis using assms by auto
  qed
qed

lemma year_of_day:
  assumes "y < 400" and "year_start y \<le> doe" and "doe < year_end y"
  shows "year_of_era doe = y"
proof (cases "doe = 146096")
  case True
  obtain q r c where "c < 4" "q < 25 * c + 25" "year_start y + c = 365 * y + q"
    using assms(1) by (rule year_parts)
  then have "399 \<le> y"
    using True assms(3) year_end_len [OF assms(1)] by (simp add: year_len_def split: if_splits)
  then have "y = 399" using assms(1) by simp
  then show ?thesis by (simp add: True year_of_era_def)
next
  case False
  obtain q r c where p: "y = 4 * q + r" "r < 4" "y div 4 = q" "y div 100 = c" "c < 4" "25 * c \<le> q" "q < 25 * c + 25"
    "year_start y + c = 365 * y + q"
    using assms(1) by (rule year_parts)
  define e where "e = doe - year_start y"
  have doe: "doe + c = 365 * y + q + e" using p(8) assms(2) by (simp add: e_def)
  have e: "e < year_len y" using assms year_end_len [OF assms(1)] by (simp add: e_def)
  have len: "e < 365 \<or> (e = 365 \<and> r = 3 \<and> (y = 399 \<or> y < 100 * c + 99))"
    using e year_len_366 [OF _ assms(1)] p(1,2,4) by (cases "year_len y = 366") (auto simp: year_len_def split: if_splits)
  note c1 = century_of_day [OF p(1-7) doe False len]
  have c2: "doe div 146096 = 0" using year_end_le [OF assms(1)] assms(3) False by simp
  have d: "doe + c = 1461 * q + 365 * r + e" and "q \<le> doe" using doe p(1,6) by simp_all
  show ?thesis
  proof (cases "q + 365 * r + e < 1460 + c")
    case True
    have "doe div 1460 = q" by (rule div_nat_eqI) (use d p(6) True in simp_all)
    moreover have "e < 365" using len True p(6) by auto
    moreover have "doe - q + c = 365 * y + e" using doe \<open>q \<le> doe\<close> by simp
    ultimately show ?thesis by (simp add: year_of_era_def c1 c2)
  next
    case False
    have "doe div 1460 = q + 1" by (rule div_nat_eqI) (use d p(2,5,6,7) False len in auto)
    moreover have "1 \<le> e" using False p(2,5,6,7) by simp
    moreover from this have "doe - (q + 1) + c = 365 * y + (e - 1)" using doe p(1,6) by simp
    ultimately show ?thesis using len by (auto simp: year_of_era_def c1 c2)
  qed
qed

lemma year_exists:
  "doe < 146097 \<Longrightarrow> \<exists>y<400. year_start y \<le> doe \<and> doe < year_end y"
proof (induction doe)
  case 0
  then show ?case by (intro exI [of _ 0]) (simp add: year_start_def year_end_def)
next
  case (Suc doe)
  then obtain y where y: "y < 400" "year_start y \<le> doe" "doe < year_end y" by auto
  show ?case
  proof (cases "Suc doe < year_end y")
    case True
    then show ?thesis using y by (intro exI [of _ y]) simp
  next
    case False
    with y have e: "Suc doe = year_end y" by simp
    with Suc.prems have "y \<noteq> 399" by (auto simp: year_end_def)
    then have s: "Suc y < 400" "year_start (Suc y) = Suc doe" using y e by (simp_all add: year_end_def)
    then show ?thesis
      using year_end_len [OF s(1)] by (intro exI [of _ "Suc y"]) (simp add: year_len_def)
  qed
qed

lemma year_of_era_range:
  assumes "doe < 146097"
  shows "year_of_era doe < 400" "year_start (year_of_era doe) \<le> doe" "doe < year_end (year_of_era doe)"
  using year_exists [OF assms] year_of_day by auto


section \<open>Months of a year\<close>

definition month_start :: "nat \<Rightarrow> nat" where
  "month_start mp = (153 * mp + 2) div 5"

lemma month_index:
  "(5 * doy + 2) div 153 = mp \<longleftrightarrow> month_start mp \<le> doy \<and> doy < month_start (mp + 1)"
proof -
  have "month_start k \<le> doy \<longleftrightarrow> 153 * k \<le> 5 * doy + 2" for k
  proof -
    have "month_start k \<le> doy \<longleftrightarrow> 153 * k + 2 < 5 * Suc doy"
      unfolding month_start_def using div_less_iff_less_mult [of 5 "153 * k + 2" "Suc doy"]
      by (simp add: less_Suc_eq_le mult.commute)
    also have "153 * k + 2 < 5 * Suc doy \<longleftrightarrow> 153 * k \<le> 5 * doy + 2" by presburger
    finally show ?thesis .
  qed
  moreover have "(5 * doy + 2) div 153 = mp \<longleftrightarrow> 153 * mp \<le> 5 * doy + 2 \<and> 5 * doy + 2 < 153 * (mp + 1)"
    by (auto simp: div_nat_eqI dividend_less_times_div intro: div_nat_eqI)
  ultimately show ?thesis by (metis linorder_not_le)
qed

lemma month_start_less: "month_start k < month_start (k + 1)"
proof -
  have "(153 * k + 2) div 5 \<le> (153 * k + 5) div 5" by (rule div_le_mono) simp
  also have "(153 * k + 5) div 5 + 30 = (153 * k + 5 + 30 * 5) div 5" by (simp only: div_mult_self1)
  finally show ?thesis by (simp add: month_start_def)
qed

definition month_of :: "nat \<Rightarrow> nat" where
  "month_of mp = (if mp < 10 then mp + 3 else mp - 9)"

lemma month_day_eq:
  "month_start mp \<le> doy \<Longrightarrow> doy < month_start (mp + 1) \<Longrightarrow>
     month_day doy = (month_of mp, doy - month_start mp + 1)"
  using month_index [of doy mp] by (simp add: month_day_def month_of_def month_start_def Let_def)

text \<open>From March to January every month has the length of the calendar.\<close>

lemma month_lengths:
  assumes "mp < 11"
  shows "month_start (mp + 1) = month_start mp + days_in_month y (month_of mp)" "month_of mp \<noteq> 2"
    "month_of (mp + 1) = (if month_of mp < 12 then month_of mp + 1 else 1)"
    "1 \<le> month_of mp" "month_of mp \<le> 12"
proof -
  have "mp \<in> {0, 1, 2, 3, 4, 5, 6, 7, 8, 9, 10}"
    unfolding insert_iff empty_iff using assms by presburger
  then show "month_start (mp + 1) = month_start mp + days_in_month y (month_of mp)" "month_of mp \<noteq> 2"
    "month_of (mp + 1) = (if month_of mp < 12 then month_of mp + 1 else 1)"
    "1 \<le> month_of mp" "month_of mp \<le> 12"
    by (auto simp: month_start_def days_in_month_def month_of_def)
qed



section \<open>One day after the other\<close>

lemma dvd_mod: "k dvd b \<Longrightarrow> (a + b) mod k = a mod k" for a b k :: nat
  by (metis add.right_neutral dvd_imp_mod_0 mod_add_right_eq)

lemma leap_era: "leap_year (y + era * 400) = leap_year y"
proof -
  have "(y + era * 400) mod 4 = y mod 4" "(y + era * 400) mod 100 = y mod 100" "(y + era * 400) mod 400 = y mod 400"
    by (simp_all add: dvd_mod)
  then show ?thesis by (simp add: leap_year_def)
qed

lemma month_exists:
  assumes "doy < 366"
  obtains mp where "mp \<le> 11" "month_start mp \<le> doy" "doy < month_start (mp + 1)"
proof -
  let ?mp = "(5 * doy + 2) div 153"
  have "?mp \<le> 11" using assms by simp
  then show ?thesis using that [of ?mp] month_index [of doy ?mp] by blast
qed

lemma era_date_next:
  assumes "doy + 1 < year_len y"
  shows "era_date era y (doy + 1) = next_day (era_date era y doy)"
proof -
  have "doy < 366" using assms by (simp add: year_len_def split: if_splits)
  then obtain mp where mp: "mp \<le> 11" "month_start mp \<le> doy" "doy < month_start (mp + 1)"
    by (rule month_exists)
  note now = month_day_eq [OF mp(2,3)]
  show ?thesis
  proof (cases "mp = 11")
    case True
    then have "month_start mp = 337" "month_start (mp + 1) = 367" "month_of mp = 2"
      by (simp_all add: month_start_def month_of_def)
    moreover obtain k where "doy = 337 + k" using calculation(1) mp(2) by (metis le_Suc_ex)
    moreover from calculation have "month_day (doy + 1) = (month_of mp, doy + 1 - month_start mp + 1)"
      using mp assms by (intro month_day_eq) (simp_all add: year_len_def split: if_splits)
    ultimately show ?thesis
      using now assms mp(2) leap_era [of "y + 1" era]
      by (simp add: era_date_def days_in_month_def year_len_def add.commute add.left_commute split: if_splits)
  next
    case False
    then have m: "mp < 11" using mp by simp
    note l = month_lengths [OF m]
    show ?thesis
    proof (cases "doy + 1 < month_start (mp + 1)")
      case True
      have "month_day (doy + 1) = (month_of mp, doy + 1 - month_start mp + 1)"
        by (rule month_day_eq) (use mp True in simp_all)
      moreover obtain k where "doy = month_start mp + k" using mp(2) by (metis le_Suc_ex)
      ultimately show ?thesis
        using now True mp(2) l(1) [of "y + era * 400 + (if month_of mp \<le> 2 then 1 else 0)"]
        by (simp add: era_date_def)
    next
      case False
      then have "doy + 1 = month_start (mp + 1)" using mp by simp
      moreover have "month_day (doy + 1) = (month_of (mp + 1), doy + 1 - month_start (mp + 1) + 1)"
        by (rule month_day_eq) (use calculation month_start_less [of "mp + 1"] in simp_all)
      ultimately show ?thesis
        using now mp(2) l(2-) l(1) [of "y + era * 400 + (if month_of mp \<le> 2 then 1 else 0)"]
        by (auto simp: era_date_def)
    qed
  qed
qed

lemma era_date_wrap:
  assumes "doy + 1 = year_len y"
  shows "next_day (era_date era y doy) = (y + 1 + era * 400, 3, 1)"
proof -
  have doy: "doy = 364 \<or> doy = 365" using assms by (auto simp: year_len_def split: if_splits)
  have "month_day doy = (2, doy - 336)" using doy by (auto simp: month_day_def)
  then show ?thesis
    using assms doy leap_era [of "y + 1" era]
    by (auto simp: era_date_def days_in_month_def year_len_def split: if_splits)
qed

text \<open>The date of the next day is the next date.\<close>

lemma era_Suc:
  assumes "Suc (z mod 146097) < 146097"
  shows "Suc z mod 146097 = Suc (z mod 146097)" and "Suc z div 146097 = z div 146097"
  using assms by (simp_all add: mod_Suc div_Suc)

lemma date_at_day:
  assumes "z = n + 719468" and "y = year_of_era (z mod 146097)"
  shows "date_of_days n = era_date (z div 146097) y (z mod 146097 - year_start y)"
  by (simp add: date_of_days_def assms Let_def)

lemma year_turns:
  assumes "z = n + 719468" and "y < 400" and "Suc (z mod 146097) = year_end y"
  shows "date_of_days (n + 1) = (y + 1 + z div 146097 * 400, 3, 1)"
proof (cases "y = 399")
  case last: True
  then have "Suc z mod 146097 = 0" "Suc z div 146097 = Suc (z div 146097)"
    using assms(3) by (simp_all add: year_end_def mod_Suc div_Suc)
  then show ?thesis using date_at_day [of "Suc z" "n + 1" 0] assms(1) last
    by (simp add: year_of_era_def era_date_def month_day_def)
next
  case False
  then have s: "Suc (z mod 146097) = year_start (y + 1)" using assms(3) by (simp add: year_end_def)
  have y1: "y + 1 < 400" using assms(2) False by simp
  have "Suc (z mod 146097) < 146097"
    using s year_end_len [OF y1] year_end_le [OF y1] by (simp add: year_len_def split: if_splits)
  note m = era_Suc [OF this]
  have "year_of_era (Suc (z mod 146097)) = y + 1"
    by (rule year_of_day [OF y1]) (use s year_end_len [OF y1] in \<open>simp_all add: year_len_def\<close>)
  then show ?thesis using date_at_day [of "Suc z" "n + 1" "y + 1"] assms(1) m s
    by (simp add: era_date_def month_day_def)
qed

lemma date_next: "date_of_days (n + 1) = next_day (date_of_days n)"
proof -
  define z where "z = n + 719468"
  define doe where "doe = z mod 146097"
  define y where "y = year_of_era doe"
  have "doe < 146097" by (simp add: doe_def)
  note r = year_of_era_range [OF this, folded y_def]
  have now: "date_of_days n = era_date (z div 146097) y (doe - year_start y)"
    unfolding doe_def by (rule date_at_day) (simp_all add: z_def y_def doe_def)
  show ?thesis
  proof (cases "Suc doe = year_end y")
    case True
    have doy: "doe - year_start y + 1 = year_len y" using True r year_end_len by simp
    have "date_of_days (n + 1) = (y + 1 + z div 146097 * 400, 3, 1)"
      using year_turns [OF z_def r(1)] True by (simp add: doe_def)
    then show ?thesis using era_date_wrap [OF doy] now by simp
  next
    case False
    then have in_year: "Suc doe < year_end y" using r by simp
    have "year_end y \<le> 146097" using r(1) by (rule year_end_le)
    then have m: "Suc z mod 146097 = Suc doe" "Suc z div 146097 = z div 146097"
      using in_year by (simp_all add: doe_def era_Suc)
    have "year_of_era (Suc doe) = y"
      by (rule year_of_day [OF r(1)]) (use r in_year in simp_all)
    moreover have "Suc doe - year_start y = doe - year_start y + 1" using r by simp
    moreover have "doe - year_start y + 1 < year_len y" using in_year r year_end_len [OF r(1)] by simp
    ultimately show ?thesis using date_at_day [of "Suc z" "n + 1" y] m now era_date_next by (simp add: z_def)
  qed
qed



section \<open>Words\<close>

text \<open>Arithmetic on \<open>u32\<close> values that stay in range is arithmetic on naturals.\<close>

lemma u32_div: "a < 2 ^ 32 \<Longrightarrow> b < 2 ^ 32 \<Longrightarrow> (of_nat a :: 32 word) div of_nat b = of_nat (a div b)"
  by (simp add: word_arith_nat_div unat_of_nat take_bit_nat_eq_self)

lemma u32_sub: "b \<le> a \<Longrightarrow> (of_nat a :: 32 word) - of_nat b = of_nat (a - b)"
  by simp

lemma u32_div_numeral:
  "a < 2 ^ 32 \<Longrightarrow> numeral k < (2 ^ 32 :: nat) \<Longrightarrow> (of_nat a :: 32 word) div numeral k = of_nat (a div numeral k)"
  using u32_div [of a "numeral k"] by simp

lemma u32_mult_numeral: "numeral k * (of_nat a :: 32 word) = of_nat (numeral k * a)"
  by simp

lemma u32_chain:
  "a \<le> n \<Longrightarrow> c \<le> n - a + b \<Longrightarrow>
     (of_nat n :: 32 word) - of_nat a + of_nat b - of_nat c = of_nat (n - a + b - c)"
  by (simp only: of_nat_diff of_nat_add)

lemma year_word:
  assumes "doe < 146097"
  shows "((of_nat doe :: 32 word) - of_nat doe div 1460 + of_nat doe div 36524 - of_nat doe div 146096) div 365 =
    of_nat (year_of_era doe)"
proof -
  define g where "g = doe - doe div 1460 + doe div 36524 - doe div 146096"
  have b: "doe < 2 ^ 32" using assms by simp
  have w: "(of_nat doe :: 32 word) div 1460 = of_nat (doe div 1460)"
    "(of_nat doe :: 32 word) div 36524 = of_nat (doe div 36524)"
    "(of_nat doe :: 32 word) div 146096 = of_nat (doe div 146096)"
    by (rule u32_div_numeral, use b in simp_all)+
  have "doe div 146096 \<le> doe div 36524" by (rule div_le_mono2) simp_all
  then have chain: "(of_nat doe :: 32 word) - of_nat (doe div 1460) + of_nat (doe div 36524) -
      of_nat (doe div 146096) = of_nat g"
    unfolding g_def by (intro u32_chain) simp_all
  have "doe div 36524 \<le> doe" by simp
  then have "g \<le> 2 * doe" unfolding g_def by linarith
  then have "(of_nat g :: 32 word) div 365 = of_nat (g div 365)"
    by (intro u32_div_numeral) (use assms in simp_all)
  then show ?thesis unfolding w chain by (simp only: year_of_era_def g_def)
qed

lemma doy_word:
  assumes "y < 400" and "year_start y \<le> doe"
  shows "(of_nat doe :: 32 word) - (365 * of_nat y + of_nat y div 4 - of_nat y div 100) = of_nat (doe - year_start y)"
proof -
  have b: "y < 2 ^ 32" using assms by simp
  have "y div 100 \<le> y div 4" by (rule div_le_mono2) simp_all
  then have "365 * (of_nat y :: 32 word) + of_nat (y div 4) - of_nat (y div 100) = of_nat (year_start y)"
    by (simp add: year_start_def)
  then show ?thesis using assms(2) by (simp add: u32_div_numeral [OF b])
qed

lemma month_day_word:
  assumes "doy < 366"
  defines "mp \<equiv> (5 * (of_nat doy :: 32 word) + 2) div 153"
  shows "(if mp < 10 then mp + 3 else mp - 9) = of_nat (fst (month_day doy))"
    and "of_nat doy - (153 * mp + 2) div 5 + 1 = of_nat (snd (month_day doy))"
proof -
  define k where "k = (5 * doy + 2) div 153"
  have "5 * (of_nat doy :: 32 word) + 2 = of_nat (5 * doy + 2)" by simp
  moreover have "(of_nat (5 * doy + 2) :: 32 word) div 153 = of_nat k"
    unfolding k_def by (rule u32_div_numeral) (use assms(1) in simp_all)
  ultimately have mp: "mp = of_nat k" by (simp only: mp_def)
  have k: "k < 12" using assms(1) by (simp add: k_def)
  have md: "month_day doy = (if k < 10 then k + 3 else k - 9, doy - month_start k + 1)"
    by (simp add: month_day_def k_def month_start_def Let_def)
  have "mp < 10 \<longleftrightarrow> k < 10" unfolding mp using k by (simp add: word_less_nat_alt unat_of_nat take_bit_nat_eq_self)
  then show "(if mp < 10 then mp + 3 else mp - 9) = of_nat (fst (month_day doy))"
    by (simp add: md mp)
  have "153 * mp + 2 = of_nat (153 * k + 2)" by (simp add: mp)
  moreover have "(of_nat (153 * k + 2) :: 32 word) div 5 = of_nat (month_start k)"
    unfolding month_start_def by (rule u32_div_numeral) (use k in simp_all)
  ultimately have "(153 * mp + 2) div 5 = of_nat (month_start k)" by (simp only:)
  moreover have "month_start k \<le> doy" using month_index [of doy k] by (simp add: k_def)
  ultimately show "of_nat doy - (153 * mp + 2) div 5 + 1 = of_nat (snd (month_day doy))"
    by (simp add: md)
qed

lemma sint_small:
  assumes "unat (w :: 64 word) < 2 ^ 63"
  shows "sint w = int (unat w)"
proof -
  have "int (unat w) < int (2 ^ 63)" using assms by (simp only: of_nat_less_iff)
  then have "uint w < 2 ^ 63" by simp
  then show ?thesis
    unfolding sint_uint by (subst signed_take_bit_int_eq_self) (auto intro: order_trans [of _ 0])
qed

lemma u32_mod: "a < 2 ^ 32 \<Longrightarrow> b < 2 ^ 32 \<Longrightarrow> (of_nat a :: 32 word) mod of_nat b = of_nat (a mod b)"
  by (simp add: word_arith_nat_mod unat_of_nat take_bit_nat_eq_self)

lemma u32_mod_numeral:
  "a < 2 ^ 32 \<Longrightarrow> numeral k < (2 ^ 32 :: nat) \<Longrightarrow> (of_nat a :: 32 word) mod numeral k = of_nat (a mod numeral k)"
  using u32_mod [of a "numeral k"] by simp

lemma unat_u64: "unat (w :: 64 word) < 2 ^ 64"
proof -
  have "int (unat w) < int (2 ^ 64)" using uint_lt2p [of w] by simp
  then show ?thesis by (simp only: of_nat_less_iff)
qed

lemma unat_small: "k < 2 ^ 32 \<Longrightarrow> unat (of_nat k :: 32 word) = k"
  by (simp add: unat_of_nat take_bit_nat_eq_self)

text \<open>Every step of the code on 64-bit and 32-bit integers is exact.\<close>

lemma era_words:
  fixes secs :: "64 word"
  defines "n \<equiv> unat secs div 86400"
  defines "z \<equiv> n + 719468"
  shows "sint (secs div 86400) = int n"
    and "(if 0 \<le> int n + 719468 then int n + 719468 else int n + 719468 - 146096) div 146097 = int (z div 146097)"
    and "word_of_int (int n + 719468 - int (z div 146097) * 146097) = (of_nat (z mod 146097) :: 32 word)"
proof -
  have "n < 2 ^ 63" using unat_u64 [of secs] by (simp add: n_def)
  moreover have "unat (secs div 86400) = n" by (simp add: unat_div n_def)
  ultimately show "sint (secs div 86400) = int n" using sint_small [of "secs div 86400"] by simp
  show "(if 0 \<le> int n + 719468 then int n + 719468 else int n + 719468 - 146096) div 146097 = int (z div 146097)"
    by (simp add: z_def zdiv_int)
  have "int n + 719468 - int (z div 146097) * 146097 = int (z mod 146097)"
    by (simp add: z_def zmod_int zdiv_int minus_div_mult_eq_mod)
  then show "word_of_int (int n + 719468 - int (z div 146097) * 146097) = (of_nat (z mod 146097) :: 32 word)"
    by simp
qed

lemma civil_exact:
  assumes "date_of_days (unat secs div 86400) = (year, month, day)" and "t = unat secs mod 86400"
  shows "civil_from_secs secs = \<lparr>ci_year = int year, ci_month = of_nat month, ci_day = of_nat day,
    ci_hour = of_nat (t div 3600), ci_minute = of_nat (t mod 3600 div 60), ci_second = of_nat (t mod 3600 mod 60)\<rparr>"
    and "month < 2 ^ 32" and "day < 2 ^ 32"
proof -
  define n where "n = unat secs div 86400"
  define z where "z = n + 719468"
  define doe where "doe = z mod 146097"
  define y where "y = year_of_era doe"
  define doy where "doy = doe - year_start y"
  note words = era_words [of secs, folded n_def, folded z_def, folded doe_def]
  have doe: "doe < 146097" by (simp add: doe_def)
  note r = year_of_era_range [OF doe, folded y_def]
  have doy: "doy < 366" using r year_end_len [OF r(1)] by (simp add: doy_def year_len_def split: if_splits)
  note parts = year_word [OF doe, folded y_def] doy_word [OF r(1,2), folded doy_def] month_day_word [OF doy]
  obtain m d where md: "month_day doy = (m, d)" by (cases "month_day doy")
  have "(5 * doy + 2) div 153 < 12" using doy by simp
  then have small: "m \<le> 21" "d \<le> doy + 1" using md by (auto simp: month_day_def Let_def split: if_splits)
  have "(year, month, day) = era_date (z div 146097) y doy"
    using assms(1) by (simp add: date_of_days_def Let_def n_def z_def doe_def y_def doy_def)
  then have date: "year = y + z div 146097 * 400 + (if m \<le> 2 then 1 else 0)" "month = m" "day = d"
    by (simp_all add: era_date_def md)
  show "month < 2 ^ 32" "day < 2 ^ 32" using small doy date by simp_all
  have "y < 2 ^ 32" using r(1) by simp
  then have "int (unat (of_nat y :: 32 word)) = int y" by (simp only: unat_small)
  then have uy: "uint (of_nat y :: 32 word) = int y" by simp
  have um: "(of_nat m :: 32 word) \<le> 2 \<longleftrightarrow> m \<le> 2"
    using small by (simp add: word_le_nat_alt unat_small)
  have t: "t < 2 ^ 32" "t mod 3600 < 2 ^ 32" using assms(2) by (simp, simp)
  have "unat (secs mod 86400) = t" by (simp add: assms(2) unat_mod)
  then have ut: "ucast (secs mod 86400) = (of_nat t :: 32 word)"
    by (metis of_nat_unat)
  show "civil_from_secs secs = \<lparr>ci_year = int year, ci_month = of_nat month, ci_day = of_nat day,
    ci_hour = of_nat (t div 3600), ci_minute = of_nat (t mod 3600 div 60), ci_second = of_nat (t mod 3600 mod 60)\<rparr>"
    unfolding civil_from_secs_def Let_def words parts uy md fst_conv snd_conv um ut date
    using t by (simp add: u32_div_numeral u32_mod_numeral)
qed


section \<open>Property\<close>

lemma dates_iterate: "date_of_days n = (next_day ^^ n) (1970, 1, 1)"
proof (induction n)
  case 0
  have "(719468 :: nat) mod 146097 = 135080" "(719468 :: nat) div 146097 = 4" by simp_all
  moreover have "year_of_era 135080 = 369" "year_start 369 = 134774" "month_day 306 = (1, 1)"
    by (simp_all add: year_of_era_def year_start_def month_day_def)
  ultimately have "date_of_days 0 = (1970, 1, 1)"
    by (simp only: date_of_days_def era_date_def Let_def add_0) simp
  then show ?case by simp
next
  case (Suc n)
  then show ?case using date_next [of n] by simp
qed

text \<open>C23. The build time is the calendar's: counting one day at a time from the first of January
  1970, with the calendar's month lengths and leap years, \<open>secs / 86400\<close> days lead to the date
  that is printed; the time of day is the rest in hours, minutes and seconds. This holds for
  every 64-bit number of seconds, so no step of the 32-bit arithmetic wraps.\<close>

theorem build_date_is_calendar:
  "case (next_day ^^ (unat secs div 86400)) (1970, 1, 1) of (year, month, day) \<Rightarrow>
     iso8601_utc secs =
       zero_pad 4 year @ lit ''-'' @ zero_pad 2 month @ lit ''-'' @ zero_pad 2 day @ lit ''T'' @
       zero_pad 2 (unat secs mod 86400 div 3600) @ lit '':'' @
       zero_pad 2 (unat secs mod 3600 div 60) @ lit '':'' @ zero_pad 2 (unat secs mod 60) @ lit ''Z''"
proof -
  define t where "t = unat secs mod 86400"
  obtain year month day where date: "date_of_days (unat secs div 86400) = (year, month, day)"
    by (cases "date_of_days (unat secs div 86400)")
  note c = civil_exact [OF date t_def]
  have t: "t mod 3600 = unat secs mod 3600" "t mod 3600 mod 60 = unat secs mod 60"
    unfolding t_def by (simp_all add: mod_mod_cancel)
  have b: "t div 3600 < 2 ^ 32" "t mod 3600 div 60 < 2 ^ 32" "t mod 3600 mod 60 < 2 ^ 32"
    unfolding t_def by (simp_all add: less_mult_imp_div_less)
  show ?thesis
    using c b t date
    by (simp add: iso8601_utc_def year_text_def unat_small dates_iterate t_def Let_def del: lit_simps)
qed

end
