(* ===== verification/Build_Info.thy ===== *)
theory Build_Info
  imports Build_Date
begin

text \<open>
  The build information: what \<open>build.rs\<close> hands to the compiler, and the version texts
  (\<open>src/version.rs\<close>) made of it. The answers of git, of the compiler and of the environment
  are parameters.
\<close>

section \<open>The build script\<close>

text \<open>A program's answer is its success and output, or nothing when it cannot be run.
  \<open>be_rustc\<close> has the output as text and \<open>be_lower\<close> is \<open>str::to_lowercase\<close>.\<close>

record build_env =
  be_git :: "rstr list \<Rightarrow> (bool \<times> byte list) option"
  be_rustc :: "rstr \<Rightarrow> (bool \<times> rstr) option"
  be_var :: "rstr \<Rightarrow> rstr option"
  be_vars :: "(rstr \<times> rstr) list"
  be_lower :: "rstr \<Rightarrow> rstr"
  be_clock :: "64 word option"

definition or_unknown :: "rstr option \<Rightarrow> rstr" where
  "or_unknown v = (case v of Some s \<Rightarrow> s | None \<Rightarrow> lit ''unknown'')"

definition git :: "build_env \<Rightarrow> rstr list \<Rightarrow> rstr option" where
  "git be args =
     (case be_git be args of
        None \<Rightarrow> None
      | Some (success, stdout) \<Rightarrow>
          if \<not> success then None
          else (case utf8_decode stdout of
              None \<Rightarrow> None
            | Some t \<Rightarrow> let s = trim t in if s = [] then None else Some s))"

definition git_dirty :: "build_env \<Rightarrow> bool" where
  "git_dirty be =
     (case be_git be [lit ''status'', lit ''--porcelain''] of
        Some (success, stdout) \<Rightarrow> success \<and> stdout \<noteq> []
      | None \<Rightarrow> False)"

definition is_digit :: "nat \<Rightarrow> bool" where
  "is_digit c \<longleftrightarrow> 48 \<le> c \<and> c \<le> 57"

text \<open>\<open>parse::<u64>\<close> takes an optional plus sign and digits that do not overflow.\<close>

definition parse_u64 :: "rstr \<Rightarrow> 64 word option" where
  "parse_u64 s =
     (let digits = (if starts_with [43] s then tl s else s) in
      if digits = [] \<or> \<not> list_all is_digit digits \<or> 2 ^ 64 \<le> read_nat digits then None
      else Some (of_nat (read_nat digits)))"

definition build_unix :: "build_env \<Rightarrow> 64 word" where
  "build_unix be =
     (case Option.bind (be_var be (lit ''SOURCE_DATE_EPOCH'')) parse_u64 of
        Some secs \<Rightarrow> secs
      | None \<Rightarrow> (case be_clock be of Some secs \<Rightarrow> secs | None \<Rightarrow> 0))"

definition rustc_version :: "build_env \<Rightarrow> rstr" where
  "rustc_version be =
     (case be_rustc be (case be_var be (lit ''RUSTC'') of Some p \<Rightarrow> p | None \<Rightarrow> lit ''rustc'') of
        Some (success, out) \<Rightarrow> if success then trim out else lit ''unknown''
      | None \<Rightarrow> lit ''unknown'')"

definition strip_prefix :: "rstr \<Rightarrow> rstr \<Rightarrow> rstr option" where
  "strip_prefix p s = (if starts_with p s then Some (drop (length p) s) else None)"

definition features_text :: "build_env \<Rightarrow> rstr" where
  "features_text be =
     (let features = List.map_filter (\<lambda>(k, _). map_option (be_lower be) (strip_prefix (lit ''CARGO_FEATURE_'') k))
            (be_vars be)
      in if features = [] then lit ''(none)'' else join_with (lit '','') features)"

definition bool_text :: "bool \<Rightarrow> rstr" where
  "bool_text b = (if b then lit ''true'' else lit ''false'')"

definition head_sha_short :: "build_env \<Rightarrow> rstr" where
  "head_sha_short be = or_unknown (git be [lit ''rev-parse'', lit ''--short=12'', lit ''HEAD''])"

text \<open>The variables that the program is compiled with.\<close>

definition rustc_env :: "build_env \<Rightarrow> (rstr \<times> rstr) list" where
  "rustc_env be =
     (let var = (\<lambda>name. or_unknown (be_var be name)) in
     [(lit ''IROH_PROXY_GIT_SHA'', or_unknown (git be [lit ''rev-parse'', lit ''HEAD''])),
      (lit ''IROH_PROXY_GIT_SHA_SHORT'', head_sha_short be),
      (lit ''IROH_PROXY_GIT_BRANCH'', or_unknown (git be [lit ''rev-parse'', lit ''--abbrev-ref'', lit ''HEAD''])),
      (lit ''IROH_PROXY_GIT_DESCRIBE'',
        case git be [lit ''describe'', lit ''--tags'', lit ''--always'', lit ''--dirty''] of
          Some s \<Rightarrow> s | None \<Rightarrow> head_sha_short be),
      (lit ''IROH_PROXY_GIT_DIRTY'', bool_text (git_dirty be)),
      (lit ''IROH_PROXY_BUILD_TIME'', iso8601_utc (build_unix be)),
      (lit ''IROH_PROXY_BUILD_UNIX'', show_nat (unat (build_unix be))),
      (lit ''IROH_PROXY_RUSTC'', rustc_version be),
      (lit ''IROH_PROXY_TARGET'', var (lit ''TARGET'')),
      (lit ''IROH_PROXY_HOST'', var (lit ''HOST'')),
      (lit ''IROH_PROXY_PROFILE'', var (lit ''PROFILE'')),
      (lit ''IROH_PROXY_OPT_LEVEL'', var (lit ''OPT_LEVEL'')),
      (lit ''IROH_PROXY_DEBUG'', var (lit ''DEBUG'')),
      (lit ''IROH_PROXY_FEATURES'', features_text be)])"

definition build_script_output :: "build_env \<Rightarrow> rstr list" where
  "build_script_output be =
     [lit ''cargo:rerun-if-changed=build.rs'',
      lit ''cargo:rerun-if-changed=.git/HEAD'',
      lit ''cargo:rerun-if-changed=.git/index'',
      lit ''cargo:rerun-if-env-changed=SOURCE_DATE_EPOCH''] @
     map (\<lambda>(k, v). lit ''cargo:rustc-env='' @ k @ lit ''='' @ v) (rustc_env be)"


section \<open>The version\<close>

record build_info =
  pkg_version :: rstr
  git_sha :: rstr
  git_sha_short :: rstr
  git_branch :: rstr
  git_describe :: rstr
  git_dirty_text :: rstr
  build_time :: rstr
  build_unix_text :: rstr
  bi_rustc :: rstr
  bi_target :: rstr
  bi_host :: rstr
  bi_profile :: rstr
  opt_level :: rstr
  bi_debug :: rstr
  bi_features :: rstr

text \<open>\<open>env!\<close> does not compile without its variable.\<close>

definition read_build_info :: "rstr \<Rightarrow> (rstr \<times> rstr) list \<Rightarrow> build_info option" where
  "read_build_info pkg env =
     (case map (\<lambda>name. map_of env (lit ''IROH_PROXY_'' @ name))
        [lit ''GIT_SHA'', lit ''GIT_SHA_SHORT'', lit ''GIT_BRANCH'', lit ''GIT_DESCRIBE'', lit ''GIT_DIRTY'',
         lit ''BUILD_TIME'', lit ''BUILD_UNIX'', lit ''RUSTC'', lit ''TARGET'', lit ''HOST'', lit ''PROFILE'',
         lit ''OPT_LEVEL'', lit ''DEBUG'', lit ''FEATURES''] of
        [Some sha, Some short, Some branch, Some describe, Some dirty, Some time, Some unix, Some rustc,
         Some target, Some host, Some profile, Some opt, Some debug, Some features] \<Rightarrow>
          Some \<lparr>pkg_version = pkg, git_sha = sha, git_sha_short = short, git_branch = branch,
            git_describe = describe, git_dirty_text = dirty, build_time = time, build_unix_text = unix,
            bi_rustc = rustc, bi_target = target, bi_host = host, bi_profile = profile, opt_level = opt,
            bi_debug = debug, bi_features = features\<rparr>
      | _ \<Rightarrow> None)"

definition short_version :: "build_info \<Rightarrow> rstr" where
  "short_version bi =
     (let dirty = (if git_dirty_text bi = lit ''true'' then lit ''-dirty'' else []) in
      lit ''iroh-proxy '' @ pkg_version bi @ lit '' ('' @ git_sha_short bi @ dirty @ lit '')'')"

definition print_detailed :: "build_info \<Rightarrow> rstr list" where
  "print_detailed bi =
     [lit ''iroh-proxy '' @ pkg_version bi,
      [],
      lit ''git:'',
      lit ''  commit:   '' @ git_sha bi,
      lit ''  short:    '' @ git_sha_short bi,
      lit ''  branch:   '' @ git_branch bi,
      lit ''  describe: '' @ git_describe bi,
      lit ''  dirty:    '' @ git_dirty_text bi,
      [],
      lit ''build:'',
      lit ''  time:      '' @ build_time bi @ lit '' ('' @ build_unix_text bi @ lit '')'',
      lit ''  profile:   '' @ bi_profile bi,
      lit ''  opt-level: '' @ opt_level bi,
      lit ''  debug:     '' @ bi_debug bi,
      lit ''  features:  '' @ bi_features bi,
      [],
      lit ''toolchain:'',
      lit ''  rustc:  '' @ bi_rustc bi,
      lit ''  target: '' @ bi_target bi,
      lit ''  host:   '' @ bi_host bi]"


section \<open>Properties\<close>

lemma build_info_found:
  "\<exists>bi. read_build_info pkg (rustc_env be) = Some bi \<and> pkg_version bi = pkg \<and>
     git_sha_short bi = head_sha_short be \<and> git_dirty_text bi = bool_text (git_dirty be) \<and>
     build_time bi = iso8601_utc (build_unix be) \<and> build_unix_text bi = show_nat (unat (build_unix be))"
  by (simp add: read_build_info_def rustc_env_def Let_def)

lemma parse_show:
  assumes "n < 2 ^ 64"
  shows "parse_u64 (show_nat n) = Some (of_nat n)"
proof -
  have digits: "list_all is_digit (show_nat n)"
    using show_nat_digits by (auto simp: list_all_iff is_digit_def)
  have "show_nat n \<noteq> []" by (subst show_nat.simps) simp
  then obtain c s where cs: "show_nat n = c # s" by (cases "show_nat n") auto
  then have "c \<noteq> 43" using digits by (auto simp: is_digit_def)
  then have "\<not> starts_with [43] (show_nat n)" by (simp add: cs)
  then show ?thesis
    using assms digits \<open>show_nat n \<noteq> []\<close> by (simp add: parse_u64_def Let_def)
qed

text \<open>The version texts report the build: the short version is the package version with the
  short commit of git, marked dirty exactly when git reports changes, and the detailed one
  shows the build time as date and as seconds. A build time pinned in \<open>SOURCE_DATE_EPOCH\<close> is
  taken whatever the clock says; without git the commit is \<open>unknown\<close> and the build still works.\<close>

theorem version_reports_build:
  "\<exists>bi. read_build_info pkg (rustc_env be) = Some bi \<and>
     short_version bi = lit ''iroh-proxy '' @ pkg @ lit '' ('' @ head_sha_short be @
       (if git_dirty be then lit ''-dirty'' else []) @ lit '')'' \<and>
     lit ''  time:      '' @ iso8601_utc (build_unix be) @ lit '' ('' @ show_nat (unat (build_unix be)) @ lit '')''
       \<in> set (print_detailed bi) \<and>
     (\<forall>secs. be_var be (lit ''SOURCE_DATE_EPOCH'') = Some (show_nat (unat (secs :: 64 word))) \<longrightarrow>
       build_unix be = secs) \<and>
     ((\<forall>args. be_git be args = None) \<longrightarrow> head_sha_short be = lit ''unknown'' \<and> \<not> git_dirty be)"
proof -
  obtain bi where bi: "read_build_info pkg (rustc_env be) = Some bi" "pkg_version bi = pkg"
    "git_sha_short bi = head_sha_short be" "git_dirty_text bi = bool_text (git_dirty be)"
    "build_time bi = iso8601_utc (build_unix be)" "build_unix_text bi = show_nat (unat (build_unix be))"
    using build_info_found by blast
  have dirty: "bool_text b = lit ''true'' \<longleftrightarrow> b" for b by (simp add: bool_text_def)
  have short: "short_version bi = lit ''iroh-proxy '' @ pkg @ lit '' ('' @ head_sha_short be @
      (if git_dirty be then lit ''-dirty'' else []) @ lit '')''"
    by (simp add: short_version_def bi dirty Let_def del: lit_simps)
  have time: "lit ''  time:      '' @ iso8601_utc (build_unix be) @ lit '' ('' @
      show_nat (unat (build_unix be)) @ lit '')'' \<in> set (print_detailed bi)"
    by (simp add: print_detailed_def bi del: lit_simps)
  have pinned: "build_unix be = secs"
    if "be_var be (lit ''SOURCE_DATE_EPOCH'') = Some (show_nat (unat secs))" for secs
    unfolding build_unix_def that by (simp add: parse_show [OF unat_u64])
  have "head_sha_short be = lit ''unknown'' \<and> \<not> git_dirty be" if "\<forall>args. be_git be args = None"
    using that by (simp add: head_sha_short_def git_def git_dirty_def or_unknown_def del: lit_simps)
  with bi(1) short time pinned show ?thesis by blast
qed

definition bare_build :: build_env where
  "bare_build = \<lparr>be_git = (\<lambda>_. None), be_rustc = (\<lambda>_. None),
     be_var = (\<lambda>name. if name = lit ''SOURCE_DATE_EPOCH'' then Some (show_nat (unat (86400 :: 64 word))) else None),
     be_vars = [], be_lower = ascii_lower, be_clock = Some 7\<rparr>"

theorem version_reports_build_witness:
  "build_unix bare_build = 86400 \<and> head_sha_short bare_build = lit ''unknown'' \<and> \<not> git_dirty bare_build"
proof -
  have "\<forall>args. be_git bare_build args = None"
    and "be_var bare_build (lit ''SOURCE_DATE_EPOCH'') = Some (show_nat (unat (86400 :: 64 word)))"
    unfolding bare_build_def build_env.simps by simp_all
  then show ?thesis using version_reports_build [of "[]" bare_build] by blast
qed

end
