(* ===== verification/Fd_Passing.thy ===== *)
theory Fd_Passing
  imports Forward_Client
begin

text \<open>
  OpenSSH's \<open>ProxyUseFdpass\<close> (\<open>src/fdpass.rs\<close>): a process makes a socket pair, starts a relay
  that keeps one end, sends the other end to ssh over its standard output and exits. The
  descriptor tables of the processes are explicit, with the close-on-exec flags that decide what
  the relay inherits. A system call that fails is part of the environment.
\<close>

section \<open>Descriptors\<close>

datatype open_file = SshEnd | RelayEnd | SshChannel | DevNull | OtherFile nat

record fd_entry =
  fe_file :: open_file
  fe_cloexec :: bool

type_synonym fd_table = "nat \<Rightarrow> fd_entry option"

definition bad_fd :: io_error where
  "bad_fd = IoError OtherIo (lit ''Bad file descriptor (os error 9)'')"

text \<open>Which calls of the relay's set-up fail.\<close>

datatype setup_call = CallDup2 | CallGetFd | CallSetFd | CallSetSid

definition setup_op ::
  "(setup_call \<Rightarrow> io_error option) \<Rightarrow> setup_call \<Rightarrow> (fd_table, io_error, 'a) act \<Rightarrow> (fd_table, io_error, 'a) act" where
  "setup_op fails call m = (case fails call of Some e \<Rightarrow> failA e | None \<Rightarrow> m)"

text \<open>\<open>dup2\<close> onto the same descriptor changes nothing; else the copy has no close-on-exec flag.\<close>

definition dup2 :: "nat \<Rightarrow> nat \<Rightarrow> (fd_table, io_error, unit) act" where
  "dup2 old_fd new_fd t =
     (case t old_fd of
        None \<Rightarrow> (Inl bad_fd, t)
      | Some e \<Rightarrow> (Inr (), if old_fd = new_fd then t else t(new_fd \<mapsto> e\<lparr>fe_cloexec := False\<rparr>)))"

definition get_fd_flags :: "nat \<Rightarrow> (fd_table, io_error, bool) act" where
  "get_fd_flags fd t = (case t fd of None \<Rightarrow> (Inl bad_fd, t) | Some e \<Rightarrow> (Inr (fe_cloexec e), t))"

definition clear_cloexec :: "nat \<Rightarrow> (fd_table, io_error, unit) act" where
  "clear_cloexec fd t =
     (case t fd of
        None \<Rightarrow> (Inl bad_fd, t)
      | Some e \<Rightarrow> (Inr (), t(fd \<mapsto> e\<lparr>fe_cloexec := False\<rparr>)))"

definition exec_table :: "fd_table \<Rightarrow> fd_table" where
  "exec_table t = (\<lambda>fd. case t fd of Some e \<Rightarrow> if fe_cloexec e then None else Some e | None \<Rightarrow> None)"


section \<open>Starting the relay\<close>

definition null_stdio :: "fd_table \<Rightarrow> fd_table" where
  "null_stdio t = (let null = \<lparr>fe_file = DevNull, fe_cloexec = False\<rparr> in t(0 \<mapsto> null, 1 \<mapsto> null, 2 \<mapsto> null))"

text \<open>What runs between fork and exec; the result says whether the relay leads a session of its own.
  A failing \<open>setsid\<close> has no other consequence.\<close>

definition relay_pre_exec :: "(setup_call \<Rightarrow> io_error option) \<Rightarrow> nat \<Rightarrow> (fd_table, io_error, bool) act" where
  "relay_pre_exec fails child_raw =
     bindA (setup_op fails CallDup2 (dup2 child_raw 3)) (\<lambda>_.
     bindA (setup_op fails CallGetFd (get_fd_flags 3)) (\<lambda>_.
     bindA (setup_op fails CallSetFd (clear_cloexec 3)) (\<lambda>_.
     retA (fails CallSetSid = None))))"

record spawn_env =
  sp_exec :: "io_error option"
  sp_setup :: "setup_call \<Rightarrow> io_error option"

text \<open>The table the relay runs with, and whether it is detached from ssh's session. A failure before or in exec ends the child process.\<close>

definition spawn_relay_child :: "spawn_env \<Rightarrow> nat \<Rightarrow> fd_table \<Rightarrow> io_error + fd_table \<times> bool" where
  "spawn_relay_child se for_child t =
     (case relay_pre_exec (sp_setup se) for_child (null_stdio t) of
        (Inl e, _) \<Rightarrow> Inl e
      | (Inr detached, t') \<Rightarrow> (case sp_exec se of Some e \<Rightarrow> Inl e | None \<Rightarrow> Inr (exec_table t', detached)))"


section \<open>Sending a descriptor\<close>

record fd_message =
  fm_data :: "byte list"
  fm_level :: rstr
  fm_type :: rstr
  fm_fds :: "nat list"

definition fd_message_of :: "nat \<Rightarrow> fd_message" where
  "fd_message_of fd = \<lparr>fm_data = [0], fm_level = lit ''SOL_SOCKET'', fm_type = lit ''SCM_RIGHTS'', fm_fds = [fd]\<rparr>"

text \<open>The answers of \<open>sendmsg\<close> so far; with none left the call has not returned.\<close>

fun send_loop :: "(io_error + nat) list \<Rightarrow> (io_error + unit) option" where
  "send_loop [] = None"
| "send_loop (Inr n # rest) = Some (Inr ())"
| "send_loop (Inl e # rest) = (if io_kind e = Interrupted then send_loop rest else Some (Inl e))"

text \<open>A message that was sent gives the other side of the socket the open files.\<close>

definition received :: "fd_table \<Rightarrow> fd_message \<Rightarrow> open_file list" where
  "received t m = List.map_filter (\<lambda>fd. map_option fe_file (t fd)) (fm_fds m)"


section \<open>The parent\<close>

definition relay_args :: "rstr option \<Rightarrow> bool \<Rightarrow> rstr \<Rightarrow> rstr list" where
  "relay_args key_file mdns_enabled remote_arg =
     (case key_file of Some k \<Rightarrow> [lit ''--key-file'', k] | None \<Rightarrow> []) @
     (if mdns_enabled then [] else [lit ''--no-mdns'']) @
     [lit ''forward'', lit ''--fdpass-fd'', lit ''3'', remote_arg]"

text \<open>The environment: the descriptors of the new pair, the program, the spawn, \<open>sendmsg\<close>.\<close>

record fdpass_env =
  fe_pair :: "io_error + nat \<times> nat"
  fe_exe :: "io_error + rstr"
  fe_spawn :: spawn_env
  fe_send :: "(io_error + nat) list"

record fdpass_world =
  fw_parent :: fd_table
  fw_relays :: "(rstr list \<times> fd_table \<times> bool) list"
  fw_to_ssh :: "open_file list"

text \<open>The standard library makes sockets close-on-exec.\<close>

definition unix_socketpair :: "fdpass_env \<Rightarrow> (fdpass_world, io_error, nat \<times> nat) act" where
  "unix_socketpair fe w =
     (case fe_pair fe of
        Inl e \<Rightarrow> (Inl e, w)
      | Inr (for_ssh, for_child) \<Rightarrow>
          (Inr (for_ssh, for_child), w\<lparr>fw_parent := (fw_parent w)(
             for_ssh \<mapsto> \<lparr>fe_file = SshEnd, fe_cloexec = True\<rparr>,
             for_child \<mapsto> \<lparr>fe_file = RelayEnd, fe_cloexec = True\<rparr>)\<rparr>))"

definition start_relay :: "fdpass_env \<Rightarrow> nat \<Rightarrow> rstr list \<Rightarrow> (fdpass_world, io_error, unit) act" where
  "start_relay fe for_child args w =
     (case spawn_relay_child (fe_spawn fe) for_child (fw_parent w) of
        Inl e \<Rightarrow> (Inl e, w)
      | Inr relay \<Rightarrow> (Inr (), w\<lparr>fw_relays := fw_relays w @ [(args, relay)]\<rparr>))"

definition close_fd :: "nat \<Rightarrow> (fdpass_world, 'e, unit) act" where
  "close_fd fd w = (Inr (), w\<lparr>fw_parent := (fw_parent w)(fd := None)\<rparr>)"

text \<open>\<open>None\<close> while \<open>sendmsg\<close> keeps being interrupted.\<close>

definition send_fd :: "fdpass_env \<Rightarrow> nat \<Rightarrow> fdpass_world \<Rightarrow> (io_error + unit) option \<times> fdpass_world" where
  "send_fd fe fd w =
     (case send_loop (fe_send fe) of
        Some (Inr u) \<Rightarrow>
          (Some (Inr u), w\<lparr>fw_to_ssh := fw_to_ssh w @ received (fw_parent w) (fd_message_of fd)\<rparr>)
      | r \<Rightarrow> (r, w))"

definition fdpass_setup ::
  "fdpass_env \<Rightarrow> rstr option \<Rightarrow> bool \<Rightarrow> rstr \<Rightarrow> (fdpass_world, error, nat) act" where
  "fdpass_setup fe key_file mdns_enabled remote_arg =
     bindA (mapErrA (\<lambda>e. context_err (lit ''socketpair failed'') (io_chain e)) (unix_socketpair fe)) (\<lambda>(for_ssh, for_child).
     bindA (liftA (with_context (lit ''failed to resolve current executable path'') (map_err io_chain (fe_exe fe)))) (\<lambda>exe.
     bindA (mapErrA (\<lambda>e. context_err (lit ''failed to spawn detached fdpass relay child'') (io_chain e))
       (start_relay fe for_child (exe # relay_args key_file mdns_enabled remote_arg))) (\<lambda>_.
     bindA (close_fd for_child) (\<lambda>_. retA for_ssh))))"

definition run_fdpass_parent ::
  "fdpass_env \<Rightarrow> rstr option \<Rightarrow> bool \<Rightarrow> rstr \<Rightarrow> fdpass_world \<Rightarrow> (error + unit) option \<times> fdpass_world" where
  "run_fdpass_parent fe key_file mdns_enabled remote_arg w =
     (case fdpass_setup fe key_file mdns_enabled remote_arg w of
        (Inl e, w') \<Rightarrow> (Some (Inl e), w')
      | (Inr for_ssh, w') \<Rightarrow>
          (case send_fd fe for_ssh w' of
             (r, w'') \<Rightarrow>
               (map_option (\<lambda>r. with_context (lit ''failed to send connected fd back to ssh via SCM_RIGHTS on stdout'')
                  (map_err io_chain r)) r, w'')))"

text \<open>When the parent has exited, its descriptors are closed.\<close>

definition exit_parent :: "fdpass_world \<Rightarrow> fdpass_world" where
  "exit_parent w = w\<lparr>fw_parent := (\<lambda>_. None)\<rparr>"


section \<open>The relay\<close>

text \<open>The inherited descriptor becomes a stream; the rest is the client side of a forward.\<close>

definition run_fdpass_child ::
  "io_error + unit \<Rightarrow> io_error + unit \<Rightarrow> (lookup list \<Rightarrow> error + 'ep) \<Rightarrow> ('ep \<Rightarrow> nat option) \<Rightarrow>
   ('ep \<Rightarrow> ('i, 'c) dialer) \<Rightarrow> 'i remote_path \<Rightarrow> bool \<Rightarrow> ('c \<Rightarrow> error + unit) \<Rightarrow>
   (nat option \<Rightarrow> error + pump_stats) \<Rightarrow> (error + unit) \<times> fwd_effect list" where
  "run_fdpass_child nonblocking registered bind online dial remote mdns_enabled open_bi pumping =
     (case bind_res (with_context (lit ''failed to set inherited fd non-blocking'') (map_err io_chain nonblocking)) (\<lambda>_.
         with_context (lit ''failed to register inherited fd with tokio'') (map_err io_chain registered)) of
        Inl e \<Rightarrow> (Inl e, [])
      | Inr _ \<Rightarrow>
     (case build_endpoint bind online False mdns_enabled of
        (Inl e, logs) \<Rightarrow> (Inl e, map Logged logs)
      | (Inr ep, logs) \<Rightarrow>
     (case connect_remote_with_retry (dial ep) remote default_policy of
        Inl e \<Rightarrow> (Inl e, map Logged logs)
      | Inr c \<Rightarrow>
     (case open_bi c of
        Inl e \<Rightarrow> (Inl e, map Logged logs @ [Connected])
      | Inr _ \<Rightarrow>
          let effects = map Logged logs @ [Connected, StreamOpened, Pumped None (pumping None), ConnClosed]
          in (case pumping None of Inl e \<Rightarrow> (Inl e, effects) | Inr _ \<Rightarrow> (Inr (), effects))))))"

definition fdpass_usage_error :: error where
  "fdpass_usage_error = anyhow (lit ''`forward --fdpass` takes exactly one argument: the remote path (<endpoint-id>/tcp/<name>); it cannot be combined with a local listen address'')"


section \<open>Properties\<close>

definition relay_table :: fd_table where
  "relay_table = (null_stdio (\<lambda>_. None))(3 \<mapsto> \<lparr>fe_file = RelayEnd, fe_cloexec = False\<rparr>)"

text \<open>Every descriptor past the standard ones is close-on-exec, as the standard library opens them.\<close>

definition cloexec_table :: "fd_table \<Rightarrow> bool" where
  "cloexec_table t \<longleftrightarrow> (\<forall>fd e. 3 \<le> fd \<and> t fd = Some e \<longrightarrow> fe_cloexec e)"

definition holds_open :: "open_file \<Rightarrow> fd_table \<Rightarrow> bool" where
  "holds_open f t \<longleftrightarrow> (\<exists>fd e. t fd = Some e \<and> fe_file e = f)"

definition someone_holds :: "open_file \<Rightarrow> fdpass_world \<Rightarrow> bool" where
  "someone_holds f w \<longleftrightarrow> holds_open f (fw_parent w) \<or> list_ex (\<lambda>(args, t, detached). holds_open f t) (fw_relays w)"

lemma holds_nothing: "\<not> holds_open f (\<lambda>_. None)"
  by (simp add: holds_open_def)

lemma null_stdio_at:
  "null_stdio t fd = (if fd < 3 then Some \<lparr>fe_file = DevNull, fe_cloexec = False\<rparr> else t fd)"
proof -
  have "fd < 3 \<longleftrightarrow> fd = 0 \<or> fd = 1 \<or> fd = 2" by auto
  then show ?thesis by (auto simp: null_stdio_def Let_def)
qed

lemma pre_exec_table:
  assumes "relay_pre_exec fails b t = (Inr u, t')" and "t b = Some e"
  shows "t' = t(3 \<mapsto> e\<lparr>fe_cloexec := False\<rparr>)"
  using assms
  by (cases "b = 3")
    (auto simp: relay_pre_exec_def setup_op_def dup2_def get_fd_flags_def clear_cloexec_def bindA_def failA_def retA_def
      split: option.splits)

lemma relay_child_table:
  assumes "spawn_relay_child se b t = Inr (table, detached)" and "t b = Some \<lparr>fe_file = RelayEnd, fe_cloexec = c\<rparr>"
    and "3 \<le> b" and "cloexec_table t"
  shows "table = relay_table \<and> detached = (sp_setup se CallSetSid = None)"
proof -
  have b: "null_stdio t b = Some \<lparr>fe_file = RelayEnd, fe_cloexec = c\<rparr>" using assms by (simp add: null_stdio_at)
  have "table = exec_table ((null_stdio t)(3 \<mapsto> \<lparr>fe_file = RelayEnd, fe_cloexec = False\<rparr>))"
    using assms(1) pre_exec_table [where b = b and t = "null_stdio t", OF _ b]
    by (auto simp: spawn_relay_child_def split: prod.splits sum.splits option.splits)
  also have "\<dots> = relay_table"
  proof
    fix fd :: nat
    have "fd < 3 \<or> fd = 3 \<or> 3 < fd" by linarith
    then show "exec_table ((null_stdio t)(3 \<mapsto> \<lparr>fe_file = RelayEnd, fe_cloexec = False\<rparr>)) fd = relay_table fd"
      using assms(4) [unfolded cloexec_table_def, rule_format, of fd]
      by (auto simp: exec_table_def relay_table_def null_stdio_at split: option.splits)
  qed
  finally have "table = relay_table" .
  moreover have "detached = (sp_setup se CallSetSid = None)"
    using assms(1) by (auto simp: spawn_relay_child_def relay_pre_exec_def retA_def elim!: bindA_ok
        split: prod.splits sum.splits option.splits)
  ultimately show ?thesis by simp
qed

lemma relay_table_holds: "holds_open f relay_table \<longleftrightarrow> f = DevNull \<or> f = RelayEnd"
proof
  assume "holds_open f relay_table"
  then show "f = DevNull \<or> f = RelayEnd"
    by (auto simp: holds_open_def relay_table_def null_stdio_at split: if_splits)
next
  have "relay_table 0 = Some \<lparr>fe_file = DevNull, fe_cloexec = False\<rparr>"
    "relay_table 3 = Some \<lparr>fe_file = RelayEnd, fe_cloexec = False\<rparr>"
    by (simp_all add: relay_table_def null_stdio_at)
  then show "f = DevNull \<or> f = RelayEnd \<Longrightarrow> holds_open f relay_table"
    unfolding holds_open_def by (metis fd_entry.select_convs(1))
qed

lemma send_loop_None: "send_loop as = None \<longleftrightarrow> list_all (\<lambda>a. \<exists>e. a = Inl e \<and> io_kind e = Interrupted) as"
  by (induction as rule: send_loop.induct) auto

lemma send_loop_never_interrupted: "send_loop as = Some (Inl e) \<Longrightarrow> io_kind e \<noteq> Interrupted"
  by (induction as rule: send_loop.induct) (auto split: if_splits)


lemma setup_outcome:
  assumes "fdpass_setup fe key mdns remote w = (r, w')"
    and "fe_pair fe = Inr (a, b)" and "a \<noteq> b" and "3 \<le> b" and "cloexec_table (fw_parent w)"
    and "fw_relays w = []" and "fw_to_ssh w = []"
  shows "fw_to_ssh w' = []"
    and "case r of
        Inl _ \<Rightarrow> fw_relays w' = []
      | Inr for_ssh \<Rightarrow> for_ssh = a \<and> fw_parent w' a = Some \<lparr>fe_file = SshEnd, fe_cloexec = True\<rparr> \<and>
          (\<exists>exe. fe_exe fe = Inr exe \<and> fw_relays w' = [(exe # relay_args key mdns remote, relay_table, sp_setup (fe_spawn fe) CallSetSid = None)])"
proof -
  let ?t = "(fw_parent w)(a \<mapsto> \<lparr>fe_file = SshEnd, fe_cloexec = True\<rparr>, b \<mapsto> \<lparr>fe_file = RelayEnd, fe_cloexec = True\<rparr>)"
  have "cloexec_table ?t" using assms(5) by (auto simp: cloexec_table_def)
  note table = relay_child_table [OF _ _ assms(4) this, where c = True]
  show "fw_to_ssh w' = []"
    and "case r of
        Inl _ \<Rightarrow> fw_relays w' = []
      | Inr for_ssh \<Rightarrow> for_ssh = a \<and> fw_parent w' a = Some \<lparr>fe_file = SshEnd, fe_cloexec = True\<rparr> \<and>
          (\<exists>exe. fe_exe fe = Inr exe \<and> fw_relays w' = [(exe # relay_args key mdns remote, relay_table, sp_setup (fe_spawn fe) CallSetSid = None)])"
    using assms(1-3,6,7) table
    by (auto simp: fdpass_setup_def unix_socketpair_def start_relay_def close_fd_def bindA_def mapErrA_def liftA_def
        retA_def with_context_def split: sum.splits)
qed

text \<open>C21. After the parent has handed over, ssh is the only holder of its end of the socket pair,
  so that closing it ends the relay: whatever failed, no relay and no parent that has exited
  still holds ssh's end. On success ssh has received exactly that end and one relay runs, with
  its own end as descriptor 3, null devices as its standard streams and no other descriptor, in a
  session of its own unless \<open>setsid\<close> failed, and with the arguments that make it relay for the same remote. On an error ssh has received
  nothing. The parent returns unless every answer to \<open>sendmsg\<close> so far was an interruption.\<close>

theorem fdpass_hands_over:
  assumes "run_fdpass_parent fe key mdns remote w = (r, w')"
    and "fe_pair fe = Inr (a, b)" and "a \<noteq> b" and "3 \<le> b" and "cloexec_table (fw_parent w)"
    and "fw_relays w = []" and "fw_to_ssh w = []"
  shows "\<not> someone_holds SshEnd (exit_parent w') \<and>
    (someone_holds RelayEnd (exit_parent w') \<longleftrightarrow> fw_relays w' \<noteq> []) \<and>
    (case r of
       Some (Inr _) \<Rightarrow> fw_to_ssh w' = [SshEnd] \<and>
         (\<exists>exe. fe_exe fe = Inr exe \<and> fw_relays w' = [(exe # relay_args key mdns remote, relay_table, sp_setup (fe_spawn fe) CallSetSid = None)])
     | Some (Inl _) \<Rightarrow> fw_to_ssh w' = []
     | None \<Rightarrow> fw_to_ssh w' = [] \<and> list_all (\<lambda>x. \<exists>e. x = Inl e \<and> io_kind e = Interrupted) (fe_send fe))"
proof -
  obtain q v where prep: "fdpass_setup fe key mdns remote w = (q, v)" by fastforce
  note out = setup_outcome [OF prep assms(2-7)]
  have relays: "fw_relays w' = fw_relays v"
    using assms(1) prep by (auto simp: run_fdpass_parent_def send_fd_def split: sum.splits option.splits)
  have "fw_relays w' = [] \<or> (\<exists>args detached. fw_relays w' = [(args, relay_table, detached)])"
    using out(2) by (cases q) (auto simp: relays)
  then have held: "someone_holds f (exit_parent w') \<longleftrightarrow> fw_relays w' \<noteq> [] \<and> (f = DevNull \<or> f = RelayEnd)" for f
    by (auto simp: someone_holds_def exit_parent_def relay_table_holds holds_nothing)
  have "case r of
       Some (Inr _) \<Rightarrow> fw_to_ssh w' = [SshEnd] \<and>
         (\<exists>exe. fe_exe fe = Inr exe \<and> fw_relays w' = [(exe # relay_args key mdns remote, relay_table, sp_setup (fe_spawn fe) CallSetSid = None)])
     | Some (Inl _) \<Rightarrow> fw_to_ssh w' = []
     | None \<Rightarrow> fw_to_ssh w' = [] \<and> list_all (\<lambda>x. \<exists>e. x = Inl e \<and> io_kind e = Interrupted) (fe_send fe)"
    using assms(1) prep out send_loop_None [of "fe_send fe"]
    by (auto simp: run_fdpass_parent_def send_fd_def received_def fd_message_of_def List.map_filter_def
        with_context_def split: sum.splits option.splits)
  with held show ?thesis by simp
qed

definition sample_fdpass :: fdpass_env where
  "sample_fdpass = \<lparr>fe_pair = Inr (5, 6), fe_exe = Inr [120], fe_spawn = \<lparr>sp_exec = None, sp_setup = (\<lambda>_. None)\<rparr>,
     fe_send = [Inl (IoError Interrupted []), Inr 1]\<rparr>"

definition sample_ssh_world :: fdpass_world where
  "sample_ssh_world = \<lparr>fw_parent = [1 \<mapsto> \<lparr>fe_file = SshChannel, fe_cloexec = False\<rparr>,
       3 \<mapsto> \<lparr>fe_file = OtherFile 0, fe_cloexec = True\<rparr>],
     fw_relays = [], fw_to_ssh = []\<rparr>"

theorem fdpass_hands_over_witness:
  "case run_fdpass_parent sample_fdpass None True [114] sample_ssh_world of (r, w') \<Rightarrow>
     r = Some (Inr ()) \<and> fw_to_ssh w' = [SshEnd] \<and> \<not> someone_holds SshEnd (exit_parent w') \<and>
     someone_holds RelayEnd (exit_parent w')"
proof -
  obtain r w' where run: "run_fdpass_parent sample_fdpass None True [114] sample_ssh_world = (r, w')"
    by fastforce
  have "r = Some (Inr ())"
    using run
    by (auto simp: run_fdpass_parent_def fdpass_setup_def unix_socketpair_def start_relay_def close_fd_def bindA_def
        mapErrA_def liftA_def retA_def with_context_def send_fd_def sample_fdpass_def sample_ssh_world_def
        spawn_relay_child_def relay_pre_exec_def setup_op_def dup2_def get_fd_flags_def clear_cloexec_def null_stdio_at)
  moreover have "fe_pair sample_fdpass = Inr (5, 6)" "cloexec_table (fw_parent sample_ssh_world)"
    "fw_relays sample_ssh_world = []" "fw_to_ssh sample_ssh_world = []"
    by (auto simp: sample_fdpass_def sample_ssh_world_def cloexec_table_def)
  ultimately show ?thesis
    using fdpass_hands_over [OF run, of 5 6] run by auto
qed

end
