(* ===== verification/Cli_Server.thy ===== *)
theory Cli_Server
  imports Server_Daemon Secret_Keys Systemd_Unit Fd_Passing
begin

text \<open>
  The commands of \<open>src/main.rs\<close> that run the proxy itself: \<open>server\<close>, which may only install the
  user service, and \<open>forward\<close> and \<open>forward-config\<close> in their modes. Each loads its key and its
  configuration from the file system and then hands over to the component it runs.
\<close>

section \<open>Forwarding\<close>

record forward_args =
  fa_timeout_secs :: nat
  fa_fdpass :: bool
  fa_fdpass_fd :: "int option"
  fa_first :: rstr
  fa_second :: "rstr option"

text \<open>What a forward command ends in: the function it calls and the arguments.\<close>

datatype ('k, 'i) forward_run =
    RunFdpassChild 'k "'i remote_path" int bool
  | RunFdpassParent rstr "path option" bool
  | RunBindings 'k "'i fwd_binding list" bool
  | RunStdio 'k "'i remote_path" bool

definition forward_command ::
  "bool \<Rightarrow> 'k key_lib \<Rightarrow> (rstr \<Rightarrow> rstr + 'i) \<Rightarrow> path option \<Rightarrow> bool \<Rightarrow> forward_args \<Rightarrow>
   (fs, error, ('k, 'i) forward_run) act" where
  "forward_command unix kl parse_id key_file mdns fa =
     (case (fa_fdpass_fd fa, unix) of
        (Some fd, True) \<Rightarrow>
          if fa_second fa \<noteq> None then failA fdpass_usage_error
          else
            bindA (load_or_create_forward_key kl key_file) (\<lambda>sk.
            bindA (liftA (remote_from_str parse_id (fa_first fa))) (\<lambda>remote.
            retA (RunFdpassChild sk remote fd mdns)))
      | (Some fd, False) \<Rightarrow> failA (anyhow (lit ''--fdpass-fd is only supported on unix''))
      | (None, _) \<Rightarrow>
          if fa_fdpass fa then
            if \<not> unix then failA (anyhow (lit ''--fdpass is only supported on unix platforms''))
            else if fa_second fa \<noteq> None then failA fdpass_usage_error
            else
              bindA (liftA (remote_from_str parse_id (fa_first fa))) (\<lambda>_.
              retA (RunFdpassParent (fa_first fa) key_file mdns))
          else (case fa_second fa of
              Some remote \<Rightarrow>
                bindA (load_or_create_forward_key kl key_file) (\<lambda>sk.
                bindA (liftA (remote_from_str parse_id remote)) (\<lambda>rp.
                retA (RunBindings sk [\<lparr>bd_listen = fa_first fa, bd_remote = rp,
                  bd_timeout = from_secs (fa_timeout_secs fa)\<rparr>] mdns)))
            | None \<Rightarrow>
                bindA (load_or_create_forward_key kl key_file) (\<lambda>sk.
                bindA (liftA (remote_from_str parse_id (fa_first fa))) (\<lambda>rp.
                retA (RunStdio sk rp mdns)))))"

fun config_bindings :: "(rstr \<Rightarrow> rstr + 'i) \<Rightarrow> forward_service list \<Rightarrow> error + 'i fwd_binding list" where
  "config_bindings parse_id [] = Inr []"
| "config_bindings parse_id (fw # fws) =
     bind_res (with_context (lit ''invalid remote path '' @ quoted (fw_remote fw))
       (remote_from_str parse_id (fw_remote fw))) (\<lambda>rp.
     bind_res (config_bindings parse_id fws) (\<lambda>bs.
     Inr (\<lparr>bd_listen = fw_listen fw, bd_remote = rp, bd_timeout = from_secs (fw_secs fw)\<rparr> # bs)))"

definition forward_config_command ::
  "'k key_lib \<Rightarrow> (rstr \<Rightarrow> rstr + 'i) \<Rightarrow> toml \<Rightarrow> path option \<Rightarrow> bool \<Rightarrow> path \<Rightarrow>
   (fs, error, ('k, 'i) forward_run) act" where
  "forward_config_command kl parse_id tm key_file mdns config =
     bindA (load_or_create_forward_key kl key_file) (\<lambda>sk.
     bindA (load_config tm config) (\<lambda>cfg.
     bindA (liftA (case c_forward cfg of
         None \<Rightarrow> Inl (anyhow (lit ''missing [forward] section in '' @ path_display config))
       | Some section \<Rightarrow> Inr section)) (\<lambda>section.
     bindA (liftA (config_bindings parse_id (forward_services section))) (\<lambda>bindings.
     retA (RunBindings sk bindings mdns)))))"


section \<open>The server\<close>

datatype 'i server_outcome = Installed "rstr list" | Ran "'i server_run"

text \<open>What \<open>--install\<close> asks of the system: the user's configuration directory, the current
  directory and the program.\<close>

record install_env =
  ie_linux :: bool
  ie_exe :: "io_error + rstr"
  ie_config_dir :: "path option"
  ie_cwd :: "io_error + rstr"

definition install_command :: "install_env \<Rightarrow> rstr option \<Rightarrow> rstr \<Rightarrow> bool \<Rightarrow> (fs, error, rstr list) act" where
  "install_command ie key_file config_file mdns =
     (if \<not> ie_linux ie then failA (anyhow (lit ''server --install is only available on Linux (systemd)''))
      else
        bindA (liftA (with_context (lit ''failed to resolve current executable path for service install'')
          (map_err io_chain (ie_exe ie)))) (\<lambda>exe.
        bindA (install_user_service (ie_config_dir ie) (ie_cwd ie) exe key_file config_file mdns) (\<lambda>service_path.
        retA [lit ''installed: '' @ path_display service_path,
              lit ''next:'',
              lit ''  systemctl --user daemon-reload'',
              lit ''  systemctl --user enable --now iroh-proxy.service''])))"

text \<open>The key and configuration paths are given as text, for the unit, and as the paths they name.\<close>

definition server_command ::
  "install_env \<Rightarrow> 'k key_lib \<Rightarrow> path \<Rightarrow> ('k \<Rightarrow> 'i server_env) \<Rightarrow> toml \<Rightarrow>
   rstr option \<Rightarrow> path option \<Rightarrow> rstr \<Rightarrow> path \<Rightarrow> bool \<Rightarrow> bool \<Rightarrow> (fs, error, 'i server_outcome) act" where
  "server_command ie kl default_key env tm key_file key_path config_file config_path mdns install =
     (if install then bindA (install_command ie key_file config_file mdns) (\<lambda>out. retA (Installed out))
      else
        bindA (load_or_create_serve_key_and_lock kl default_key key_path) (\<lambda>sk.
        bindA (load_config_or_default tm config_path) (\<lambda>cfg.
        retA (Ran (run_server (env sk) (serve_entries cfg) (forward_entries cfg) mdns)))))"

text \<open>\<open>tui\<close> refuses to start on a platform that lacks what it needs.\<close>

definition tui_allowed :: "platform \<Rightarrow> error + unit" where
  "tui_allowed pf =
     (let caps = capabilities_of pf in
      if \<not> live_control caps \<or> \<not> state_stream caps
      then Inl (anyhow (lit ''tui requires live control + state stream support (platform: '' @ os_name pf @
        lit '', planned transport: '' @ transport_label caps @ lit '')''))
      else Inr ())"


section \<open>Facts\<close>

lemma config_bindings_all:
  "config_bindings parse_id fws = Inr bs \<Longrightarrow>
     list_all2 (\<lambda>fw b. bd_listen b = fw_listen fw \<and> remote_from_str parse_id (fw_remote fw) = Inr (bd_remote b) \<and>
       bd_timeout b = from_secs (fw_secs fw)) fws bs"
proof (induction fws arbitrary: bs)
  case (Cons fw fws)
  then show ?case by (auto simp: bind_res_Inr_iff with_context_def)
qed simp

text \<open>Nothing of the environment is left to happen; \<open>L\<close> is what else an operation keeps.\<close>

definition still :: "(fs \<Rightarrow> bool) \<Rightarrow> fs \<Rightarrow> bool" where
  "still L s \<longleftrightarrow> turns s = [] \<and> L s"

lemma still_op:
  assumes "\<And>s r s'. body s = (r, s') \<Longrightarrow> L s \<Longrightarrow> turns s' = turns s \<and> L s'"
    and "\<And>s. L (log_state s) = L s"
  shows "keeps (still L) (fs_op body partial)"
proof -
  have "still L t" if "still L s" "fs_op body partial s = (r, t)" for r s t
    using that assms
    by (auto simp: still_def fs_op_def take_turn_def split: prod.splits)
  then show ?thesis by (intro hoareI) blast+
qed

text \<open>Loading the key with its file \<open>p\<close> keeps the lock, and every other file \<open>q\<close>.\<close>

definition apart :: "path \<Rightarrow> path \<Rightarrow> fentry option \<Rightarrow> fs \<Rightarrow> bool" where
  "apart p q f s \<longleftrightarrow> p \<noteq> q \<longrightarrow> files s q = f"

definition held :: "path \<Rightarrow> path \<Rightarrow> fentry option \<Rightarrow> fs \<Rightarrow> bool" where
  "held p q f s \<longleftrightarrow> locked s p \<and> apart p q f s"

lemma lock_calls:
  "keeps (still (held p q f)) (fs_read p)" "keeps (still (held p q f)) (seek_start p)"
  "keeps (still (held p q f)) (set_len_zero p)" "keeps (still (held p q f)) (write_all p bs)"
  "keeps (still (held p q f)) (sync_file p)" "keeps (still (held p q f)) (metadata_mode p)"
  "keeps (still (held p q f)) (set_permissions p m)"
  unfolding fs_read_def seek_start_def set_len_zero_def write_all_def sync_file_def metadata_mode_def
    set_permissions_def
  by (rule still_op; auto simp: held_def apart_def append_to_def split: option.splits if_splits)+

lemma lock_restrict: "keeps (still (held p q f)) (restrict_secret_key_permissions p)"
  unfolding restrict_secret_key_permissions_def
  by (intro keeps_bind keeps_ctx keeps_if keeps_ret lock_calls)

lemma lock_from_file: "keeps (still (held p q f)) (load_or_create_secret_key_from_file kl p)"
proof -
  have fresh: "keeps (still (held p q f)) (\<lambda>s. let sk = generate kl s in
      bindA (restrict_secret_key_permissions p) (\<lambda>_.
      bindA (ctx (lit ''failed to truncate key file '' @ path_display p) (set_len_zero p)) (\<lambda>_.
      bindA (ctx (lit ''failed to seek key file '' @ path_display p) (seek_start p)) (\<lambda>_.
      bindA (ctx (lit ''failed to write key file '' @ path_display p) (write_all p (key_bytes kl sk))) (\<lambda>_.
      bindA (ctx (lit ''failed to sync key file '' @ path_display p) (sync_file p)) (\<lambda>_. retA sk))))) s)"
    (is "keeps _ (\<lambda>s. let sk = generate kl s in ?store sk s)")
  proof -
    have "keeps (still (held p q f)) (?store sk)" for sk
      by (intro keeps_bind keeps_ctx keeps_ret lock_calls lock_restrict)
    then show ?thesis by (simp add: hoare_def Let_def)
  qed
  show ?thesis
    unfolding load_or_create_secret_key_from_file_def parse_key_def
    by (intro keeps_bind keeps_ctx keeps_if keeps_lift lock_calls lock_restrict fresh)
qed

lemma still_calls:
  "keeps (still (apart p q f)) (create_dir_all d)" "keeps (still (apart p q f)) (open_or_create m p)"
  "hoare (still (apart p q f)) (try_lock p) (\<lambda>_. still (held p q f)) (\<lambda>_. still (apart p q f))"
  unfolding create_dir_all_def open_or_create_def
    apply (rule still_op; auto simp: apart_def split: option.splits if_splits)+
  by (rule hoareI; auto simp: try_lock_def fs_op_def take_turn_def still_def held_def apart_def split: if_splits)

lemma lock_taken:
  "hoare (still (apart (serve_key_path default_path key_file) q f)) (lock_serve_key_file default_path key_file)
    (\<lambda>_. still (held (serve_key_path default_path key_file) q f)) (\<lambda>_ _. True)"
proof -
  let ?p = "serve_key_path default_path key_file"
  have dir: "keeps (still (apart ?p q f)) (create_key_dir ?p)"
    unfolding create_key_dir_def
    by (auto split: option.splits intro!: keeps_ctx keeps_ret still_calls)
  show ?thesis
    unfolding lock_serve_key_file_def Let_def
    by (rule hoare_bind [OF hoare_any [OF dir]], rule hoare_bind [OF hoare_any [OF keeps_ctx [OF still_calls(2)]]],
        rule hoare_bind [OF hoare_mapErr hoare_any [OF lock_restrict]], rule hoare_any [OF still_calls(3)])
qed

lemma key_taken:
  assumes "load_or_create_serve_key_and_lock kl default_path key_file s = (Inr sk, t)" and "turns s = []"
  shows "still (held (serve_key_path default_path key_file) q (files s q)) t"
proof -
  let ?p = "serve_key_path default_path key_file"
  have "hoare (still (apart ?p q (files s q))) (load_or_create_serve_key_and_lock kl default_path key_file)
      (\<lambda>_. still (held ?p q (files s q))) (\<lambda>_ _. True)"
    unfolding load_or_create_serve_key_and_lock_def
    by (rule hoare_bind [OF lock_taken hoare_any [OF lock_from_file]])
  from hoareD_ok [OF this _ assms(1)] assms(2) show ?thesis by (simp add: still_def apart_def)
qed

lemma load_still:
  assumes "load_config_or_default tm p s = (Inr c, t)" and "still L s" and "\<And>s. L (log_state s) = L s"
  shows "on_disk tm p t = Some c \<and> L t"
  using assms
  by (auto simp: load_config_or_default_def load_config_def path_exists_def read_to_string_def ctx_def mapErrA_def
      fs_op_def take_turn_def still_def bindA_def retA_def liftA_def with_context_def on_disk_def
      split: if_splits option.splits prod.splits sum.splits)


section \<open>Properties\<close>

lemma server_command_run:
  assumes "server_command ie kl default_key env tm key_file key_path config_file config_path mdns False s =
      (Inr (Ran run), t)" and "turns s = []"
  obtains sk cfg where "on_disk tm config_path t = Some cfg" "locked t (serve_key_path default_key key_path)"
    "run = run_server (env sk) (serve_entries cfg) (forward_entries cfg) mdns"
    "serve_key_path default_key key_path \<noteq> config_path \<Longrightarrow> files t config_path = files s config_path"
proof -
  let ?p = "serve_key_path default_key key_path"
  from assms(1) obtain sk s1 cfg where key: "load_or_create_serve_key_and_lock kl default_key key_path s = (Inr sk, s1)"
    and load: "load_config_or_default tm config_path s1 = (Inr cfg, t)"
    and run: "run = run_server (env sk) (serve_entries cfg) (forward_entries cfg) mdns"
    by (auto simp: server_command_def retA_def elim!: bindA_ok)
  have "held ?p config_path (files s config_path) (log_state u) = held ?p config_path (files s config_path) u" for u
    by (simp add: held_def apart_def)
  from load_still [OF load key_taken [OF key assms(2)] this] that run show ?thesis
    by (simp add: held_def apart_def)
qed

text \<open>C16. Starting the server serves what the configuration file says. When the server command has
  brought up a daemon, it holds the lock of its key file, and with no other process in the way
  the configuration file holds a configuration such that exactly its services are served with
  their targets, and exactly its forwards are installed with the parsed remote paths; their
  names and addresses are distinct.\<close>

theorem server_command_serves_config:
  assumes "server_command ie kl default_key env tm key_file key_path config_file config_path mdns False s =
      (Inr (Ran run), t)"
    and "turns s = []" and "sr_daemon run = Some d"
    and "\<forall>raw c. from_toml tm raw = Inr c \<longrightarrow> list_all (\<lambda>sv. valid_str (sv_name sv)) (serve_entries c)"
  shows "\<exists>cfg sk. on_disk tm config_path t = Some cfg \<and> locked t (serve_key_path default_key key_path) \<and>
    daemon_ok d \<and> distinct (map sv_name (serve_entries cfg)) \<and> distinct (map fw_listen (forward_entries cfg)) \<and>
    sp_serves (abs_daemon d) =
      (\<lambda>n. if valid_str n then map_of (service_pairs (serve_entries cfg)) n else None) \<and>
    (\<forall>l. sp_forwards (abs_daemon d) l =
      (case map_of (map (\<lambda>fw. (fw_listen fw, fw_remote fw)) (forward_entries cfg)) l of
         None \<Rightarrow> None
       | Some raw \<Rightarrow> (case remote_from_str (se_parse_id (env sk)) raw of
            Inr rp \<Rightarrow> Some (rp, True) | Inl _ \<Rightarrow> None)))"
proof -
  obtain sk cfg where cfg: "on_disk tm config_path t = Some cfg" "locked t (serve_key_path default_key key_path)"
    and run: "run = run_server (env sk) (serve_entries cfg) (forward_entries cfg) mdns"
    using assms(1,2) by (rule server_command_run)
  have names: "list_all (\<lambda>sv. valid_str (sv_name sv)) (serve_entries cfg)"
    using cfg(1) assms(4)
    by (auto simp: on_disk_def config_default_def serve_entries_def split: option.splits if_splits sum.splits)
  from run_server_result [OF names, of "env sk" "forward_entries cfg" mdns] assms(3) cfg
  show ?thesis unfolding run [symmetric] by (intro exI [of _ cfg] exI [of _ sk]) simp
qed

text \<open>A server with one service in its configuration file.\<close>

definition sample_server_fs :: fs where
  "sample_server_fs = (key_fs (Some \<lparr>content = [9], fmode = 420\<rparr>) [])
     \<lparr>files := [[[107]] \<mapsto> \<lparr>content = [9], fmode = 420\<rparr>, [[99]] \<mapsto> \<lparr>content = [65], fmode = 420\<rparr>]\<rparr>"

definition sample_install :: install_env where
  "sample_install = \<lparr>ie_linux = True, ie_exe = Inr [120], ie_config_dir = None, ie_cwd = Inr [47]\<rparr>"

abbreviation sample_start :: "(fs, error, rstr server_outcome) act" where
  "sample_start \<equiv> server_command sample_install byte_keys [[107]] (\<lambda>_. sample_server) sample_toml None None
     [47, 99] [[99]] True False"

lemma sample_key_run:
  "\<exists>s1. load_or_create_serve_key_and_lock byte_keys [[107]] None sample_server_fs = (Inr 9, s1) \<and>
     turns s1 = [] \<and> files s1 [[99]] = Some \<lparr>content = [65], fmode = 420\<rparr>"
  by (simp add: load_or_create_serve_key_and_lock_def lock_serve_key_file_def load_or_create_secret_key_from_file_def
      serve_key_path_def open_or_create_def try_lock_def seek_start_def sample_server_fs_def key_eval)

lemma sample_start_run:
  "\<exists>t. sample_start sample_server_fs =
     (Inr (Ran (run_server sample_server [\<lparr>sv_name = [119], sv_target = [56]\<rparr>] [] True)), t)"
proof -
  obtain s1 where s1: "load_or_create_serve_key_and_lock byte_keys [[107]] None sample_server_fs = (Inr 9, s1)"
    "turns s1 = []" "files s1 [[99]] = Some \<lparr>content = [65], fmode = 420\<rparr>"
    using sample_key_run by blast
  have "utf8_decode [65] = Some [65]"
    using utf8_decode_utf8 [of "[65]"] by (simp add: text_eval)
  then have "\<exists>t. load_config_or_default sample_toml [[99]] s1 = (Inr (sample_config [[119]]), t)"
    using s1(2,3)
    by (simp add: load_config_or_default_def load_config_def path_exists_def read_to_string_def ctx_def mapErrA_def
        fs_op_def take_turn_def bindA_def liftA_def with_context_def sample_toml_def log_state_def)
  then obtain t where t: "load_config_or_default sample_toml [[99]] s1 = (Inr (sample_config [[119]]), t)" by blast
  show ?thesis
    using s1(1) t by (simp add: server_command_def bindA_def retA_def sample_config_def serve_entries_def forward_entries_def)
qed

theorem server_command_serves_config_witness:
  "\<exists>run t d. sample_start sample_server_fs = (Inr (Ran run), t) \<and> sr_daemon run = Some d \<and>
     distinct (map sv_name (case on_disk sample_toml [[99]] t of Some cfg \<Rightarrow> serve_entries cfg | None \<Rightarrow> [])) \<and>
     locked t [[107]] \<and> daemon_ok d"
proof -
  let ?run = "run_server sample_server [\<lparr>sv_name = [119], sv_target = [56]\<rparr>] [] True"
  obtain t where t: "sample_start sample_server_fs = (Inr (Ran ?run), t)" using sample_start_run by blast
  obtain d where d: "sr_daemon ?run = Some d" using sample_server_starts by blast
  have "turns sample_server_fs = []" by (simp add: sample_server_fs_def key_fs_def)
  moreover have "\<forall>raw c. from_toml sample_toml raw = Inr c \<longrightarrow> list_all (\<lambda>sv. valid_str (sv_name sv)) (serve_entries c)"
    by (auto simp: sample_toml_def sample_config_def config_default_def push_forward_def serve_entries_def scalar_def
        split: if_splits)
  ultimately show ?thesis
    using server_command_serves_config [OF t _ d] t d by (auto simp: serve_key_path_def)
qed

lemma forward_key_still: "keeps (still (\<lambda>_. True)) (load_or_create_forward_key kl key_file)"
proof -
  have pass: "keeps (at_most 0) (secret_key_pass kl p)" for p
    unfolding secret_key_pass_def
    by (intro keeps_bind keeps_attempt create_key_dir_keeps op_same_turns keeps_turns_rest)
  have "hoare (at_most 0) (load_or_create_secret_key kl p) (\<lambda>_. at_most 0) (\<lambda>_. at_most 0)" for p
    by (rule load_or_create_rule [where P = "at_most 0" and Q = "\<lambda>_. at_most 0" and E = "\<lambda>_. at_most 0"], rule hoare_conseq [OF pass]) (auto split: option.splits)
  then show ?thesis
    by (simp add: load_or_create_forward_key_def still_def hoare_def split: option.split)
qed

lemma load_config_still:
  "load_config tm p s = (Inr c, t) \<Longrightarrow> turns s = [] \<Longrightarrow> on_disk tm p t = Some c"
  by (auto simp: load_config_def read_to_string_def ctx_def mapErrA_def
      fs_op_def take_turn_def bindA_def retA_def liftA_def with_context_def on_disk_def
      split: if_splits option.splits prod.splits sum.splits)

text \<open>Forwarding from a configuration file listens on what the file says: when the command gets
  to forwarding, the file holds a \<open>forward\<close> section, and there is one binding for each of its
  entries, in order, with the entry's address, its parsed remote path and its timeout; listeners
  are started for exactly these, and only if there is at least one, the endpoint can be bound with
  the lookups of a client and every address can be bound.\<close>

theorem forward_config_listens:
  assumes "forward_config_command kl parse_id tm key_file mdns config s = (Inr out, t)" and "turns s = []"
  shows "\<exists>cfg fsec sk bindings.
    on_disk tm config t = Some cfg \<and> c_forward cfg = Some fsec \<and> out = RunBindings sk bindings mdns \<and>
    list_all2 (\<lambda>fw b. bd_listen b = fw_listen fw \<and> remote_from_str parse_id (fw_remote fw) = Inr (bd_remote b) \<and>
      bd_timeout b = from_secs (fw_secs fw)) (forward_services fsec) bindings \<and>
    (\<forall>(ep :: lookup list \<Rightarrow> error + 'ep) online bind bs. forward_bindings ep online mdns bind bindings = Inr bs \<longleftrightarrow>
      bs = bindings \<and> bindings \<noteq> [] \<and> is_ok (ep (endpoint_lookups False mdns)) \<and>
      list_all (\<lambda>b. is_ok (bind (bd_listen b))) bindings)"
proof -
  from assms(1) obtain sk s1 cfg s2 fsec bindings
    where key: "load_or_create_forward_key kl key_file s = (Inr sk, s1)"
      and load: "load_config tm config s1 = (Inr cfg, t)"
      and sect: "c_forward cfg = Some fsec"
      and bs: "config_bindings parse_id (forward_services fsec) = Inr bindings"
      and out: "out = RunBindings sk bindings mdns"
    by (auto simp: forward_config_command_def liftA_def retA_def elim!: bindA_ok split: option.splits)
  have "still (\<lambda>_. True) s1" using hoareD_ok [OF forward_key_still _ key] assms(2) by (simp add: still_def)
  then have disk: "on_disk tm config t = Some cfg" using load_config_still [OF load] by (simp add: still_def)
  with disk sect out config_bindings_all [OF bs] show ?thesis
    by (intro exI [of _ cfg] exI [of _ fsec] exI [of _ sk] exI [of _ bindings] conjI allI forward_bindings_ok)
qed

definition sample_forward_fs :: fs where
  "sample_forward_fs = (key_fs None [])\<lparr>files := [[[99]] \<mapsto> \<lparr>content = [67], fmode = 420\<rparr>]\<rparr>"

definition sample_bindings :: "rstr fwd_binding list" where
  "sample_bindings = [\<lparr>bd_listen = [58], bd_remote = \<lparr>endpoint_id = [97], service = [119]\<rparr>, bd_timeout = from_secs 2\<rparr>]"

lemma sample_forward_run:
  "\<exists>t. forward_config_command byte_keys Inr sample_toml None True [[99]] sample_forward_fs =
     (Inr (RunBindings 5 sample_bindings True), t)"
proof -
  have d: "utf8_decode [67] = Some [67]"
    using utf8_decode_utf8 [of "[67]"] by (simp add: text_eval)
  have r: "remote_from_str Inr (fw_remote sample_forward) = (Inr \<lparr>endpoint_id = [97], service = [119]\<rparr> :: error + rstr remote_path)"
    by (simp add: sample_forward_def remote_from_str_def validate_service_name_def max_service_name_len_def
        slash_def bad_name_char_def text_eval)
  show ?thesis
    using d r
    by (simp add: forward_config_command_def load_or_create_forward_key_def byte_keys_def bindA_def retA_def liftA_def
        load_config_def read_to_string_def ctx_def mapErrA_def fs_op_def take_turn_def sample_forward_fs_def
        key_fs_def with_context_def sample_toml_def push_forward_def config_default_def sample_config_def
        sample_bindings_def forward_entries_def sample_forward_def)
qed

theorem forward_config_listens_witness:
  "\<exists>t. forward_config_command byte_keys Inr sample_toml None True [[99]] sample_forward_fs =
       (Inr (RunBindings 5 sample_bindings True), t) \<and>
     is_ok (forward_bindings (\<lambda>_. Inr ()) (\<lambda>_. Some 0) True (\<lambda>_. Inr ()) sample_bindings)"
proof -
  obtain t where t: "forward_config_command byte_keys Inr sample_toml None True [[99]] sample_forward_fs =
      (Inr (RunBindings 5 sample_bindings True), t)"
    using sample_forward_run by blast
  moreover have "turns sample_forward_fs = []" by (simp add: sample_forward_fs_def key_fs_def)
  ultimately have "forward_bindings (\<lambda>_. Inr ()) (\<lambda>_. Some 0) True (\<lambda>_. Inr ()) sample_bindings = Inr sample_bindings"
    using forward_config_listens [OF t, where 'ep = unit] by (auto simp: sample_bindings_def)
  with t show ?thesis by auto
qed

end
