(* ===== verification/Control_Socket.thy ===== *)
theory Control_Socket
  imports Control_Client
begin

text \<open>
  The control socket of macOS and Windows (\<open>src/daemon/control_plane.rs\<close>): binding it, recovering
  from a stale file, and the permissions around it. The socket file is either missing, left
  over by a process that is gone, or served by a process. Before every call other processes may
  change it, and the call may fail; after every call the state is recorded in \<open>sw_seen\<close>.
\<close>

section \<open>The socket file\<close>

datatype socket_file = NoSocket | DeadSocket | LiveSocket nat

record sock_turn =
  st_others :: "socket_file option"
  st_fault :: "io_error option"

record sock_world =
  sw_file :: socket_file
  sw_mode :: nat
  sw_dir :: "nat option"
  sw_me :: nat
  sw_uid :: nat
  sw_turns :: "sock_turn list"
  sw_seen :: "(socket_file \<times> nat option) list"

definition see :: "sock_world \<Rightarrow> sock_world" where
  "see s = s\<lparr>sw_seen := sw_seen s @ [(sw_file s, sw_dir s)]\<rparr>"

definition sock_op :: "(sock_world, io_error, 'a) act \<Rightarrow> (sock_world, io_error, 'a) act" where
  "sock_op body s =
     (case sw_turns s of
        [] \<Rightarrow> (case body s of (r, t) \<Rightarrow> (r, see t))
      | tn # ts \<Rightarrow>
          (let s1 = s\<lparr>sw_turns := ts, sw_file := (case st_others tn of Some f \<Rightarrow> f | None \<Rightarrow> sw_file s)\<rparr> in
           case st_fault tn of
             Some e \<Rightarrow> (Inl e, see s1)
           | None \<Rightarrow> (case body s1 of (r, t) \<Rightarrow> (r, see t))))"

definition addr_in_use :: io_error where
  "addr_in_use = IoError AddrInUse (lit ''Address already in use'')"

definition refused_connection :: io_error where
  "refused_connection = IoError ConnectionRefused (lit ''Connection refused'')"

definition no_such_socket :: io_error where
  "no_such_socket = IoError NotFound (lit ''No such file or directory'')"

definition sock_bind :: "(sock_world, io_error, unit) act" where
  "sock_bind = sock_op (\<lambda>s.
     if sw_file s = NoSocket then (Inr (), s\<lparr>sw_file := LiveSocket (sw_me s), sw_mode := 493\<rparr>)
     else (Inl addr_in_use, s))"

definition sock_probe :: "(sock_world, io_error, unit) act" where
  "sock_probe = sock_op (\<lambda>s.
     (case sw_file s of
        LiveSocket _ \<Rightarrow> Inr ()
      | DeadSocket \<Rightarrow> Inl refused_connection
      | NoSocket \<Rightarrow> Inl no_such_socket, s))"

definition sock_remove :: "(sock_world, io_error, unit) act" where
  "sock_remove = sock_op (\<lambda>s.
     if sw_file s = NoSocket then (Inl no_such_socket, s) else (Inr (), s\<lparr>sw_file := NoSocket\<rparr>))"

definition sock_owner :: "(sock_world, io_error, nat) act" where
  "sock_owner = sock_op (\<lambda>s. if sw_file s = NoSocket then (Inl no_such_socket, s) else (Inr (sw_uid s), s))"

definition sock_chmod :: "nat \<Rightarrow> (sock_world, io_error, unit) act" where
  "sock_chmod m = sock_op (\<lambda>s.
     if sw_file s = NoSocket then (Inl no_such_socket, s) else (Inr (), s\<lparr>sw_mode := m\<rparr>))"

definition dir_create :: "(sock_world, io_error, unit) act" where
  "dir_create = sock_op (\<lambda>s. (Inr (), s\<lparr>sw_dir := Some (case sw_dir s of Some m \<Rightarrow> m | None \<Rightarrow> 493)\<rparr>))"

definition dir_chmod :: "nat \<Rightarrow> (sock_world, io_error, unit) act" where
  "dir_chmod m = sock_op (\<lambda>s.
     case sw_dir s of None \<Rightarrow> (Inl no_such_socket, s) | Some _ \<Rightarrow> (Inr (), s\<lparr>sw_dir := Some m\<rparr>))"

text \<open>A listener that is dropped leaves its file behind.\<close>

definition drop_listener :: "sock_world \<Rightarrow> sock_world" where
  "drop_listener s = (if sw_file s = LiveSocket (sw_me s) then s\<lparr>sw_file := DeadSocket\<rparr> else s)"

definition or_drop :: "(sock_world, 'e, 'a) act \<Rightarrow> (sock_world, 'e, 'a) act" where
  "or_drop m s = (case m s of (Inl e, t) \<Rightarrow> (Inl e, drop_listener t) | (Inr a, t) \<Rightarrow> (Inr a, t))"


section \<open>The listeners of the two platforms\<close>

text \<open>The listener of macOS knows the user who owns the socket.\<close>

definition macos_bind :: "(sock_world, io_error, nat) act" where
  "macos_bind = bindA sock_bind (\<lambda>_. or_drop sock_owner)"

definition windows_bind :: "(sock_world, io_error, unit) act" where
  "windows_bind = sock_bind"

definition macos_authorize :: "nat \<Rightarrow> io_error + nat \<Rightarrow> io_error + unit" where
  "macos_authorize owner_uid peer_cred =
     bind_res peer_cred (\<lambda>peer_uid.
     if peer_uid \<noteq> owner_uid then
       Inl (IoError PermissionDenied (lit ''peer uid '' @ show_nat peer_uid @
         lit '' does not match daemon uid '' @ show_nat owner_uid))
     else Inr ())"

definition windows_authorize :: "unit \<Rightarrow> io_error + nat \<Rightarrow> io_error + unit" where
  "windows_authorize l peer_cred = Inr ()"


section \<open>Binding\<close>

definition sock_ctx :: "rstr \<Rightarrow> (sock_world, io_error, 'a) act \<Rightarrow> (sock_world, error, 'a) act" where
  "sock_ctx t m = mapErrA (\<lambda>e. context_err t (io_chain e)) m"

definition already_served :: "rstr \<Rightarrow> error" where
  "already_served p = anyhow (lit ''control socket '' @ p @ lit '' is already served by a running daemon'')"

definition bind_control_listener ::
  "rstr \<Rightarrow> (sock_world, io_error, 'l) act \<Rightarrow> (sock_world, io_error, unit) act \<Rightarrow> (sock_world, error, 'l) act" where
  "bind_control_listener p bind probe =
     bindA (attemptA bind) (\<lambda>r.
     case r of
       Inr listener \<Rightarrow> retA listener
     | Inl bind_err \<Rightarrow>
         if io_kind bind_err = AddrInUse then
           bindA (attemptA probe) (\<lambda>answer.
           case answer of
             Inr _ \<Rightarrow> failA (already_served p)
           | Inl connect_err \<Rightarrow>
               if io_kind connect_err \<in> {ConnectionRefused, NotFound} then
                 bindA (attemptA sock_remove) (\<lambda>removed.
                 bindA (case removed of
                     Inr _ \<Rightarrow> retA ()
                   | Inl remove_err \<Rightarrow>
                       if io_kind remove_err = NotFound then retA ()
                       else failA (context_err (lit ''failed to remove stale control socket '' @ p) (io_chain remove_err))) (\<lambda>_.
                 sock_ctx (lit ''failed to bind control socket '' @ p @ lit '' after stale cleanup'') bind))
               else failA (context_err (lit ''failed to probe existing control socket '' @ p) (io_chain connect_err)))
         else failA (context_err (lit ''failed to bind control socket '' @ p) (io_chain bind_err)))"

text \<open>The start of the control plane up to its accept loop; only macOS sets permissions.\<close>

definition start_control_socket ::
  "rstr \<Rightarrow> rstr option \<Rightarrow> bool \<Rightarrow> (sock_world, io_error, 'l) act \<Rightarrow> (sock_world, io_error, unit) act \<Rightarrow>
   (sock_world, error, 'l) act" where
  "start_control_socket p parent macos bind probe =
     bindA (case parent of
         None \<Rightarrow> retA ()
       | Some d \<Rightarrow>
           bindA (sock_ctx (lit ''failed to create control socket directory '' @ d) dir_create) (\<lambda>_.
           if macos then sock_ctx (lit ''failed to restrict control socket directory '' @ d) (dir_chmod 448)
           else retA ())) (\<lambda>_.
     bindA (bind_control_listener p bind probe) (\<lambda>listener.
     if macos then
       bindA (or_drop (sock_ctx (lit ''failed to restrict control socket '' @ p) (sock_chmod 384))) (\<lambda>_.
       retA listener)
     else retA listener))"

text \<open>At shutdown the file is removed; a failure is only logged.\<close>

datatype cleanup_log = RemovedSocket rstr | RemoveFailed rstr rstr

definition cleanup_socket :: "platform \<Rightarrow> rstr \<Rightarrow> sock_world \<Rightarrow> cleanup_log list \<times> sock_world" where
  "cleanup_socket pf p s =
     (if pf = Linux then ([], s)
      else (case sock_remove s of
          (Inr _, t) \<Rightarrow> ([RemovedSocket p], t)
        | (Inl err, t) \<Rightarrow> (if io_kind err = NotFound then [] else [RemoveFailed (io_text err) p], t)))"


section \<open>The contract of a listener\<close>

definition same_files :: "sock_world \<Rightarrow> sock_world \<Rightarrow> bool" where
  "same_files s t \<longleftrightarrow> sw_file t = sw_file s \<and> sw_mode t = sw_mode s \<and> sw_dir t = sw_dir s \<and> sw_me t = sw_me s \<and>
     sw_turns t = sw_turns s"

text \<open>With nobody in the way: binding takes a free address and refuses one that is in use, and the
  probe finds out whether a process answers.\<close>

locale control_listener =
  fixes bind :: "(sock_world, io_error, 'l) act"
    and probe :: "(sock_world, io_error, unit) act"
  assumes bind_free: "sw_turns s = [] \<Longrightarrow> sw_file s = NoSocket \<Longrightarrow>
      \<exists>l t. bind s = (Inr l, t) \<and> sw_file t = LiveSocket (sw_me s) \<and> sw_dir t = sw_dir s \<and> sw_me t = sw_me s \<and>
        sw_turns t = []"
    and bind_used: "sw_turns s = [] \<Longrightarrow> sw_file s \<noteq> NoSocket \<Longrightarrow>
      \<exists>e t. bind s = (Inl e, t) \<and> io_kind e = AddrInUse \<and> same_files s t"
    and probe_live: "sw_turns s = [] \<Longrightarrow> sw_file s = LiveSocket n \<Longrightarrow> \<exists>t. probe s = (Inr (), t) \<and> same_files s t"
    and probe_dead: "sw_turns s = [] \<Longrightarrow> sw_file s = DeadSocket \<Longrightarrow>
      \<exists>e t. probe s = (Inl e, t) \<and> io_kind e = ConnectionRefused \<and> same_files s t"
begin

lemma bind_outcome:
  assumes "sw_turns s = []"
  shows "\<exists>r t. bind_control_listener p bind probe s = (r, t) \<and> sw_dir t = sw_dir s \<and> sw_me t = sw_me s \<and>
    sw_turns t = [] \<and>
    (case sw_file s of
       LiveSocket n \<Rightarrow> r = Inl (already_served p) \<and> sw_file t = LiveSocket n
     | _ \<Rightarrow> is_ok r \<and> sw_file t = LiveSocket (sw_me s))"
proof (cases "sw_file s")
  case NoSocket
  from bind_free [OF assms NoSocket] obtain l t where "bind s = (Inr l, t)" "sw_file t = LiveSocket (sw_me s)"
    "sw_dir t = sw_dir s" "sw_me t = sw_me s" "sw_turns t = []"
    by blast
  with NoSocket show ?thesis by (simp add: bind_control_listener_def bindA_def attemptA_def retA_def)
next
  case DeadSocket
  have used: "sw_file s \<noteq> NoSocket" using DeadSocket by simp
  from bind_used [OF assms used] obtain e t where b: "bind s = (Inl e, t)" "io_kind e = AddrInUse" "same_files s t"
    by blast
  have t: "sw_turns t = []" "sw_file t = DeadSocket" using b(3) assms DeadSocket by (simp_all add: same_files_def)
  from probe_dead [OF t] obtain e' u where pr: "probe t = (Inl e', u)" "io_kind e' = ConnectionRefused" "same_files t u"
    by blast
  have u: "sw_turns u = []" "sw_file u = DeadSocket" using pr(3) t by (simp_all add: same_files_def)
  define v where "v = see (u\<lparr>sw_file := NoSocket\<rparr>)"
  have rm: "sock_remove u = (Inr (), v)"
    using u by (simp add: sock_remove_def sock_op_def v_def)
  have v: "sw_turns v = []" "sw_file v = NoSocket" "sw_dir v = sw_dir s" "sw_me v = sw_me s"
    using u pr(3) b(3) by (simp_all add: v_def see_def same_files_def)
  from bind_free [OF v(1,2)] obtain l x where "bind v = (Inr l, x)" "sw_file x = LiveSocket (sw_me v)"
    "sw_dir x = sw_dir v" "sw_me x = sw_me v" "sw_turns x = []"
    by blast
  with b pr rm v DeadSocket show ?thesis
    by (simp add: bind_control_listener_def bindA_def attemptA_def retA_def sock_ctx_def mapErrA_def)
next
  case (LiveSocket n)
  have used: "sw_file s \<noteq> NoSocket" using LiveSocket by simp
  from bind_used [OF assms used] obtain e t where b: "bind s = (Inl e, t)" "io_kind e = AddrInUse" "same_files s t"
    by blast
  have t: "sw_turns t = []" "sw_file t = LiveSocket n" using b(3) assms LiveSocket by (simp_all add: same_files_def)
  from probe_live [OF t] obtain u where "probe t = (Inr (), u)" "same_files t u" by blast
  with b t LiveSocket show ?thesis
    by (simp add: bind_control_listener_def bindA_def attemptA_def failA_def same_files_def)
qed

end

interpretation macos_listener: control_listener macos_bind sock_probe
  by unfold_locales
    (auto simp: macos_bind_def or_drop_def sock_bind_def sock_owner_def sock_probe_def sock_op_def see_def bindA_def
      same_files_def addr_in_use_def refused_connection_def)

interpretation windows_listener: control_listener windows_bind sock_probe
  by unfold_locales
    (auto simp: windows_bind_def sock_bind_def sock_probe_def sock_op_def see_def
      same_files_def addr_in_use_def refused_connection_def)



section \<open>Who can reach the socket\<close>

text \<open>Whenever the socket of process \<open>me\<close> is there, its directory is the owner's only. \<open>ready\<close>
  says that it is so already before the socket is bound.\<close>

definition private_socket :: "nat \<Rightarrow> bool \<Rightarrow> sock_world \<Rightarrow> bool" where
  "private_socket me ready s \<longleftrightarrow>
     sw_me s = me \<and> list_all (\<lambda>tn. st_others tn \<noteq> Some (LiveSocket me)) (sw_turns s) \<and>
     (sw_file s = LiveSocket me \<or> ready \<longrightarrow> sw_dir s = Some 448) \<and>
     list_all (\<lambda>(f, d). f = LiveSocket me \<longrightarrow> d = Some 448) (sw_seen s)"

lemma private_see: "private_socket me b s \<Longrightarrow> private_socket me b (see s)"
  by (simp add: private_socket_def see_def)

lemma private_op:
  assumes "\<And>s r t. private_socket me b s \<Longrightarrow> body s = (r, t) \<Longrightarrow>
      (case r of Inr _ \<Rightarrow> private_socket me b' t | Inl _ \<Rightarrow> private_socket me b t)"
  shows "hoare (private_socket me b) (sock_op body) (\<lambda>_. private_socket me b') (\<lambda>_. private_socket me b)"
proof -
  have turn: "private_socket me b (s\<lparr>sw_turns := ts, sw_file := (case st_others tn of Some f \<Rightarrow> f | None \<Rightarrow> sw_file s)\<rparr>)"
    if "private_socket me b s" "sw_turns s = tn # ts" for s tn ts
    using that by (auto simp: private_socket_def split: option.splits)
  have body: "case r of Inr _ \<Rightarrow> private_socket me b' (see t) | Inl _ \<Rightarrow> private_socket me b (see t)"
    if "private_socket me b s" "body s = (r, t)" for s r t
    using assms [OF that] private_see by (auto split: sum.splits)
  have "case r of Inr _ \<Rightarrow> private_socket me b' t | Inl _ \<Rightarrow> private_socket me b t"
    if pre: "private_socket me b s" and run: "sock_op body s = (r, t)" for s r t
  proof (cases "sw_turns s")
    case Nil
    with run body [OF pre] show ?thesis by (auto simp: sock_op_def split: prod.splits)
  next
    case (Cons tn ts)
    note pre' = turn [OF pre Cons]
    from Cons run show ?thesis
      using private_see [OF pre'] body [OF pre']
      by (auto simp: sock_op_def Let_def split: option.splits prod.splits)
  qed
  then show ?thesis by (intro hoareI) fastforce+
qed

lemma private_calls:
  "keeps (private_socket me True) sock_bind" "keeps (private_socket me True) sock_probe"
  "keeps (private_socket me True) sock_remove" "keeps (private_socket me True) sock_owner"
  "keeps (private_socket me True) (sock_chmod m)" "keeps (private_socket me b) dir_create"
  "hoare (private_socket me b) (dir_chmod 448) (\<lambda>_. private_socket me True) (\<lambda>_. private_socket me b)"
  unfolding sock_bind_def sock_probe_def sock_remove_def sock_owner_def sock_chmod_def dir_create_def dir_chmod_def
  by (rule private_op; auto simp: private_socket_def split: if_splits option.splits socket_file.splits)+

lemma private_drop:
  "keeps (private_socket me True) m \<Longrightarrow> keeps (private_socket me True) (or_drop m)"
  by (auto simp: hoare_def or_drop_def drop_listener_def private_socket_def split: prod.splits sum.splits)

lemma private_ctx: "hoare P m Q (\<lambda>_. R) \<Longrightarrow> hoare P (sock_ctx t m) Q (\<lambda>_. R)"
  unfolding sock_ctx_def by (rule hoare_mapErr)

lemma private_bind:
  assumes "keeps (private_socket me True) bind" and "keeps (private_socket me True) probe"
  shows "keeps (private_socket me True) (bind_control_listener p bind probe)"
  unfolding bind_control_listener_def
  by (intro keeps_bind keeps_attempt assms)
    (auto split: sum.splits intro!: keeps_bind keeps_ret keeps_fail keeps_attempt private_ctx assms private_calls)

lemma macos_private: "keeps (private_socket me True) macos_bind"
  unfolding macos_bind_def by (intro keeps_bind private_drop private_calls)

lemma start_private:
  "hoare (private_socket me False) (start_control_socket p (Some d) True macos_bind sock_probe)
    (\<lambda>_. private_socket me True) (\<lambda>_ s. private_socket me False s)"
proof -
  have weak: "private_socket me True s \<Longrightarrow> private_socket me False s" for s
    by (simp add: private_socket_def)
  have rest: "keeps (private_socket me True) (bindA (bind_control_listener p macos_bind sock_probe) (\<lambda>listener.
      bindA (or_drop (sock_ctx t (sock_chmod 384))) (\<lambda>_. retA listener)))" for t
    by (intro keeps_bind keeps_ret private_bind macos_private private_calls private_drop private_ctx)
  have dir: "hoare (private_socket me False)
      (bindA (sock_ctx t dir_create) (\<lambda>_. sock_ctx t' (dir_chmod 448)))
      (\<lambda>_. private_socket me True) (\<lambda>_. private_socket me False)" for t t'
    by (rule hoare_bind [OF private_ctx [OF private_calls(6)] private_ctx [OF private_calls(7)]])
  show ?thesis
    unfolding start_control_socket_def option.case if_True
    by (rule hoare_bind [OF dir], rule hoare_conseq [OF rest]) (simp_all add: weak)
qed

lemma start_outcome:
  assumes "sw_turns s = []"
  shows "\<exists>r t. start_control_socket p (Some d) True macos_bind sock_probe s = (r, t) \<and> sw_turns t = [] \<and>
    (case sw_file s of
       LiveSocket n \<Rightarrow> r = Inl (already_served p) \<and> sw_file t = LiveSocket n
     | _ \<Rightarrow> is_ok r \<and> sw_file t = LiveSocket (sw_me s) \<and> sw_mode t = 384 \<and> sw_dir t = Some 448)"
proof -
  define s1 where "s1 = see (s\<lparr>sw_dir := Some (case sw_dir s of Some m \<Rightarrow> m | None \<Rightarrow> 493)\<rparr>)"
  define s2 where "s2 = see (s1\<lparr>sw_dir := Some 448\<rparr>)"
  have dirs: "dir_create s = (Inr (), s1)" "dir_chmod 448 s1 = (Inr (), s2)"
    using assms by (simp_all add: dir_create_def dir_chmod_def sock_op_def s1_def s2_def see_def)
  have s2: "sw_turns s2 = []" "sw_file s2 = sw_file s" "sw_me s2 = sw_me s" "sw_dir s2 = Some 448"
    using assms by (simp_all add: s1_def s2_def see_def)
  from macos_listener.bind_outcome [OF s2(1), of p] obtain r t
    where b: "bind_control_listener p macos_bind sock_probe s2 = (r, t)" "sw_dir t = Some 448" "sw_turns t = []"
      "case sw_file s of LiveSocket n \<Rightarrow> r = Inl (already_served p) \<and> sw_file t = LiveSocket n
       | _ \<Rightarrow> is_ok r \<and> sw_file t = LiveSocket (sw_me s)"
    using s2 by (cases "sw_file s") auto
  show ?thesis
  proof (cases r)
    case (Inl e)
    with b dirs show ?thesis
      by (auto simp: start_control_socket_def sock_ctx_def bindA_def mapErrA_def split: socket_file.splits)
  next
    case (Inr l)
    with b dirs show ?thesis
      by (auto simp: start_control_socket_def sock_ctx_def bindA_def mapErrA_def or_drop_def sock_chmod_def sock_op_def
          see_def retA_def split: socket_file.splits)
  qed
qed

text \<open>C20. Starting the control plane on macOS never exposes the socket: whatever other processes do to
  the socket file and whichever calls fail, at every moment at which this process serves the
  socket its directory is accessible to the owner only. With nobody in the way a missing or stale
  socket is replaced by one that is served, readable and writable by the owner only, and a socket
  that another daemon serves is left alone with an error.\<close>

theorem control_socket_private:
  assumes "sw_file s \<noteq> LiveSocket (sw_me s)" and "sw_seen s = []"
    and "list_all (\<lambda>tn. st_others tn \<noteq> Some (LiveSocket (sw_me s))) (sw_turns s)"
    and "start_control_socket p (Some d) True macos_bind sock_probe s = (r, t)"
  shows "list_all (\<lambda>(f, mode). f = LiveSocket (sw_me s) \<longrightarrow> mode = Some 448) (sw_seen t) \<and>
    (sw_turns s = [] \<longrightarrow>
      (case sw_file s of
         LiveSocket n \<Rightarrow> r = Inl (already_served p) \<and> sw_file t = LiveSocket n
       | _ \<Rightarrow> is_ok r \<and> sw_file t = LiveSocket (sw_me s) \<and> sw_mode t = 384 \<and> sw_dir t = Some 448))"
proof
  have pre: "private_socket (sw_me s) False s" using assms(1-3) by (simp add: private_socket_def)
  from hoareD_ok [OF start_private pre] hoareD_err [OF start_private pre] assms(4)
  have "private_socket (sw_me s) False t" by (cases r) (auto simp: private_socket_def)
  then show "list_all (\<lambda>(f, mode). f = LiveSocket (sw_me s) \<longrightarrow> mode = Some 448) (sw_seen t)"
    by (simp add: private_socket_def)
  show "sw_turns s = [] \<longrightarrow>
      (case sw_file s of
         LiveSocket n \<Rightarrow> r = Inl (already_served p) \<and> sw_file t = LiveSocket n
       | _ \<Rightarrow> is_ok r \<and> sw_file t = LiveSocket (sw_me s) \<and> sw_mode t = 384 \<and> sw_dir t = Some 448)"
    using start_outcome [of s p d] assms(4) by auto
qed

definition stale_world :: "sock_turn list \<Rightarrow> sock_world" where
  "stale_world ts = \<lparr>sw_file = DeadSocket, sw_mode = 493, sw_dir = None, sw_me = 1, sw_uid = 501, sw_turns = ts,
     sw_seen = []\<rparr>"

theorem control_socket_private_witness:
  "case start_control_socket [112] (Some [100]) True macos_bind sock_probe (stale_world []) of (r, t) \<Rightarrow>
     is_ok r \<and> sw_file t = LiveSocket 1 \<and> sw_mode t = 384 \<and> sw_dir t = Some 448"
proof -
  obtain r t where run: "start_control_socket [112] (Some [100]) True macos_bind sock_probe (stale_world []) = (r, t)"
    by fastforce
  with control_socket_private [OF _ _ _ run] show ?thesis by (simp add: stale_world_def)
qed

text \<open>
  Two daemons that recover from the same stale file, one of them between the probe of the other
  and its removal. \<open>second_daemon\<close> is the whole of \<open>bind_control_listener\<close> as process \<open>m\<close> runs it
  in the world of the first; what it leaves at the path is what the first one meets before its
  third call.
\<close>

definition second_daemon :: "rstr \<Rightarrow> nat \<Rightarrow> sock_world \<Rightarrow> (error + nat) \<times> sock_world" where
  "second_daemon p m s = bind_control_listener p macos_bind sock_probe (s\<lparr>sw_me := m, sw_turns := []\<rparr>)"

definition calm_sock_turn :: sock_turn where
  "calm_sock_turn = \<lparr>st_others = None, st_fault = None\<rparr>"

definition meets :: "sock_world \<Rightarrow> sock_turn" where
  "meets t = \<lparr>st_others = Some (sw_file t), st_fault = None\<rparr>"

text \<open>The first daemon, step by step, until it has probed the stale file.\<close>

lemma stale_probe:
  assumes "sw_file s = DeadSocket" and "sw_turns s = calm_sock_turn # calm_sock_turn # ts"
  shows "bind_control_listener p macos_bind sock_probe s =
    bindA (attemptA sock_remove) (\<lambda>removed.
    bindA (case removed of
        Inr _ \<Rightarrow> retA ()
      | Inl remove_err \<Rightarrow>
          if io_kind remove_err = NotFound then retA ()
          else failA (context_err (lit ''failed to remove stale control socket '' @ p) (io_chain remove_err))) (\<lambda>_.
    sock_ctx (lit ''failed to bind control socket '' @ p @ lit '' after stale cleanup'') macos_bind))
      (see (see (s\<lparr>sw_turns := calm_sock_turn # ts\<rparr>)\<lparr>sw_turns := ts\<rparr>))"
proof -
  let ?s1 = "see (s\<lparr>sw_turns := calm_sock_turn # ts\<rparr>)"
  have "macos_bind s = (Inl addr_in_use, ?s1)"
    using assms by (simp add: macos_bind_def bindA_def sock_bind_def sock_op_def calm_sock_turn_def see_def)
  moreover have "sock_probe ?s1 = (Inl refused_connection, see (?s1\<lparr>sw_turns := ts\<rparr>))"
    using assms by (simp add: sock_probe_def sock_op_def calm_sock_turn_def see_def)
  ultimately show ?thesis
    by (simp add: bind_control_listener_def bindA_def attemptA_def addr_in_use_def refused_connection_def
        del: lit_simps)
qed

text \<open>C39. Recovering from a stale socket is not atomic. Two daemons find the same stale file: the
  second one recovers while the first stands between its probe and its removal of the file. The
  second daemon's recovery succeeds and it serves the socket; then the first one removes that
  live socket, after which there is no socket at all, binds its own and succeeds as well. Both
  have reported success, and the path leads to the first one only.\<close>

theorem stale_cleanup_removes_live_socket:
  assumes "sw_file s = DeadSocket" and "m \<noteq> sw_me s" and "second_daemon p m s = (r2, t2)"
    and "sw_turns s = [calm_sock_turn, calm_sock_turn, meets t2]"
    and "bind_control_listener p macos_bind sock_probe s = (r1, t1)"
  shows "is_ok r2 \<and> sw_file t2 = LiveSocket m \<and>
    map fst (sw_seen t1) = map fst (sw_seen s) @ [DeadSocket, DeadSocket, NoSocket, LiveSocket (sw_me s), LiveSocket (sw_me s)] \<and>
    is_ok r1 \<and> sw_file t1 = LiveSocket (sw_me s) \<and> sw_file t1 \<noteq> sw_file t2"
proof -
  have "sw_turns (s\<lparr>sw_me := m, sw_turns := []\<rparr>) = []" by simp
  from macos_listener.bind_outcome [OF this, of p] assms(1,3)
  have two: "is_ok r2" "sw_file t2 = LiveSocket m" by (auto simp: second_daemon_def)
  have "is_ok r1 \<and> sw_file t1 = LiveSocket (sw_me s) \<and>
      map fst (sw_seen t1) = map fst (sw_seen s) @ [DeadSocket, DeadSocket, NoSocket, LiveSocket (sw_me s), LiveSocket (sw_me s)]"
    using assms(5) unfolding stale_probe [OF assms(1,4)]
    by (auto simp: assms(1) meets_def two(2) sock_remove_def sock_op_def see_def macos_bind_def or_drop_def
        sock_bind_def sock_owner_def bindA_def attemptA_def retA_def sock_ctx_def mapErrA_def Let_def)
  with two assms(2) show ?thesis by simp
qed

theorem stale_cleanup_removes_live_socket_witness:
  "\<exists>t2 t1 r1. second_daemon [112] 2 (stale_world []) = (Inr 501, t2) \<and> sw_file t2 = LiveSocket 2 \<and>
     bind_control_listener [112] macos_bind sock_probe
       (stale_world [calm_sock_turn, calm_sock_turn, meets t2]) = (r1, t1) \<and>
     is_ok r1 \<and> sw_file t1 = LiveSocket 1"
proof -
  have two: "fst (second_daemon [112] 2 (stale_world ts)) = Inr 501"
    "snd (second_daemon [112] 2 (stale_world ts)) = snd (second_daemon [112] 2 (stale_world []))" for ts
    by (simp_all add: second_daemon_def stale_world_def bind_control_listener_def macos_bind_def or_drop_def
        sock_bind_def sock_probe_def sock_remove_def sock_owner_def sock_op_def see_def bindA_def attemptA_def
        retA_def sock_ctx_def mapErrA_def addr_in_use_def refused_connection_def)
  let ?t2 = "snd (second_daemon [112] 2 (stale_world []))"
  let ?s = "stale_world [calm_sock_turn, calm_sock_turn, meets ?t2]"
  have "second_daemon [112] 2 ?s = (Inr 501, ?t2)" using two by (simp add: prod_eq_iff)
  moreover obtain r1 t1 where run: "bind_control_listener [112] macos_bind sock_probe ?s = (r1, t1)" by fastforce
  ultimately have "sw_file ?t2 = LiveSocket 2" "is_ok r1" "sw_file t1 = LiveSocket 1"
    using stale_cleanup_removes_live_socket [of ?s 2 "[112]" "Inr 501" ?t2 r1 t1] by (auto simp: stale_world_def)
  with run two show ?thesis by (intro exI [of _ ?t2] exI [of _ t1] exI [of _ r1]) (simp add: prod_eq_iff)
qed

end
