(* ===== verification/Control_Peers.thy ===== *)
theory Control_Peers
  imports Control_Socket
begin

text \<open>
  The tasks of the control plane (\<open>src/daemon/control_plane.rs\<close>): accepting and authorizing peers,
  telling every peer about a change of state, and forgetting peers that are gone. They run
  concurrently over one table of peers, so they are a step relation. On Linux one connection to
  the bus takes their place.
\<close>

section \<open>Errors of the library\<close>

datatype zbus_error = InputOutput io_error | OtherZbus rstr

definition is_expected_signal_disconnect :: "zbus_error \<Rightarrow> bool" where
  "is_expected_signal_disconnect err =
     (case err of
        InputOutput ioerr \<Rightarrow>
          io_kind ioerr \<in> {BrokenPipe, ConnectionAborted, ConnectionReset, NotConnected, UnexpectedEof}
      | OtherZbus _ \<Rightarrow> False)"

datatype peer_log =
    AcceptFailed io_error | RejectedUnauthorized io_error | PrepareFailed zbus_error | CreateFailed zbus_error
  | PeerDisconnected zbus_error | EmitFailed zbus_error rstr | StreamEnded zbus_error


section \<open>The bus of Linux\<close>

text \<open>Every reason is emitted in order; a failure is logged and the loop goes on.\<close>

fun dbus_signals :: "(rstr \<Rightarrow> zbus_error option) \<Rightarrow> rstr list \<Rightarrow> rstr list \<times> peer_log list" where
  "dbus_signals emit [] = ([], [])"
| "dbus_signals emit (reason # rest) =
     (case dbus_signals emit rest of (sent, logs) \<Rightarrow>
        (case emit reason of
           None \<Rightarrow> (reason # sent, logs)
         | Some err \<Rightarrow> (sent, EmitFailed err reason # logs)))"


section \<open>State of the peers\<close>

text \<open>One round of the fan-out: the reason, the peers of the snapshot that are left and the peers
  that failed.\<close>

record 'c signal_round =
  rd_reason :: rstr
  rd_rest :: "(64 word \<times> 'c) list"
  rd_failed :: "64 word list"

text \<open>\<open>joined\<close>, \<open>sent\<close>, \<open>taken\<close> and \<open>emitted\<close> are history: the peers that were registered, each with
  the number of reasons the fan-out had taken then; all reasons; those taken; and what was emitted
  to whom.\<close>

record 'c p2p =
  peers :: "64 word \<rightharpoonup> 'c"
  next_peer_id :: "64 word"
  monitors :: "64 word list"
  queue :: "rstr list"
  round :: "'c signal_round option"
  peer_logs :: "peer_log list"
  joined :: "(64 word \<times> nat) list"
  sent :: "rstr list"
  taken :: "rstr list"
  emitted :: "(rstr \<times> 64 word) list"

definition p2p_start :: "'c p2p" where
  "p2p_start = \<lparr>peers = (\<lambda>_. None), next_peer_id = 1, monitors = [], queue = [], round = None, peer_logs = [],
     joined = [], sent = [], taken = [], emitted = []\<rparr>"

definition log_peer :: "peer_log \<Rightarrow> 'c p2p \<Rightarrow> 'c p2p" where
  "log_peer l s = s\<lparr>peer_logs := peer_logs s @ [l]\<rparr>"


section \<open>The accept loop\<close>

datatype 'c accept_event =
    AcceptError io_error
  | AcceptStream (authorized: "io_error + unit") (prepared: "zbus_error + unit") (built: "zbus_error + 'c")

definition register_peer :: "'c \<Rightarrow> 'c p2p \<Rightarrow> 'c p2p" where
  "register_peer conn s =
     (let peer_id = next_peer_id s in
      s\<lparr>next_peer_id := peer_id + 1, peers := (peers s)(peer_id \<mapsto> conn), monitors := monitors s @ [peer_id],
        joined := joined s @ [(peer_id, length (taken s))]\<rparr>)"

definition accept_peer :: "'c accept_event \<Rightarrow> 'c p2p \<Rightarrow> 'c p2p" where
  "accept_peer ev s =
     (case ev of
        AcceptError err \<Rightarrow> log_peer (AcceptFailed err) s
      | AcceptStream auth prep result \<Rightarrow>
          (case auth of
             Inl err \<Rightarrow> log_peer (RejectedUnauthorized err) s
           | Inr _ \<Rightarrow>
               (case prep of
                  Inl err \<Rightarrow> log_peer (PrepareFailed err) s
                | Inr _ \<Rightarrow>
                    (case result of
                       Inl err \<Rightarrow> log_peer (CreateFailed err) s
                     | Inr conn \<Rightarrow> register_peer conn s))))"


section \<open>The fan-out and the monitors\<close>

text \<open>Taking a reason copies the table, in the order of its iterator; with no peers there is nothing to
  do. Only the fan-out reads the queue, so the receive and the copy are one step, at the moment of
  the lock.\<close>

definition take_reason :: "(64 word \<times> 'c) list \<Rightarrow> 'c p2p \<Rightarrow> 'c p2p" where
  "take_reason copied s =
     (case queue s of
        [] \<Rightarrow> s
      | reason # rest \<Rightarrow>
          s\<lparr>queue := rest, taken := taken s @ [reason],
            round := (if copied = [] then None
              else Some \<lparr>rd_reason = reason, rd_rest = copied, rd_failed = []\<rparr>)\<rparr>)"

definition emit_to_next :: "zbus_error option \<Rightarrow> 'c p2p \<Rightarrow> 'c p2p" where
  "emit_to_next result s =
     (case round s of
        None \<Rightarrow> s
      | Some rd \<Rightarrow>
          (case rd_rest rd of
             [] \<Rightarrow> s
           | (peer_id, conn) # rest \<Rightarrow>
               (case result of
                  None \<Rightarrow> s\<lparr>round := Some (rd\<lparr>rd_rest := rest\<rparr>), emitted := emitted s @ [(rd_reason rd, peer_id)]\<rparr>
                | Some err \<Rightarrow>
                    log_peer (if is_expected_signal_disconnect err then PeerDisconnected err
                      else EmitFailed err (rd_reason rd))
                      (s\<lparr>round := Some (rd\<lparr>rd_rest := rest, rd_failed := rd_failed rd @ [peer_id]\<rparr>)\<rparr>))))"

definition finish_round :: "'c p2p \<Rightarrow> 'c p2p" where
  "finish_round s =
     (case round s of
        None \<Rightarrow> s
      | Some rd \<Rightarrow> s\<lparr>round := None, peers := fold (\<lambda>peer_id m. m(peer_id := None)) (rd_failed rd) (peers s)\<rparr>)"

text \<open>A monitor ends when its peer's stream ends, with an error or not.\<close>

definition monitor_end :: "64 word \<Rightarrow> zbus_error option \<Rightarrow> 'c p2p \<Rightarrow> 'c p2p" where
  "monitor_end peer_id result s =
     (let s' = s\<lparr>peers := (peers s)(peer_id := None), monitors := remove1 peer_id (monitors s)\<rparr> in
      case result of
        None \<Rightarrow> s'
      | Some err \<Rightarrow>
          log_peer (if is_expected_signal_disconnect err then PeerDisconnected err else StreamEnded err) s')"

inductive p2p_step :: "'c p2p \<Rightarrow> 'c p2p \<Rightarrow> bool" where
  change: "p2p_step s (s\<lparr>queue := queue s @ [reason], sent := sent s @ [reason]\<rparr>)"
| accept: "p2p_step s (accept_peer ev s)"
| take: "round s = None \<Longrightarrow> queue s \<noteq> [] \<Longrightarrow> distinct (map fst copied) \<Longrightarrow> map_of copied = peers s \<Longrightarrow>
    p2p_step s (take_reason copied s)"
| emit: "round s = Some rd \<Longrightarrow> rd_rest rd \<noteq> [] \<Longrightarrow> p2p_step s (emit_to_next result s)"
| finish: "round s = Some rd \<Longrightarrow> rd_rest rd = [] \<Longrightarrow> p2p_step s (finish_round s)"
| stream_end: "peer_id \<in> set (monitors s) \<Longrightarrow> p2p_step s (monitor_end peer_id result s)"

inductive_cases p2p_stepE: "p2p_step s t"


section \<open>Invariant\<close>

definition received :: "64 word \<Rightarrow> 'c p2p \<Rightarrow> rstr list" where
  "received i s = map fst (filter (\<lambda>(reason, j). j = i) (emitted s))"

definition ids_ok :: "'c p2p \<Rightarrow> bool" where
  "ids_ok s \<longleftrightarrow> map fst (joined s) = map (\<lambda>k. of_nat (k + 1)) [0..<length (joined s)] \<and>
     next_peer_id s = of_nat (length (joined s) + 1)"

text \<open>What a peer that is in the table has received, at each point of a round.\<close>

definition up_to_date :: "'c p2p \<Rightarrow> 64 word \<Rightarrow> nat \<Rightarrow> bool" where
  "up_to_date s i k \<longleftrightarrow>
     (case round s of
        None \<Rightarrow> received i s = drop k (taken s)
      | Some rd \<Rightarrow>
          if i \<in> fst ` set (rd_rest rd) then k < length (taken s) \<and> received i s = drop k (butlast (taken s))
          else i \<in> set (rd_failed rd) \<or> received i s = drop k (taken s))"

definition round_ok :: "'c p2p \<Rightarrow> bool" where
  "round_ok s \<longleftrightarrow>
     (case round s of
        None \<Rightarrow> True
      | Some rd \<Rightarrow> taken s \<noteq> [] \<and> last (taken s) = rd_reason rd \<and> distinct (map fst (rd_rest rd)) \<and>
          fst ` set (rd_rest rd) \<subseteq> fst ` set (joined s))"

definition delivery_ok :: "'c p2p \<Rightarrow> bool" where
  "delivery_ok s \<longleftrightarrow>
     snd ` set (emitted s) \<subseteq> fst ` set (joined s) \<and> round_ok s \<and> dom (peers s) \<subseteq> fst ` set (joined s) \<and>
     (\<forall>(i, k) \<in> set (joined s). k \<le> length (taken s) \<and> (i \<in> dom (peers s) \<longrightarrow> up_to_date s i k))"

definition few :: "'c p2p \<Rightarrow> bool" where
  "few s \<longleftrightarrow> length (joined s) < 2 ^ 64 - 1"

definition p2p_inv :: "'c p2p \<Rightarrow> bool" where
  "p2p_inv s \<longleftrightarrow> ids_ok s \<and> sent s = taken s @ queue s \<and> (few s \<longrightarrow> delivery_ok s)"

lemma p2p_inv_start: "p2p_inv p2p_start"
  by (simp add: p2p_inv_def p2p_start_def ids_ok_def delivery_ok_def round_ok_def)


section \<open>Every step keeps it\<close>

lemma ids_distinct:
  assumes "ids_ok s" and "few s"
  shows "distinct (map fst (joined s))" and "next_peer_id s \<notin> fst ` set (joined s)"
proof -
  let ?n = "length (joined s)"
  have inj: "of_nat (j + 1) = (of_nat (k + 1) :: 64 word) \<longleftrightarrow> j = k" if "j \<le> ?n" "k \<le> ?n" for j k
  proof -
    have "j + 1 < 2 ^ 64" "k + 1 < 2 ^ 64" using that assms(2) by (simp_all add: few_def)
    then have "unat (of_nat (j + 1) :: 64 word) = j + 1" "unat (of_nat (k + 1) :: 64 word) = k + 1"
      by (simp_all add: unat_of_nat del: of_nat_add of_nat_Suc add_Suc_right Suc_eq_plus1_left)
    then show ?thesis by (metis add_right_cancel)
  qed
  have ids: "map fst (joined s) = map (\<lambda>k. of_nat (k + 1)) [0..<?n]" "next_peer_id s = of_nat (?n + 1)"
    using assms(1) by (simp_all add: ids_ok_def)
  have "inj_on (\<lambda>k. of_nat (k + 1) :: 64 word) (set [0..<?n])"
  proof (rule inj_onI)
    fix j k assume "j \<in> set [0..<?n]" "k \<in> set [0..<?n]" "(of_nat (j + 1) :: 64 word) = of_nat (k + 1)"
    then show "j = k" using inj [of j k] by simp
  qed
  then show "distinct (map fst (joined s))" unfolding ids(1) distinct_map by simp
  have "fst ` set (joined s) = (\<lambda>k. of_nat (k + 1)) ` {0..<?n}"
    using arg_cong [OF ids(1), of set] by simp
  then have "k \<in> fst ` set (joined s) \<Longrightarrow> \<exists>j < ?n. k = of_nat (j + 1)" for k by auto
  then show "next_peer_id s \<notin> fst ` set (joined s)"
    unfolding ids(2) using inj [of ?n] by (metis less_imp_le order_refl nat_neq_iff)
qed

lemma up_to_date_same:
  "round t = round s \<Longrightarrow> taken t = taken s \<Longrightarrow> emitted t = emitted s \<Longrightarrow> up_to_date t i k = up_to_date s i k"
  by (cases "round s") (simp_all add: up_to_date_def received_def)

lemma round_ok_same:
  "round t = round s \<Longrightarrow> taken t = taken s \<Longrightarrow> fst ` set (joined s) \<subseteq> fst ` set (joined t) \<Longrightarrow> round_ok s \<Longrightarrow>
     round_ok t"
  by (cases "round s") (simp_all add: round_ok_def, blast)

lemma delivery_same:
  assumes "delivery_ok s" and "round t = round s" "taken t = taken s" "emitted t = emitted s" "joined t = joined s"
    and "dom (peers t) \<subseteq> dom (peers s)"
  shows "delivery_ok t"
proof -
  have "round_ok t"
    using assms(1) round_ok_same [OF assms(2,3)] by (simp add: delivery_ok_def assms(5))
  moreover have "i \<in> dom (peers t) \<Longrightarrow> i \<in> dom (peers s)" for i using assms(6) by blast
  ultimately show ?thesis
    using assms(1) unfolding delivery_ok_def up_to_date_same [OF assms(2-4)] assms(3-5) by blast
qed

lemma log_peer_simps [simp]:
  "peers (log_peer l s) = peers s" "queue (log_peer l s) = queue s" "round (log_peer l s) = round s"
  "joined (log_peer l s) = joined s" "sent (log_peer l s) = sent s" "taken (log_peer l s) = taken s"
  "emitted (log_peer l s) = emitted s" "next_peer_id (log_peer l s) = next_peer_id s"
  by (simp_all add: log_peer_def)

lemma inv_log: "p2p_inv s \<Longrightarrow> p2p_inv (log_peer l s)"
  by (auto simp: p2p_inv_def ids_ok_def few_def intro: delivery_same)

lemma inv_register:
  assumes "p2p_inv s"
  shows "p2p_inv (register_peer conn s)"
proof -
  let ?t = "register_peer conn s"
  have t: "joined ?t = joined s @ [(next_peer_id s, length (taken s))]" "taken ?t = taken s" "queue ?t = queue s"
    "sent ?t = sent s" "emitted ?t = emitted s" "round ?t = round s" "peers ?t = (peers s)(next_peer_id s \<mapsto> conn)"
    "next_peer_id ?t = next_peer_id s + 1"
    by (simp_all add: register_peer_def Let_def)
  have "ids_ok ?t" using assms by (simp add: p2p_inv_def ids_ok_def t add.commute)
  moreover have "sent ?t = taken ?t @ queue ?t" using assms by (simp add: p2p_inv_def t)
  moreover have "delivery_ok ?t" if "few ?t"
  proof -
    have few: "few s" using that by (simp add: few_def t)
    with assms have d: "delivery_ok s" and ids: "ids_ok s" by (simp_all add: p2p_inv_def)
    note fresh = ids_distinct(2) [OF ids few]
    have utd: "up_to_date ?t i k = up_to_date s i k" for i k by (rule up_to_date_same) (simp_all add: t)
    have "next_peer_id s \<notin> snd ` set (emitted s)" using d fresh by (auto simp: delivery_ok_def)
    then have "received (next_peer_id s) s = []"
      by (auto simp: received_def image_iff filter_empty_conv)
    moreover have "next_peer_id s \<notin> fst ` set (rd_rest rd)" if "round s = Some rd" for rd
      using d fresh that by (auto simp: delivery_ok_def round_ok_def)
    ultimately have new: "up_to_date s (next_peer_id s) (length (taken s))"
      by (auto simp: up_to_date_def split: option.splits)
    have "round_ok ?t" using d round_ok_same [of ?t s] by (auto simp: delivery_ok_def t)
    moreover have "snd ` set (emitted ?t) \<subseteq> fst ` set (joined ?t)" "dom (peers ?t) \<subseteq> fst ` set (joined ?t)"
      using d by (auto simp: delivery_ok_def t)
    moreover have "k \<le> length (taken ?t) \<and> (i \<in> dom (peers ?t) \<longrightarrow> up_to_date ?t i k)"
      if "(i, k) \<in> set (joined ?t)" for i k
    proof (cases "(i, k) \<in> set (joined s)")
      case True
      then have "i \<noteq> next_peer_id s" using fresh by force
      with True d show ?thesis by (auto simp: delivery_ok_def t utd)
    next
      case False
      then show ?thesis using that new by (auto simp: t utd)
    qed
    ultimately show ?thesis unfolding delivery_ok_def by blast
  qed
  ultimately show ?thesis by (simp add: p2p_inv_def)
qed

lemma inv_accept: "p2p_inv s \<Longrightarrow> p2p_inv (accept_peer ev s)"
  by (auto simp: accept_peer_def intro: inv_register inv_log split: accept_event.splits sum.splits)


lemma dom_map_of_fst: "map_of copied = m \<Longrightarrow> fst ` set copied = dom m"
  using dom_map_of_conv_image_fst [of copied] by simp

lemma delivery_take:
  assumes d: "delivery_ok s" and "round s = None" and q: "queue s = reason # rest"
    and copied: "distinct (map fst copied)" "map_of copied = peers s"
  shows "delivery_ok (take_reason copied s)"
proof -
  let ?t = "take_reason copied s"
  have t: "joined ?t = joined s" "taken ?t = taken s @ [reason]" "emitted ?t = emitted s" "peers ?t = peers s"
    "round ?t = (if copied = [] then None else Some \<lparr>rd_reason = reason, rd_rest = copied, rd_failed = []\<rparr>)"
    by (simp_all add: take_reason_def q)
  have ids: "fst ` set copied = dom (peers s)" by (rule dom_map_of_fst [OF copied(2)])
  have rec: "received i ?t = received i s" for i by (simp add: received_def t)
  have "round_ok ?t" using d copied ids by (simp add: round_ok_def t delivery_ok_def)
  moreover have "k \<le> length (taken ?t) \<and> (i \<in> dom (peers ?t) \<longrightarrow> up_to_date ?t i k)"
    if "(i, k) \<in> set (joined s)" for i k
  proof -
    have "k \<le> length (taken s)" "i \<in> dom (peers s) \<longrightarrow> received i s = drop k (taken s)"
      using d that assms(2) by (auto simp: delivery_ok_def up_to_date_def)
    then show ?thesis using ids by (auto simp: up_to_date_def t rec)
  qed
  ultimately show ?thesis using d by (auto simp: delivery_ok_def t)
qed

lemma delivery_emit:
  assumes d: "delivery_ok s" and few: "distinct (map fst (joined s))" and rd: "round s = Some rd" and rest: "rd_rest rd = (p, conn) # rest"
  shows "delivery_ok (emit_to_next result s)"
proof -
  let ?t = "emit_to_next result s"
  let ?rd = "if result = None then rd\<lparr>rd_rest := rest\<rparr> else rd\<lparr>rd_rest := rest, rd_failed := rd_failed rd @ [p]\<rparr>"
  have t: "joined ?t = joined s" "taken ?t = taken s" "peers ?t = peers s" "round ?t = Some ?rd"
    "emitted ?t = (if result = None then emitted s @ [(rd_reason rd, p)] else emitted s)"
    by (simp_all add: emit_to_next_def rd rest split: option.splits)
  have rec: "received i ?t = (if result = None \<and> i = p then received i s @ [rd_reason rd] else received i s)" for i
    by (simp add: received_def t)
  have r: "taken s \<noteq> []" "last (taken s) = rd_reason rd" "p \<notin> fst ` set rest" "distinct (map fst rest)"
    "p \<in> fst ` set (joined s)" "fst ` set rest \<subseteq> fst ` set (joined s)"
    using d rd rest by (auto simp: delivery_ok_def round_ok_def)
  have full: "drop k (butlast (taken s)) @ [rd_reason rd] = drop k (taken s)" if "k < length (taken s)" for k
  proof -
    from r(1) obtain xs where xs: "taken s = xs @ [rd_reason rd]"
      using r(2) by (metis append_butlast_last_id)
    then show ?thesis using that by simp
  qed
  have "round_ok ?t" using r by (simp add: round_ok_def t)
  moreover have "up_to_date ?t i k" if "(i, k) \<in> set (joined s)" "i \<in> dom (peers s)" for i k
  proof -
    have u: "up_to_date s i k" using d that by (auto simp: delivery_ok_def)
    show ?thesis
    proof (cases "i = p")
      case True
      with u have "k < length (taken s)" "received i s = drop k (butlast (taken s))"
        by (simp_all add: up_to_date_def rd rest)
      with True r(3) full show ?thesis by (simp add: up_to_date_def t rec)
    next
      case False
      with u show ?thesis by (auto simp: up_to_date_def rd rest t rec)
    qed
  qed
  ultimately show ?thesis using d r(5) by (auto simp: delivery_ok_def t)
qed

lemma fold_remove: "fold (\<lambda>i m. m(i := None)) ids m = m |` (- set ids)"
  by (induction ids arbitrary: m) (auto simp: fun_eq_iff restrict_map_def)

lemma delivery_finish:
  assumes "delivery_ok s" and "round s = Some rd" and "rd_rest rd = []"
  shows "delivery_ok (finish_round s)"
  using assms by (auto simp: delivery_ok_def finish_round_def round_ok_def up_to_date_def received_def fold_remove)

lemma p2p_inv_step: "p2p_inv s \<Longrightarrow> p2p_step s t \<Longrightarrow> p2p_inv t"
proof (erule p2p_stepE, goal_cases)
  case (1 reason)
  then show ?case
    by (auto simp: p2p_inv_def ids_ok_def few_def intro: delivery_same)
next
  case (2 ev)
  then show ?case by (simp add: inv_accept)
next
  case (3 copied)
  then obtain reason rest where q: "queue s = reason # rest" by (cases "queue s") auto
  have "joined t = joined s" "next_peer_id t = next_peer_id s" "sent t = sent s" "taken t @ queue t = taken s @ queue s"
    using 3 q by (simp_all add: take_reason_def)
  with 3 q show ?case by (auto simp: p2p_inv_def ids_ok_def few_def intro: delivery_take)
next
  case (4 rd result)
  then obtain p conn rest where r: "rd_rest rd = (p, conn) # rest" by (cases "rd_rest rd") auto
  have "joined t = joined s" "next_peer_id t = next_peer_id s" "sent t = sent s" "taken t = taken s" "queue t = queue s"
    using 4 r by (simp_all add: emit_to_next_def split: option.splits)
  with 4 r show ?case by (auto simp: p2p_inv_def ids_ok_def few_def intro!: delivery_emit ids_distinct(1))
next
  case (5 rd)
  have "joined t = joined s" "next_peer_id t = next_peer_id s" "sent t = sent s" "taken t = taken s" "queue t = queue s"
    using 5 by (simp_all add: finish_round_def)
  with 5 show ?case by (auto simp: p2p_inv_def ids_ok_def few_def intro: delivery_finish)
next
  case (6 p result)
  let ?s = "s\<lparr>peers := (peers s)(p := None), monitors := remove1 p (monitors s)\<rparr>"
  have "p2p_inv ?s" using 6 by (auto simp: p2p_inv_def ids_ok_def few_def intro!: delivery_same [of s] split: if_splits)
  with 6 show ?case by (auto simp: monitor_end_def Let_def intro: inv_log split: option.splits)
qed

interpretation control_peers: step_system p2p_step p2p_inv
  by unfold_locales (rule p2p_inv_step)

lemma idle_peer_current:
  assumes "p2p_inv s" and "few s" and "round s = None" and "peers s i = Some c"
  shows "sent s = taken s @ queue s \<and>
    (\<exists>k. (i, k) \<in> set (joined s) \<and> k \<le> length (taken s) \<and> received i s = drop k (taken s))"
proof -
  have d: "delivery_ok s" and "sent s = taken s @ queue s" using assms(1,2) by (simp_all add: p2p_inv_def)
  moreover have "i \<in> fst ` set (joined s)" using d assms(4) by (auto simp: delivery_ok_def)
  then obtain k where k: "(i, k) \<in> set (joined s)" by force
  then have "k \<le> length (taken s)" "up_to_date s i k"
    using d assms(4) by (auto simp: delivery_ok_def)
  ultimately show ?thesis using assms(3) k by (auto simp: up_to_date_def)
qed


section \<open>Properties\<close>

text \<open>
  C17. Every peer in the table is told of every change after it joined, in order and exactly once.
  For every run of the accept loop, the fan-out and the monitors in which fewer than 2^64 - 1 peers
  joined, and however the emissions to other peers fail: when the fan-out is between two changes,
  a peer that is in the table has received exactly the changes taken since it joined; the rest of
  the changes that were sent is still queued. During a round the same holds for the changes before
  the current one while the peer is waiting for it, and for all of them once it has been served;
  the exception is a peer whose emission just failed, which the end of the round removes.
\<close>

theorem signals_reach_every_peer:
  assumes "p2p_step\<^sup>*\<^sup>* p2p_start s" and "length (joined s) < 2 ^ 64 - 1" and "peers s i = Some c"
  shows "\<exists>k. (i, k) \<in> set (joined s) \<and> sent s = taken s @ queue s \<and>
    (case round s of
       None \<Rightarrow> received i s = drop k (taken s)
     | Some rd \<Rightarrow>
         (if i \<in> fst ` set (rd_rest rd) then received i s = drop k (butlast (taken s))
          else i \<in> set (rd_failed rd) \<or> received i s = drop k (taken s))) \<and>
    (\<forall>rd. round s = Some rd \<and> rd_rest rd = [] \<and> i \<in> set (rd_failed rd) \<longrightarrow> peers (finish_round s) i = None)"
proof -
  have inv: "p2p_inv s" by (rule control_peers.steps_inv [OF assms(1) p2p_inv_start])
  with assms(2) have d: "delivery_ok s" and sent: "sent s = taken s @ queue s" by (simp_all add: p2p_inv_def few_def)
  have "i \<in> fst ` set (joined s)" using d assms(3) by (auto simp: delivery_ok_def)
  then obtain k where k: "(i, k) \<in> set (joined s)" by force
  with d assms(3) have "up_to_date s i k" by (auto simp: delivery_ok_def)
  with k sent show ?thesis
    by (auto simp: up_to_date_def finish_round_def fold_remove split: option.splits)
qed

text \<open>Two peers join around a change; the first is served, the second fails and is removed.\<close>

definition p2p_run :: "string p2p list" where
  "p2p_run =
     (let s1 = accept_peer (AcceptStream (Inr ()) (Inr ()) (Inr ''a'')) p2p_start;
          s2 = accept_peer (AcceptStream (Inr ()) (Inr ()) (Inr ''b'')) s1;
          s3 = s2\<lparr>queue := queue s2 @ [lit ''changed''], sent := sent s2 @ [lit ''changed'']\<rparr>;
          s4 = take_reason [(1, ''a''), (2, ''b'')] s3;
          s5 = emit_to_next None s4;
          s6 = emit_to_next (Some (OtherZbus (lit ''closed''))) s5;
          s7 = finish_round s6
      in [p2p_start, s1, s2, s3, s4, s5, s6, s7])"

lemma p2p_run_steps: "p2p_step\<^sup>*\<^sup>* p2p_start (last p2p_run)"
proof -
  define s1 :: "string p2p" where "s1 = accept_peer (AcceptStream (Inr ()) (Inr ()) (Inr ''a'')) p2p_start"
  define s2 where "s2 = accept_peer (AcceptStream (Inr ()) (Inr ()) (Inr ''b'')) s1"
  define s3 where "s3 = s2\<lparr>queue := queue s2 @ [lit ''changed''], sent := sent s2 @ [lit ''changed'']\<rparr>"
  define s4 where "s4 = take_reason [(1, ''a''), (2, ''b'')] s3"
  define s5 where "s5 = emit_to_next None s4"
  define s6 where "s6 = emit_to_next (Some (OtherZbus (lit ''closed''))) s5"
  note defs = s1_def s2_def s3_def s4_def s5_def s6_def p2p_start_def accept_peer_def register_peer_def Let_def
    take_reason_def emit_to_next_def log_peer_def
  have "p2p_step p2p_start s1" unfolding s1_def by (rule p2p_step.accept)
  moreover have "p2p_step s1 s2" unfolding s2_def by (rule p2p_step.accept)
  moreover have "p2p_step s2 s3" unfolding s3_def by (rule p2p_step.change)
  moreover have "p2p_step s3 s4" unfolding s4_def
    by (rule p2p_step.take) (simp_all add: defs fun_eq_iff)
  moreover have "p2p_step s4 s5" unfolding s5_def
    by (rule p2p_step.emit, simp add: defs, simp)
  moreover have "p2p_step s5 s6" unfolding s6_def
    by (rule p2p_step.emit, simp add: defs, simp)
  moreover have "p2p_step s6 (finish_round s6)"
    by (rule p2p_step.finish, simp add: defs, simp)
  ultimately have "p2p_step\<^sup>*\<^sup>* p2p_start (finish_round s6)"
    by (meson converse_rtranclp_into_rtranclp rtranclp.rtrancl_refl)
  then show ?thesis by (simp add: p2p_run_def Let_def s1_def s2_def s3_def s4_def s5_def s6_def)
qed

theorem signals_reach_every_peer_witness:
  "received 1 (last p2p_run) = [lit ''changed''] \<and> peers (last p2p_run) 2 = None \<and>
   (\<exists>k. (1, k) \<in> set (joined (last p2p_run)) \<and> received 1 (last p2p_run) = drop k (taken (last p2p_run)))"
proof -
  note defs = p2p_run_def p2p_start_def accept_peer_def register_peer_def Let_def take_reason_def emit_to_next_def
    finish_round_def log_peer_def received_def
  have "peers (last p2p_run) 1 = Some ''a''" "round (last p2p_run) = None" "length (joined (last p2p_run)) < 2 ^ 64 - 1"
    "received 1 (last p2p_run) = [lit ''changed'']" "peers (last p2p_run) 2 = None"
    by (simp_all add: defs)
  with signals_reach_every_peer [OF p2p_run_steps, where i = 1 and c = "''a''"] show ?thesis by auto
qed

end
