(* ===== verification/Control_Link.thy ===== *)
theory Control_Link
  imports Control_Socket Control_Peers
begin

text \<open>
  The two ends of the control plane put together: the server's start on each platform
  (\<open>src/daemon/control_plane.rs\<close>), accepting a stream, and the connection a client makes
  (\<open>src/control.rs\<close>). What the libraries answer (the bus, the zbus handshake, joining a
  blocking task) are arguments.
\<close>

section \<open>The server\<close>

text \<open>On Linux the four steps of the builder, each of which may fail.\<close>

definition start_dbus ::
  "(zbus_error \<Rightarrow> error) \<Rightarrow> zbus_error + unit \<Rightarrow> zbus_error + unit \<Rightarrow> zbus_error + unit \<Rightarrow> zbus_error + 'c \<Rightarrow>
   error + 'c" where
  "start_dbus to_error session_bus bus_name serve_at conn =
     map_err to_error
       (bind_res session_bus (\<lambda>_. bind_res bus_name (\<lambda>_. bind_res serve_at (\<lambda>_. conn))))"

definition start_p2p :: "platform \<Rightarrow> rstr \<Rightarrow> rstr option \<Rightarrow> (sock_world, error, unit) act" where
  "start_p2p pf p parent =
     (if pf = MacOS then bindA (start_control_socket p parent True macos_bind sock_probe) (\<lambda>_. retA ())
      else start_control_socket p parent False windows_bind sock_probe)"

definition macos_accept :: "io_error + 'a \<Rightarrow> io_error + 'a" where
  "macos_accept accepted = accepted"

definition windows_accept :: "io_error + unit \<Rightarrow> rstr + (io_error + 'a) \<Rightarrow> io_error + 'a" where
  "windows_accept clone task =
     bind_res clone (\<lambda>_. bind_res (map_err (IoError OtherIo) task) (\<lambda>accepted. accepted))"


section \<open>The client\<close>

definition platform_connection ::
  "platform \<Rightarrow> rstr \<Rightarrow> error + 'c \<Rightarrow> error + unit \<Rightarrow> error + 'c \<Rightarrow> (sock_world, error, 'c) act" where
  "platform_connection pf p session_bus task conn =
     (case pf of
        Linux \<Rightarrow> liftA (with_context (lit ''failed to connect to DBus session bus'') session_bus)
      | MacOS \<Rightarrow>
          bindA (sock_ctx (lit ''failed to connect control socket '' @ p) sock_probe) (\<lambda>_.
          liftA (with_context (lit ''failed to establish zbus p2p connection over unix socket'') conn))
      | Windows \<Rightarrow>
          bindA (attemptA sock_probe) (\<lambda>stream.
          bindA (liftA (with_context (lit ''failed to join windows uds connect task'') task)) (\<lambda>_.
          bindA (liftA (with_context (lit ''failed to connect control socket '' @ p) (map_err io_chain stream))) (\<lambda>_.
          liftA (with_context (lit ''failed to establish zbus p2p connection over windows uds'') conn)))))"


section \<open>Facts\<close>

lemma windows_outcome:
  assumes "sw_turns s = []"
  shows "\<exists>r t. start_control_socket p (Some d) False windows_bind sock_probe s = (r, t) \<and> sw_turns t = [] \<and>
    (case sw_file s of
       LiveSocket n \<Rightarrow> r = Inl (already_served p) \<and> sw_file t = LiveSocket n
     | _ \<Rightarrow> r = Inr () \<and> sw_file t = LiveSocket (sw_me s))"
proof -
  define s1 where "s1 = see (s\<lparr>sw_dir := Some (case sw_dir s of Some m \<Rightarrow> m | None \<Rightarrow> 493)\<rparr>)"
  have dir: "dir_create s = (Inr (), s1)" using assms by (simp add: dir_create_def sock_op_def s1_def)
  have s1: "sw_turns s1 = []" "sw_file s1 = sw_file s" "sw_me s1 = sw_me s"
    using assms by (simp_all add: s1_def see_def)
  from windows_listener.bind_outcome [OF s1(1), of p] dir s1 show ?thesis
    by (cases "sw_file s")
      (auto simp: start_control_socket_def sock_ctx_def bindA_def mapErrA_def retA_def is_ok_iff)
qed

text \<open>A server that has come up on macOS or Windows serves its socket, and a client gets through to
  it; once the socket has been cleaned up no client does.\<close>

lemma start_p2p_outcome:
  assumes "sw_turns s = []" and "pf \<noteq> Linux"
  shows "\<exists>r t. start_p2p pf p (Some d) s = (r, t) \<and> sw_turns t = [] \<and>
    (case sw_file s of
       LiveSocket n \<Rightarrow> r = Inl (already_served p) \<and> sw_file t = LiveSocket n
     | _ \<Rightarrow> r = Inr () \<and> sw_file t = LiveSocket (sw_me s))"
proof (cases "pf = MacOS")
  case True
  with start_outcome [OF assms(1), of p d] show ?thesis
    by (cases "sw_file s") (auto simp: start_p2p_def bindA_def retA_def is_ok_iff)
next
  case False
  with windows_outcome [OF assms(1), of p d] show ?thesis by (simp add: start_p2p_def)
qed

lemma connection_live:
  assumes "sw_turns s = []" and "pf \<noteq> Linux"
  shows "is_ok (fst (platform_connection pf p bus (Inr ()) (Inr c) s)) \<longleftrightarrow> (\<exists>n. sw_file s = LiveSocket n)"
  using assms
  by (cases pf; cases "sw_file s")
    (auto simp: platform_connection_def sock_probe_def sock_op_def sock_ctx_def mapErrA_def attemptA_def bindA_def liftA_def)

lemma client_reaches_daemon:
  assumes "sw_turns s = []" and "pf \<noteq> Linux" and "start_p2p pf p (Some d) s = (Inr (), t)"
  shows "is_ok (fst (platform_connection pf p bus (Inr ()) (Inr c) t)) \<and>
    \<not> is_ok (fst (platform_connection pf p bus (Inr ()) (Inr c) (snd (cleanup_socket pf p t))))"
proof -
  from start_p2p_outcome [OF assms(1,2), of p d] assms(3)
  have t: "sw_turns t = []" "sw_file t = LiveSocket (sw_me s)" by (cases "sw_file s"; auto)+
  have "snd (cleanup_socket pf p t) = see (t\<lparr>sw_file := NoSocket\<rparr>)"
    using t assms(2) by (simp add: cleanup_socket_def sock_remove_def sock_op_def)
  then show ?thesis using t assms(2) by (simp add: connection_live see_def)
qed

text \<open>Any of the four steps of the builder that fails is the error of the start.\<close>

lemma start_dbus_ok:
  "start_dbus f a b s conn = Inr c \<longleftrightarrow> a = Inr () \<and> b = Inr () \<and> s = Inr () \<and> conn = Inr c"
  by (auto simp: start_dbus_def bind_res_Inr_iff)

lemma windows_accept_ok: "windows_accept clone task = Inr c \<longleftrightarrow> clone = Inr () \<and> task = Inr (Inr c)"
  by (auto simp: windows_accept_def bind_res_Inr_iff)

end
