(* ===== verification/Cli_Main.thy ===== *)
theory Cli_Main
  imports Cli_Server Cli_Status Build_Info
begin

text \<open>
  The command line as a whole: the commands of \<open>src/cli.rs\<close> as the parser of clap hands them over,
  and \<open>main\<close> of \<open>src/main.rs\<close>, which resolves the common options and runs one of them. The last
  part composes two invocations: a rule added with \<open>--persistent\<close> by one is in force after a
  later one has started the server again.
\<close>

section \<open>Commands\<close>

text \<open>Arguments in the order of the source: flags, seconds and then the positional ones.\<close>

datatype commands =
    CmdServer bool
  | CmdStatus bool
  | CmdTui
  | CmdAddForward bool nat rstr rstr
  | CmdAddServe bool rstr rstr
  | CmdDelServe rstr
  | CmdDelForward bool rstr
  | CmdForward forward_args
  | CmdForwardConfig rstr
  | CmdVersion bool

record cli =
  cl_command :: commands
  cl_key_file :: "rstr option"
  cl_config_file :: "rstr option"
  cl_no_mdns :: bool

text \<open>The directory of the project below the user's configuration, or a relative path without one.\<close>

definition default_config_path :: "rstr option \<Rightarrow> rstr" where
  "default_config_path config_dir =
     (case config_dir of
        Some d \<Rightarrow> join_path d (lit ''config.toml'')
      | None \<Rightarrow> join_path (join_path (lit ''.config'') (lit ''iroh-proxy'')) (lit ''config.toml''))"

definition default_key_path :: "rstr option \<Rightarrow> rstr" where
  "default_key_path config_dir =
     (case config_dir of
        Some d \<Rightarrow> join_path d (lit ''secret_key'')
      | None \<Rightarrow> join_path (join_path (lit ''.config'') (lit ''iroh-proxy'')) (lit ''secret_key''))"


section \<open>Main\<close>

text \<open>What an invocation asks of the system; \<open>me_path\<close> resolves the text of a path.\<close>

record ('k, 'i) main_env =
  me_platform :: platform
  me_project_dir :: "rstr option"
  me_path :: "rstr \<Rightarrow> path"
  me_install :: install_env
  me_keys :: "'k key_lib"
  me_toml :: toml
  me_client :: "'i client_env"
  me_startup :: "'i startup"
  me_server :: "'k \<Rightarrow> 'i server_env"
  me_ansi :: bool
  me_build :: build_info

text \<open>How an invocation ends: it is done, or it has become the server, a forwarder or the terminal
  interface.\<close>

datatype ('k, 'i) outcome =
    Completed
  | Serving "'i server_run"
  | Forwarding "('k, 'i) forward_run"
  | Interface path "path option" bool

definition completing :: "('i world, error, unit) act \<Rightarrow> ('i world, error, ('k, 'i) outcome) act" where
  "completing m = bindA m (\<lambda>_. retA Completed)"

definition config_text :: "('k, 'i) main_env \<Rightarrow> cli \<Rightarrow> rstr" where
  "config_text me cl =
     (case cl_config_file cl of Some p \<Rightarrow> p | None \<Rightarrow> default_config_path (me_project_dir me))"

definition main_command :: "('k, 'i) main_env \<Rightarrow> cli \<Rightarrow> ('i world, error, ('k, 'i) outcome) act" where
  "main_command me cl =
     (let config_path = me_path me (config_text me cl);
          key_file = map_option (me_path me) (cl_key_file cl);
          mdns_enabled = (\<not> cl_no_mdns cl);
          pf = me_platform me; env = me_client me; tm = me_toml me;
          ensure = ensure_server_running pf env (me_startup me) (cl_key_file cl) (config_text me cl) mdns_enabled
      in case cl_command cl of
        CmdServer inst \<Rightarrow>
          bindA (on_fs (server_command ((me_install me)\<lparr>ie_linux := (pf = Linux)\<rparr>) (me_keys me)
              (me_path me (default_key_path (me_project_dir me))) (me_server me) tm
              (cl_key_file cl) key_file (config_text me cl) config_path mdns_enabled inst)) (\<lambda>out.
            case out of
              Installed texts \<Rightarrow> completing (print_lines texts)
            | Ran run \<Rightarrow> retA (Serving run))
      | CmdStatus listing \<Rightarrow> completing (status_command pf env listing (me_ansi me))
      | CmdTui \<Rightarrow> bindA (liftA (tui_allowed pf)) (\<lambda>_. retA (Interface config_path key_file mdns_enabled))
      | CmdAddForward stored secs l rp \<Rightarrow> completing (add_forward_command env tm config_path ensure stored secs l rp)
      | CmdAddServe stored n tgt \<Rightarrow> completing (add_serve_command env tm config_path ensure stored n tgt)
      | CmdDelServe n \<Rightarrow> completing (del_serve_command env n)
      | CmdDelForward stored l \<Rightarrow> completing (del_forward_command env tm config_path stored l)
      | CmdForward fa \<Rightarrow>
          bindA (on_fs (forward_command (pf \<noteq> Windows) (me_keys me) (ce_parse_id env) key_file mdns_enabled fa))
            (\<lambda>run. retA (Forwarding run))
      | CmdForwardConfig c \<Rightarrow>
          bindA (on_fs (forward_config_command (me_keys me) (ce_parse_id env) tm key_file mdns_enabled (me_path me c)))
            (\<lambda>run. retA (Forwarding run))
      | CmdVersion brief \<Rightarrow>
          completing (print_lines (if brief then [short_version (me_build me)] else print_detailed (me_build me))))"


section \<open>Facts\<close>

lemma completing_ok: "completing m w = (Inr out, w') \<longleftrightarrow> out = Completed \<and> m w = (Inr (), w')"
  by (auto simp: completing_def retA_def bindA_def split: prod.splits sum.splits)

lemma on_fs_ok: "on_fs m w = (Inr a, w') \<longleftrightarrow> (\<exists>s. m (w_fs w) = (Inr a, s) \<and> w' = w\<lparr>w_fs := s\<rparr>)"
  by (auto simp: on_fs_def split: prod.splits)

text \<open>An addition that succeeds with \<open>--persistent\<close> has run the change of the configuration.\<close>

lemma install_rule_stored:
  assumes "install_rule texts True add (on_fs persist) del w = (Inr (), w')"
    and "\<And>r w1. add w = (r, w1) \<Longrightarrow> w_fs w1 = w_fs w"
  shows "persist (w_fs w) = (Inr (), w_fs w')"
proof -
  from assms(1) obtain w1 where add: "add w = (Inr (), w1)"
    by (cases "add w") (auto simp: install_rule_def bindA_def mapErrA_def split: sum.splits)
  obtain r s where p: "persist (w_fs w1) = (r, s)" by fastforce
  show ?thesis
  proof (cases r)
    case (Inl e)
    have "fst (install_rule texts True add (on_fs persist) del w) \<noteq> Inr ()"
      using add p Inl
      by (simp add: install_rule_def bindA_def mapErrA_def attemptA_def on_fs_def failA_def
          split: prod.splits sum.splits)
    with assms(1) show ?thesis by simp
  next
    case (Inr u)
    then have "w_fs w' = s"
      using assms(1) add p by (auto simp: install_rule_def bindA_def mapErrA_def attemptA_def on_fs_def retA_def)
    with Inr p assms(2) [OF add] show ?thesis by simp
  qed
qed

lemma announced_fs:
  assumes "bindA m (\<lambda>_. announce a b stored) w = (r, w')"
  shows "\<exists>w1. m w = (r, w1) \<and> w_fs w' = w_fs w1"
  using announced [OF assms] by blast

lemma ensure_files:
  assumes "ensure_server_running pf env su key_file config_file mdns w = (r, w')"
  shows "w_fs w' = w_fs w"
proof -
  obtain rc w1 where c: "connect_running env w = (rc, w1)" by fastforce
  then obtain found where f: "rc = Inr found" using connect_running_spec(2) by blast
  have fs: "w_fs w1 = w_fs w" using connect_running_spec(1) [OF c] by (simp add: frame_def)
  show ?thesis
  proof (cases found)
    case (Some si)
    then show ?thesis
      using assms c f fs by (simp add: ensure_server_running_def capabilities_of_def bindA_def retA_def)
  next
    case None
    then have "start_server env su (server_texts (control_transport_label pf)) key_file config_file mdns w1 = (r, w')"
      using assms c f by (simp add: ensure_server_running_def capabilities_of_def bindA_def)
    from start_server_spec [OF this] fs show ?thesis by simp
  qed
qed

lemma rule_stored:
  assumes "bindA ensure (\<lambda>_. bindA (install_rule texts True add (on_fs persist) del) (\<lambda>_. announce a b True)) w =
      (Inr (), w')"
    and "\<And>r w1. ensure w = (r, w1) \<Longrightarrow> w_fs w1 = w_fs w"
    and "\<And>w r w1. add w = (r, w1) \<Longrightarrow> w_fs w1 = w_fs w"
  shows "persist (w_fs w) = (Inr (), w_fs w')"
proof -
  from assms(1) obtain u w1 where e: "ensure w = (Inr u, w1)"
    and rest: "bindA (install_rule texts True add (on_fs persist) del) (\<lambda>_. announce a b True) w1 = (Inr (), w')"
    by (rule bindA_ok)
  from announced_fs [OF rest] obtain w2 where
    "install_rule texts True add (on_fs persist) del w1 = (Inr (), w2)" "w_fs w' = w_fs w2" by blast
  with install_rule_stored [OF this(1) assms(3)] assms(2) [OF e] show ?thesis by simp
qed


lemma on_disk_same: "files t p = files s p \<Longrightarrow> files s p \<noteq> None \<Longrightarrow> on_disk tm p t = on_disk tm p s"
  by (auto simp: on_disk_def)

lemma on_disk_file:
  "on_disk tm p s = Some c \<Longrightarrow> serve_entries c \<noteq> [] \<or> forward_entries c \<noteq> [] \<Longrightarrow> files s p \<noteq> None"
  by (cases "files s p")
    (auto simp: on_disk_def config_default_def serve_entries_def forward_entries_def split: if_splits)

lemma quiet_still: "turns s = [] \<Longrightarrow> quiet P s" "turns s = [] \<Longrightarrow> take_turn s = (None, s)"
  by (simp_all add: quiet_def take_turn_def)

text \<open>What the file holds after an addition with \<open>--persistent\<close>.\<close>

definition names_ok :: "toml \<Rightarrow> bool" where
  "names_ok tm \<longleftrightarrow> (\<forall>raw c. from_toml tm raw = Inr c \<longrightarrow> list_all (\<lambda>sv. valid_str (sv_name sv)) (serve_entries c))"

definition server_key :: "('k, 'i) main_env \<Rightarrow> cli \<Rightarrow> path" where
  "server_key me cl = serve_key_path (me_path me (default_key_path (me_project_dir me)))
     (map_option (me_path me) (cl_key_file cl))"

lemma stored_run:
  assumes "main_command me cl w = (Inr Completed, w')" "cl_command cl = CmdAddServe True n tgt"
  shows "add_persistent_serve_rule (me_toml me) (me_path me (config_text me cl)) n tgt (w_fs w) = (Inr (), w_fs w')"
  using assms(1) unfolding main_command_def Let_def assms(2) commands.case completing_ok add_serve_command_def
  by (auto intro!: rule_stored intro: ensure_files dest: rpc_frame simp: client_requests frame_def)

lemma stored_serve:
  assumes "main_command me cl w = (Inr Completed, w')" "cl_command cl = CmdAddServe True n tgt"
    and "toml_ok (me_toml me)" "me_path me (config_text me cl) \<noteq> []" "turns (w_fs w) = []"
  shows "\<exists>c. on_disk (me_toml me) (me_path me (config_text me cl)) (w_fs w') = Some c \<and>
    \<lparr>sv_name = n, sv_target = tgt\<rparr> \<in> set (serve_entries c)"
  using add_serve_rule_result [OF assms(3,4) quiet_still [OF assms(5)] stored_run [OF assms(1,2)]]
  by (auto simp: find_Some_iff in_set_conv_nth)

lemma stored_forward:
  assumes "main_command me cl w = (Inr Completed, w')" "cl_command cl = CmdAddForward True secs l raw"
    and "toml_ok (me_toml me)" "me_path me (config_text me cl) \<noteq> []" "turns (w_fs w) = []"
  shows "is_ok (remote_from_str (ce_parse_id (me_client me)) raw) \<and>
    (\<exists>c. on_disk (me_toml me) (me_path me (config_text me cl)) (w_fs w') = Some c \<and>
      \<lparr>fw_listen = l, fw_remote = raw, fw_secs = secs\<rparr> \<in> set (forward_entries c))"
proof -
  let ?p = "me_path me (config_text me cl)"
  have "add_persistent_forward_rule (ce_parse_id (me_client me)) (me_toml me) ?p l raw secs (w_fs w) =
      (Inr (), w_fs w')"
    using assms(1) unfolding main_command_def Let_def assms(2) commands.case completing_ok add_forward_command_def
    by (auto intro!: rule_stored intro: ensure_files dest: rpc_frame simp: client_requests frame_def)
  from add_forward_rule_result [OF assms(3,4) quiet_still [OF assms(5)] this]
  show ?thesis by (auto simp: find_Some_iff in_set_conv_nth)
qed

lemma restarted:
  assumes "main_command me cl v = (Inr (Serving run), v')" "turns (w_fs v) = []" "sr_daemon run = Some d"
    and "names_ok (me_toml me)" "server_key me cl \<noteq> me_path me (config_text me cl)"
    and "on_disk (me_toml me) (me_path me (config_text me cl)) (w_fs v) = Some c"
      "serve_entries c \<noteq> [] \<or> forward_entries c \<noteq> []"
    and "\<And>sk. se_parse_id (me_server me sk) = parse_id"
  shows "(\<forall>sv \<in> set (serve_entries c). sp_serves (abs_daemon d) (sv_name sv) = Some (sv_target sv)) \<and>
    (\<forall>fw \<in> set (forward_entries c). \<forall>rp. remote_from_str parse_id (fw_remote fw) = Inr rp \<longrightarrow>
       sp_forwards (abs_daemon d) (fw_listen fw) = Some (rp, True))"
proof -
  let ?p = "me_path me (config_text me cl)" and ?tm = "me_toml me"
  from assms(1) obtain inst t where
    "server_command ((me_install me)\<lparr>ie_linux := (me_platform me = Linux)\<rparr>) (me_keys me)
       (me_path me (default_key_path (me_project_dir me))) (me_server me) ?tm (cl_key_file cl)
       (map_option (me_path me) (cl_key_file cl)) (config_text me cl) ?p (\<not> cl_no_mdns cl) inst (w_fs v) =
     (Inr (Ran run), t)"
    by (auto simp: main_command_def Let_def completing_ok on_fs_ok retA_def elim!: bindA_ok
        split: commands.splits server_outcome.splits)
  moreover from this have "\<not> inst" by (auto simp: server_command_def retA_def elim!: bindA_ok)
  ultimately obtain sk cfg where cfg: "on_disk ?tm ?p t = Some cfg"
    and run: "run = run_server (me_server me sk) (serve_entries cfg) (forward_entries cfg) (\<not> cl_no_mdns cl)"
    and same: "server_key me cl \<noteq> ?p \<Longrightarrow> files t ?p = files (w_fs v) ?p"
    using assms(2) by (auto simp: server_key_def elim!: server_command_run)
  have "cfg = c"
    using cfg assms(6) on_disk_same [OF same [OF assms(5)] on_disk_file [OF assms(6,7)], of ?tm] by simp
  have names: "list_all (\<lambda>sv. valid_str (sv_name sv)) (serve_entries c)"
    using assms(4,6)
    by (auto simp: names_ok_def on_disk_def config_default_def serve_entries_def split: option.splits if_splits sum.splits)
  from run_server_result [OF names, of "me_server me sk" "forward_entries c" "\<not> cl_no_mdns cl"] assms(3)
  have d: "distinct (map sv_name (serve_entries c))" "distinct (map fw_listen (forward_entries c))"
    "sp_serves (abs_daemon d) = (\<lambda>n. if valid_str n then map_of (service_pairs (serve_entries c)) n else None)"
    "\<And>l. sp_forwards (abs_daemon d) l =
          (case map_of (map (\<lambda>fw. (fw_listen fw, fw_remote fw)) (forward_entries c)) l of
             None \<Rightarrow> None
           | Some raw \<Rightarrow> (case remote_from_str parse_id raw of Inr rp \<Rightarrow> Some (rp, True) | Inl _ \<Rightarrow> None))"
    unfolding run \<open>cfg = c\<close> assms(8) by simp_all
  have "sp_serves (abs_daemon d) (sv_name sv) = Some (sv_target sv)" if "sv \<in> set (serve_entries c)" for sv
  proof -
    have "map_of (service_pairs (serve_entries c)) (sv_name sv) = Some (sv_target sv)"
      using that d(1) by (intro map_of_is_SomeI) (auto simp: service_pairs_def comp_def)
    with that names d(3) show ?thesis by (auto simp: list_all_iff)
  qed
  moreover have "map_of (map (\<lambda>fw. (fw_listen fw, fw_remote fw)) (forward_entries c)) (fw_listen fw) = Some (fw_remote fw)"
    if "fw \<in> set (forward_entries c)" for fw
    using that d(2) by (intro map_of_is_SomeI) (auto simp: comp_def)
  ultimately show ?thesis using d(4) by simp
qed


section \<open>Properties\<close>

text \<open>C13. A rule added with \<open>--persistent\<close> survives a restart. When an invocation has added it and
  completed, and a later one brings up a server with the same configuration file, which nobody
  has changed in between, then the new server serves the name with its target, or forwards the
  address to the parsed remote path. The key file of the server must not be the configuration
  file, and TOML texts hold valid strings and are read back as they were written.\<close>

theorem persisted_rule_survives_restart:
  assumes "main_command me cl w = (Inr Completed, w')" and "turns (w_fs w) = []"
    and "main_command me cl2 v = (Inr (Serving run), v')" and "turns (w_fs v) = []" and "sr_daemon run = Some d"
    and "config_text me cl2 = config_text me cl" and "me_path me (config_text me cl) \<noteq> []"
    and "files (w_fs v) (me_path me (config_text me cl)) = files (w_fs w') (me_path me (config_text me cl))"
    and "server_key me cl2 \<noteq> me_path me (config_text me cl2)"
    and "toml_ok (me_toml me)" and "names_ok (me_toml me)"
    and "\<And>sk. se_parse_id (me_server me sk) = ce_parse_id (me_client me)"
  shows "case cl_command cl of
      CmdAddServe stored n tgt \<Rightarrow> stored \<longrightarrow> sp_serves (abs_daemon d) n = Some tgt
    | CmdAddForward stored secs l raw \<Rightarrow> stored \<longrightarrow>
        (\<exists>rp. remote_from_str (ce_parse_id (me_client me)) raw = Inr rp \<and>
          sp_forwards (abs_daemon d) l = Some (rp, True))
    | _ \<Rightarrow> True"
proof -
  note started = restarted [OF assms(3,4,5,11,9) _ _ assms(12), unfolded assms(6)]
  have disk: "on_disk (me_toml me) (me_path me (config_text me cl)) (w_fs v) = Some c"
    if "on_disk (me_toml me) (me_path me (config_text me cl)) (w_fs w') = Some c"
      "serve_entries c \<noteq> [] \<or> forward_entries c \<noteq> []" for c
    using on_disk_same [OF assms(8)] on_disk_file that by metis
  show ?thesis
  proof (cases "cl_command cl")
    case (CmdAddServe stored n tgt)
    then show ?thesis
      using stored_serve [OF assms(1) _ assms(10,7,2), of n tgt] disk started by (cases stored) fastforce+
  next
    case (CmdAddForward stored secs l raw)
    then show ?thesis
      using stored_forward [OF assms(1) _ assms(10,7,2), of secs l raw] disk started
      by (cases stored) (fastforce simp: is_ok_iff)+
  qed simp_all
qed

text \<open>\<open>add-serve -p\<close> against a running server, and the server started again.\<close>

definition sample_main :: "(byte, rstr) main_env" where
  "sample_main = \<lparr>me_platform = Linux, me_project_dir = None, me_path = (\<lambda>t. [t]), me_install = sample_install,
     me_keys = byte_keys, me_toml = sample_toml, me_client = sample_env, me_startup = sample_startup,
     me_server = (\<lambda>_. sample_server), me_ansi = False,
     me_build = \<lparr>pkg_version = [], git_sha = [], git_sha_short = [], git_branch = [], git_describe = [],
       git_dirty_text = [], build_time = [], build_unix_text = [], bi_rustc = [], bi_target = [], bi_host = [],
       bi_profile = [], opt_level = [], bi_debug = [], bi_features = []\<rparr>\<rparr>"

definition sample_cli :: "commands \<Rightarrow> cli" where
  "sample_cli c = \<lparr>cl_command = c, cl_key_file = Some [107], cl_config_file = Some [99], cl_no_mdns = False\<rparr>"


lemma sample_main_simps [simp]:
  "me_toml sample_main = sample_toml" "me_client sample_main = sample_env" "me_keys sample_main = byte_keys"
  "me_server sample_main = (\<lambda>_. sample_server)" "me_path sample_main t = [t]"
  "config_text sample_main (sample_cli c) = [99]" "cl_command (sample_cli c) = c"
  "server_key sample_main (sample_cli c) = [[107]]"
  by (simp_all add: sample_main_def sample_cli_def config_text_def server_key_def serve_key_path_def)

abbreviation sample_add :: commands where
  "sample_add \<equiv> CmdAddServe True [119] [56]"

lemma sample_adds: "\<exists>w'. main_command sample_main (sample_cli sample_add) sample_world = (Inr Completed, w')"
proof -
  have up: "ensure_server_running Linux sample_env sample_startup k c m sample_world = (Inr (), sample_world)" for k c m
    using connect_running_up [of sample_world "daemon_start []" sample_env]
    by (auto simp: ensure_server_running_def capabilities_of_def bindA_def retA_def)
  have add: "add_serve_command sample_env sample_toml [[99]]
      (ensure_server_running Linux sample_env sample_startup k c m) True [119] [56] sample_world =
    add_serve_command sample_env sample_toml [[99]] (retA ()) True [119] [56] sample_world" for k c m
    unfolding add_serve_command_def bindA_def [of "ensure_server_running _ _ _ _ _ _"] bindA_def [of "retA ()"] up
    by (simp add: retA_def)
  obtain w' where "add_serve_command sample_env sample_toml [[99]] (retA ()) True [119] [56] sample_world = (Inr (), w')"
    using sample_add_command_ok by (auto simp: is_ok_iff prod_eq_iff)
  then show ?thesis
    by (simp add: main_command_def Let_def sample_main_def sample_cli_def completing_def config_text_def
        add [unfolded] bindA_def retA_def)
qed

text \<open>The files after the addition, and the key file.\<close>

definition sample_restart :: "rstr world \<Rightarrow> rstr world" where
  "sample_restart w = w\<lparr>w_daemon := None,
     w_fs := sample_server_fs\<lparr>files := (files sample_server_fs)([[99]] := files (w_fs w) [[99]])\<rparr>\<rparr>"

lemma load_from_disk:
  assumes "on_disk tm p s = Some c" and "turns s = []"
  shows "\<exists>t. load_config_or_default tm p s = (Inr c, t)"
proof (cases "files s p")
  case None
  with assms show ?thesis
    by (auto simp: on_disk_def load_config_or_default_def path_exists_def fs_op_def take_turn_def bindA_def retA_def
        log_state_def split: if_splits)
next
  case (Some f)
  with assms show ?thesis
    by (auto simp: on_disk_def load_config_or_default_def load_config_def path_exists_def read_to_string_def ctx_def
        mapErrA_def fs_op_def take_turn_def bindA_def retA_def liftA_def with_context_def log_state_def
        split: option.splits sum.splits)
qed

lemma sample_restarts:
  assumes "main_command sample_main (sample_cli sample_add) sample_world = (Inr Completed, w')"
  shows "\<exists>run v' d. main_command sample_main (sample_cli (CmdServer False)) (sample_restart w') =
    (Inr (Serving run), v') \<and> sr_daemon run = Some d"
proof -
  let ?s = "w_fs (sample_restart w')"
  have add: "add_persistent_serve_rule sample_toml [[99]] [119] [56] sample_fs = (Inr (), w_fs w')"
    using stored_run [OF assms] by simp
  have "on_disk sample_toml [[99]] sample_fs = Some config_default" "turns sample_fs = []"
    by (simp_all add: on_disk_def sample_fs_def)
  with add_serve_rule_result [OF sample_toml_ok _ quiet_still [of sample_fs] add]
  obtain c where c: "on_disk sample_toml [[99]] (w_fs w') = Some c"
    "serve_entries c = [\<lparr>sv_name = [119], sv_target = [56]\<rparr>]" "forward_entries c = []"
    by (auto simp: serve_entries_def forward_entries_def config_default_def)
  let ?k = "me_path sample_main (default_key_path (me_project_dir sample_main))"
  have "\<exists>s1. load_or_create_serve_key_and_lock byte_keys ?k (Some [[107]]) ?s = (Inr 9, s1)"
    by (simp add: load_or_create_serve_key_and_lock_def lock_serve_key_file_def load_or_create_secret_key_from_file_def
        serve_key_path_def open_or_create_def try_lock_def seek_start_def sample_server_fs_def sample_restart_def
        key_eval)
  then obtain s1 where key: "load_or_create_serve_key_and_lock byte_keys ?k (Some [[107]]) ?s = (Inr 9, s1)"
    by blast
  have turns: "turns ?s = []" by (simp add: sample_restart_def sample_server_fs_def key_fs_def)
  have held: "still (held [[107]] [[99]] (files (w_fs w') [[99]])) s1"
    using key_taken [OF key turns, of "[[99]]"] by (simp add: serve_key_path_def sample_restart_def)
  then have "on_disk sample_toml [[99]] s1 = Some c" "turns s1 = []"
    using c on_disk_same [of s1 "[[99]]" "w_fs w'"] on_disk_file [OF c(1)]
    by (auto simp: still_def held_def apart_def)
  then obtain t where load: "load_config_or_default sample_toml [[99]] s1 = (Inr c, t)"
    using load_from_disk by blast
  let ?run = "run_server sample_server [\<lparr>sv_name = [119], sv_target = [56]\<rparr>] [] True"
  have "main_command sample_main (sample_cli (CmdServer False)) (sample_restart w') =
      (Inr (Serving ?run), (sample_restart w')\<lparr>w_fs := t\<rparr>)"
    using key load c(2,3)
    by (simp add: main_command_def Let_def on_fs_def bindA_def retA_def server_command_def, simp add: sample_cli_def)
  with sample_server_starts show ?thesis by blast
qed

theorem persisted_rule_survives_restart_witness:
  "\<exists>w' run v' d. main_command sample_main (sample_cli sample_add) sample_world = (Inr Completed, w') \<and>
     main_command sample_main (sample_cli (CmdServer False)) (sample_restart w') = (Inr (Serving run), v') \<and>
     sr_daemon run = Some d \<and> sp_serves (abs_daemon d) [119] = Some [56]"
proof -
  obtain w' where w': "main_command sample_main (sample_cli sample_add) sample_world = (Inr Completed, w')"
    using sample_adds by blast
  from sample_restarts [OF this] obtain run v' d where
    run: "main_command sample_main (sample_cli (CmdServer False)) (sample_restart w') = (Inr (Serving run), v')"
      "sr_daemon run = Some d" by blast
  have names: "names_ok sample_toml"
    by (auto simp: names_ok_def sample_toml_def sample_config_def config_default_def push_forward_def
        serve_entries_def scalar_def split: if_splits)
  have "sp_serves (abs_daemon d) [119] = Some [56]"
    using persisted_rule_survives_restart [OF w' _ run(1) _ run(2), simplified, OF _ _ _ sample_toml_ok names]
    by (simp add: sample_fs_def sample_restart_def sample_server_fs_def key_fs_def sample_server_def sample_env_def)
  with w' run show ?thesis by blast
qed

end
