(* ===== verification/Terminal_Session.thy ===== *)
theory Terminal_Session
  imports Prelude Errors
begin

text \<open>
  The edges of the terminal interface (\<open>run_tui\<close> and \<open>start_input_thread\<close> of \<open>src/tui.rs\<close>): taking
  the terminal over and giving it back, where any call may fail, and the thread that turns
  terminal events into the keys the loop receives.
\<close>

section \<open>The terminal\<close>

text \<open>The modes of the terminal, and what happens to the calls to come; \<open>rest\<close> is the state of the
  loop.\<close>

record 's terminal =
  raw_mode :: bool
  alternate_screen :: bool
  cursor_hidden :: bool
  call_faults :: "io_error option list"
  loop_state :: 's

definition term_call :: "('s terminal \<Rightarrow> 's terminal) \<Rightarrow> ('s terminal, io_error, unit) act" where
  "term_call change s =
     (case call_faults s of
        Some e # fs \<Rightarrow> (Inl e, s\<lparr>call_faults := fs\<rparr>)
      | None # fs \<Rightarrow> (Inr (), change (s\<lparr>call_faults := fs\<rparr>))
      | [] \<Rightarrow> (Inr (), change s))"

definition term_ctx :: "rstr \<Rightarrow> ('s terminal, io_error, unit) act \<Rightarrow> ('s terminal, error, unit) act" where
  "term_ctx text m = mapErrA (\<lambda>e. context_err text (io_chain e)) m"

text \<open>\<open>Terminal::new\<close> only asks for the size. The result of the loop is returned after the terminal
  has been given back.\<close>

definition run_tui :: "('s terminal, error, unit) act \<Rightarrow> ('s terminal, error, unit) act" where
  "run_tui loop =
     bindA (term_ctx (lit ''failed to enable raw mode'') (term_call (raw_mode_update (\<lambda>_. True)))) (\<lambda>_.
     bindA (term_ctx (lit ''failed to enter alternate screen'') (term_call (alternate_screen_update (\<lambda>_. True)))) (\<lambda>_.
     bindA (term_ctx (lit ''failed to create terminal'') (term_call (\<lambda>s. s))) (\<lambda>_.
     bindA (attemptA loop) (\<lambda>result.
     bindA (term_ctx (lit ''failed to disable raw mode'') (term_call (raw_mode_update (\<lambda>_. False)))) (\<lambda>_.
     bindA (term_ctx (lit ''failed to leave alternate screen'')
       (term_call (alternate_screen_update (\<lambda>_. False)))) (\<lambda>_.
     bindA (term_ctx (lit ''failed to restore cursor'') (term_call (cursor_hidden_update (\<lambda>_. False)))) (\<lambda>_.
     liftA result)))))))"


section \<open>The input thread\<close>

datatype 'k polled = PollFailed | NoEvent | ReadFailed | OtherEvent | KeyOther 'k | KeyPressed 'k

text \<open>The keys sent, when the receiver is dropped after \<open>n\<close> of them.\<close>

fun input_keys :: "nat \<Rightarrow> 'k polled list \<Rightarrow> 'k list" where
  "input_keys n [] = []"
| "input_keys n (PollFailed # _) = []"
| "input_keys n (ReadFailed # _) = []"
| "input_keys n (NoEvent # ps) = input_keys n ps"
| "input_keys n (OtherEvent # ps) = input_keys n ps"
| "input_keys n (KeyOther _ # ps) = input_keys n ps"
| "input_keys 0 (KeyPressed _ # _) = []"
| "input_keys (Suc n) (KeyPressed k # ps) = k # input_keys n ps"


section \<open>Facts\<close>

definition restored :: "'s terminal \<Rightarrow> bool" where
  "restored s \<longleftrightarrow> \<not> raw_mode s \<and> \<not> alternate_screen s \<and> \<not> cursor_hidden s"

lemma term_call_ok:
  "term_call change s = (Inr (), t) \<Longrightarrow> \<exists>fs. t = change (s\<lparr>call_faults := fs\<rparr>)"
  by (cases s) (auto simp: term_call_def split: option.splits list.splits)

lemma term_ctx_ok: "term_ctx text m s = (Inr u, t) \<longleftrightarrow> m s = (Inr u, t)"
  by (simp add: term_ctx_def)

text \<open>The terminal is given back whenever \<open>run_tui\<close> returns what the loop returned.\<close>

lemma run_tui_restores:
  assumes "run_tui loop s = (Inr (), t)"
  shows "restored t"
  using assms
  by (auto simp: run_tui_def term_ctx_ok attemptA_eq liftA_def restored_def elim!: bindA_ok dest!: term_call_ok)

lemma run_tui_reliable:
  assumes "call_faults s = []" and "loop (s\<lparr>raw_mode := True, alternate_screen := True\<rparr>) = (r, t)"
    and "call_faults t = []"
  shows "run_tui loop s = (r, t\<lparr>raw_mode := False, alternate_screen := False, cursor_hidden := False\<rparr>)"
  using assms by (cases r) (simp_all add: run_tui_def term_ctx_def term_call_def bindA_def attemptA_def liftA_def mapErrA_def)

text \<open>A failure while the terminal is being taken over leaves raw mode on.\<close>

lemma run_tui_leaves_raw_mode:
  assumes "call_faults s = None # Some e # fs"
  shows "\<exists>t err. run_tui loop s = (Inl err, t) \<and> raw_mode t"
  using assms by (simp add: run_tui_def term_ctx_def term_call_def bindA_def mapErrA_def)

definition pressed :: "'k polled \<Rightarrow> 'k option" where
  "pressed p = (case p of KeyPressed k \<Rightarrow> Some k | _ \<Rightarrow> None)"

text \<open>The loop gets the presses before the first failure, in order, until it stops listening.\<close>

lemma input_keys_spec:
  "input_keys n ps = take n (List.map_filter pressed (takeWhile (\<lambda>p. p \<noteq> PollFailed \<and> p \<noteq> ReadFailed) ps))"
  by (induction n ps rule: input_keys.induct) (simp_all add: pressed_def List.map_filter_simps)

end
