(* ===== verification/Fair_Runs.thy ===== *)
theory Fair_Runs
  imports Main
begin

text \<open>
  Infinite runs of a step relation and the fairness of the scheduler. A run may stutter; an
  action is weakly fair in a run when it cannot stay enabled forever without being taken.
  The locale is the progress rule that goes with it: a helpful action that lowers a
  measure, enabled while the measure is not zero, and no step that raises it.
\<close>

definition runs_of :: "('s \<Rightarrow> 's \<Rightarrow> bool) \<Rightarrow> 's \<Rightarrow> (nat \<Rightarrow> 's) \<Rightarrow> bool" where
  "runs_of step start run \<longleftrightarrow>
     run 0 = start \<and> (\<forall>k. step (run k) (run (Suc k)) \<or> run (Suc k) = run k)"

definition weakly_fair :: "('s \<Rightarrow> 's \<Rightarrow> bool) \<Rightarrow> (nat \<Rightarrow> 's) \<Rightarrow> bool" where
  "weakly_fair act run \<longleftrightarrow>
     (\<forall>k. (\<forall>m\<ge>k. \<exists>t. act (run m) t) \<longrightarrow> (\<exists>m\<ge>k. act (run m) (run (Suc m))))"

lemma run_steps: "runs_of step start run \<Longrightarrow> step\<^sup>*\<^sup>* (run k) (run (k + n))"
proof (induction n)
  case (Suc n)
  from Suc.prems have "step (run (k + n)) (run (Suc (k + n))) \<or> run (Suc (k + n)) = run (k + n)"
    by (simp add: runs_of_def)
  with Suc show ?case by (metis add_Suc_right rtranclp.rtrancl_into_rtrancl)
qed simp

lemma run_reach: "runs_of step start run \<Longrightarrow> step\<^sup>*\<^sup>* start (run k)"
  using run_steps [of step start run 0 k] by (simp add: runs_of_def)

text \<open>A list of states, its last one repeated forever, as a run.\<close>

definition halting_run :: "'s list \<Rightarrow> nat \<Rightarrow> 's" where
  "halting_run ss n = (if n < length ss then ss ! n else last ss)"

lemma halting_run_steps:
  assumes "successively step ss" and "ss \<noteq> []" and "hd ss = start"
  shows "runs_of step start (halting_run ss)"
proof -
  have "step (halting_run ss k) (halting_run ss (Suc k)) \<or> halting_run ss (Suc k) = halting_run ss k" for k
  proof (cases "Suc k < length ss")
    case True
    then show ?thesis using assms(1) by (simp add: halting_run_def successively_conv_nth)
  next
    case False
    then have "k = length ss - 1 \<or> \<not> k < length ss" by linarith
    with False assms(2) show ?thesis by (auto simp: halting_run_def last_conv_nth)
  qed
  with assms(2,3) show ?thesis by (simp add: runs_of_def halting_run_def hd_conv_nth)
qed

lemma halting_run_fair:
  assumes "\<And>t. \<not> act (last ss) t"
  shows "weakly_fair act (halting_run ss)"
proof -
  have "halting_run ss (max k (length ss)) = last ss" for k by (simp add: halting_run_def)
  then show ?thesis unfolding weakly_fair_def using assms by (metis max.cobounded1)
qed

locale fair_descent =
  fixes step :: "'s \<Rightarrow> 's \<Rightarrow> bool"
    and act :: "'s \<Rightarrow> 's \<Rightarrow> bool"
    and phase :: "'s \<Rightarrow> bool"
    and weight :: "'s \<Rightarrow> nat"
  assumes phase_step: "step s t \<Longrightarrow> phase s \<Longrightarrow> phase t \<and> weight t \<le> weight s"
    and act_lowers: "phase s \<Longrightarrow> act s t \<Longrightarrow> weight t < weight s"
    and act_enabled: "phase s \<Longrightarrow> 0 < weight s \<Longrightarrow> \<exists>t. act s t"
begin

lemma phase_run:
  assumes "runs_of step start run" and "phase (run k)" and "k \<le> n"
  shows "phase (run n) \<and> weight (run n) \<le> weight (run k)"
  using assms(3)
proof (induction n rule: dec_induct)
  case (step n)
  from assms(1) have "step (run n) (run (Suc n)) \<or> run (Suc n) = run n" by (simp add: runs_of_def)
  with step.IH phase_step show ?case by (metis le_trans)
qed (simp add: assms(2))

theorem reaches_zero:
  assumes run: "runs_of step start run" and fair: "weakly_fair act run" and "phase (run k)"
  shows "\<exists>m\<ge>k. \<forall>n\<ge>m. phase (run n) \<and> weight (run n) = 0"
  using assms(3)
proof (induction "weight (run k)" arbitrary: k rule: less_induct)
  case less
  note keep = phase_run [OF run less.prems]
  show ?case
  proof (cases "\<exists>m\<ge>k. weight (run m) < weight (run k)")
    case True
    then obtain m where "k \<le> m" "weight (run m) < weight (run k)" by blast
    with less.hyps [of m] keep show ?thesis by (meson le_trans)
  next
    case False
    then have same: "weight (run m) = weight (run k)" if "k \<le> m" for m
      using keep [OF that] that by (meson le_antisym not_less)
    have "weight (run k) = 0"
    proof (rule ccontr)
      assume "weight (run k) \<noteq> 0"
      then have "\<exists>t. act (run m) t" if "k \<le> m" for m
        using act_enabled keep [OF that] same [OF that] by simp
      then obtain m where m: "k \<le> m" "act (run m) (run (Suc m))"
        using fair unfolding weakly_fair_def by blast
      from act_lowers [OF _ m(2)] keep [OF m(1)] same [OF m(1)] same [of "Suc m"] m(1)
      show False by simp
    qed
    with keep show ?thesis by force
  qed
qed

end

end
