(* ===== verification/Forward_Teardown.thy ===== *)
theory Forward_Teardown
  imports Forward_Table Fair_Runs
begin

text \<open>
  What deleting a forward does in the long run (\<open>DelForward\<close>, \<open>ForwardRuntime::drop\<close> and
  the listener task of \<open>src/daemon/forwards.rs\<close>): the address, the listener task and its
  connections, under the runtime's promise that an aborted task is dropped at some time.
  The promise is weak fairness of two actions of \<open>Forward_Table\<close>: the cancellation of an
  aborted listener task and that of the aborted connections of one listener.
\<close>

section \<open>Who listens on an address\<close>

text \<open>
  A task has a claim on its address while it listens, or while a table entry names it. No
  task listens on an address with a port of its own that another task has a claim on.
\<close>

definition claims :: "'i forwards_state \<Rightarrow> nat \<Rightarrow> bool" where
  "claims s i \<longleftrightarrow> lt_running (tasks s ! i) \<or>
     map_option fr_task (hm_get (table s) (lt_listen (tasks s ! i))) = Some i"

definition addr_inv :: "'i forwards_state \<Rightarrow> bool" where
  "addr_inv s \<longleftrightarrow> (\<forall>i<length (tasks s). \<forall>j<length (tasks s). claims s i \<longrightarrow> lt_running (tasks s ! j) \<longrightarrow>
     lt_listen (tasks s ! i) = lt_listen (tasks s ! j) \<longrightarrow> \<not> any_port (lt_listen (tasks s ! j)) \<longrightarrow> i = j)"

lemma addr_invD:
  "addr_inv s \<Longrightarrow> i < length (tasks s) \<Longrightarrow> j < length (tasks s) \<Longrightarrow> claims s i \<Longrightarrow> lt_running (tasks s ! j) \<Longrightarrow>
     lt_listen (tasks s ! i) = lt_listen (tasks s ! j) \<Longrightarrow> \<not> any_port (lt_listen (tasks s ! j)) \<Longrightarrow> i = j"
  by (simp add: addr_inv_def)

lemma addr_held_iff:
  "addr_held s l \<longleftrightarrow> (\<exists>i<length (tasks s). lt_running (tasks s ! i) \<and> lt_listen (tasks s ! i) = l)"
  by (auto simp: addr_held_def list_ex_length)

text \<open>Every step but an addition keeps the tasks, what they listen on and who has claims.\<close>

lemma abort_frame:
  "lt_running (ts[k := (ts ! k)\<lparr>lt_abort := True\<rparr>] ! i) = lt_running (ts ! i)"
  "lt_listen (ts[k := (ts ! k)\<lparr>lt_abort := True\<rparr>] ! i) = lt_listen (ts ! i)"
  "lt_conns (ts[k := (ts ! k)\<lparr>lt_abort := True\<rparr>] ! i) = lt_conns (ts ! i)"
  by (cases "k = i"; cases "i < length ts"; simp add: list_update_beyond)+

lemma step_tasks:
  assumes "fwd_step show_id s t" and "i < length (tasks s)"
  shows "i < length (tasks t) \<and> lt_listen (tasks t ! i) = lt_listen (tasks s ! i) \<and>
    (t = listener_stop i s \<or> lt_running (tasks t ! i) = lt_running (tasks s ! i))"
  using assms
  by cases (auto simp: add_forward_binding_def remove_forward_def runtime_drop_def task_effects
      listener_cancels_def conn_cancels_def nth_append nth_list_update Let_def abort_frame
      split: sum.splits option.splits if_splits)

lemma running_mono: "fwd_step show_id s t \<Longrightarrow> i < length (tasks s) \<Longrightarrow> lt_running (tasks t ! i) \<Longrightarrow> lt_running (tasks s ! i)"
  using step_tasks [of show_id s t i] by (auto simp: task_effects)

lemma step_kinds:
  assumes "fwd_step show_id s t"
  obtains (add) outer b p where "t = snd (add_forward_binding (os_bind outer s) b p s)"
  | (del) l where "table t = hm_remove l (table s)" "length (tasks t) = length (tasks s)"
  | (other) "table t = table s" "length (tasks t) = length (tasks s)"
  using assms
proof cases
  case (fwd_del listen)
  then show ?thesis
    by (cases "hm_get (table s) listen") (auto simp: remove_forward_def runtime_drop_def intro: del other)
qed (auto simp: task_effects listener_cancels_def conn_cancels_def intro: add other)

lemma addr_inv_mono:
  assumes "addr_inv s" and "length (tasks t) = length (tasks s)"
    and "\<And>i. i < length (tasks s) \<Longrightarrow> lt_listen (tasks t ! i) = lt_listen (tasks s ! i) \<and>
      (lt_running (tasks t ! i) \<longrightarrow> lt_running (tasks s ! i))"
    and "\<And>l rt. hm_get (table t) l = Some rt \<Longrightarrow> hm_get (table s) l = Some rt"
  shows "addr_inv t"
proof -
  have "claims s i" if "claims t i" "i < length (tasks s)" for i
    using that assms(3) [of i] assms(4) by (auto simp: claims_def)
  with assms(1-3) show ?thesis by (simp add: addr_inv_def)
qed

lemma addr_inv_add:
  assumes "addr_inv s" and "hm_ok (table s)"
  shows "addr_inv (snd (add_forward_binding (os_bind outer s) b p s))"
proof (cases "hm_get (table s) (fb_listen b) = None \<and> is_ok (os_bind outer s (fb_listen b))")
  case False
  then show ?thesis using assms(1)
    by (auto simp: add_forward_binding_def hm_contains_def split: sum.splits)
next
  case True
  then obtain u where free: "hm_get (table s) (fb_listen b) = None" "os_bind outer s (fb_listen b) = Inr u"
    by (auto simp: is_ok_iff)
  then have held: "any_port (fb_listen b) \<or> \<not> addr_held s (fb_listen b)"
    by (auto simp: os_bind_def split: if_splits)
  let ?t = "snd (add_forward_binding (os_bind outer s) b p s)" and ?n = "length (tasks s)"
  have t: "length (tasks ?t) = Suc ?n" "lt_listen (tasks ?t ! ?n) = fb_listen b"
    "\<And>i. i < ?n \<Longrightarrow> tasks ?t ! i = tasks s ! i"
    and tb: "\<And>l. map_option fr_task (hm_get (table ?t) l) =
      (if l = fb_listen b then Some ?n else map_option fr_task (hm_get (table s) l))"
    using free assms(2) by (simp_all add: add_forward_binding_def hm_contains_def Let_def nth_append hm.get_put)
  have old: "claims ?t i \<Longrightarrow> claims s i" if "i < ?n" for i
    using that t(3) tb by (auto simp: claims_def split: if_splits)
  have new: "lt_listen (tasks s ! i) \<noteq> fb_listen b \<or> any_port (fb_listen b)"
    if "i < ?n" "lt_running (tasks s ! i)" for i
    using held that by (auto simp: addr_held_iff)
  have claim: "lt_running (tasks s ! i)" if "claims ?t i" "i < ?n" "lt_listen (tasks s ! i) = fb_listen b" for i
    using that t(3) tb by (auto simp: claims_def)
  show ?thesis unfolding addr_inv_def t(1)
  proof (intro allI impI)
    fix i j
    assume *: "i < Suc ?n" "j < Suc ?n" "claims ?t i" "lt_running (tasks ?t ! j)"
      "lt_listen (tasks ?t ! i) = lt_listen (tasks ?t ! j)" "\<not> any_port (lt_listen (tasks ?t ! j))"
    show "i = j"
      using * t old [of i] addr_invD [OF assms(1), of i j] new [of i] new [of j] claim [of i]
      by (cases "i = ?n"; cases "j = ?n") (auto simp: less_Suc_eq)
  qed
qed

lemma addr_inv_step:
  assumes "addr_inv s" and "hm_ok (table s)" and "fwd_step show_id s t"
  shows "addr_inv t"
proof -
  have tasks: "lt_listen (tasks t ! i) = lt_listen (tasks s ! i) \<and>
      (lt_running (tasks t ! i) \<longrightarrow> lt_running (tasks s ! i))" if "i < length (tasks s)" for i
    using step_tasks [OF assms(3) that] running_mono [OF assms(3) that] by simp
  from assms(3) show ?thesis
  proof (cases rule: step_kinds)
    case (add outer b p)
    then show ?thesis using addr_inv_add assms(1,2) by simp
  next
    case (del l)
    show ?thesis
      by (rule addr_inv_mono [OF assms(1) del(2) tasks])
        (use assms(2) in \<open>auto simp: del(1) hm.get_del split: if_splits\<close>)
  next
    case other
    show ?thesis by (rule addr_inv_mono [OF assms(1) other(2) tasks]) (simp_all add: other(1))
  qed
qed

interpretation addressing: step_system "fwd_step show_id" "\<lambda>s. table_inv s \<and> addr_inv s" for show_id
  by unfold_locales (auto intro: table_inv_step addr_inv_step dest: table_invD(1))

lemma addr_reach: "(fwd_step show_id)\<^sup>*\<^sup>* fwd_start s \<Longrightarrow> table_inv s \<and> addr_inv s"
  by (erule addressing.steps_inv) (simp add: table_inv_start, simp add: addr_inv_def fwd_start_def)

text \<open>The step in which a listening task stops leaves its address free.\<close>

lemma stop_frees:
  assumes "addr_inv s" and "fwd_step show_id s t" and "i < length (tasks s)"
    and "lt_running (tasks s ! i)" and "\<not> lt_running (tasks t ! i)"
    and "\<not> any_port (lt_listen (tasks s ! i))"
  shows "\<not> addr_held t (lt_listen (tasks s ! i))"
proof -
  have t: "t = listener_stop i s" using step_tasks [OF assms(2,3)] assms(4,5) by auto
  have "\<not> (lt_running (tasks t ! j) \<and> lt_listen (tasks t ! j) = lt_listen (tasks s ! i))"
    if "j < length (tasks s)" for j
  proof (cases "j = i")
    case True
    then show ?thesis using assms(5) by simp
  next
    case False
    with addr_invD [OF assms(1,3) that] assms(4,6)
    have "\<not> (lt_running (tasks s ! j) \<and> lt_listen (tasks s ! j) = lt_listen (tasks s ! i))"
      by (metis claims_def)
    with False show ?thesis by (simp add: t task_effects)
  qed
  moreover have "length (tasks t) = length (tasks s)" by (simp add: t task_effects)
  ultimately show ?thesis by (simp add: addr_held_iff)
qed


section \<open>Progress\<close>

text \<open>A listener task that was told to stop, until it has stopped.\<close>

definition told_to_stop :: "nat \<Rightarrow> 'i forwards_state \<Rightarrow> bool" where
  "told_to_stop i s \<longleftrightarrow> i < length (tasks s) \<and> lt_abort (tasks s ! i)"

definition listening :: "nat \<Rightarrow> 'i forwards_state \<Rightarrow> nat" where
  "listening i s = (if lt_running (tasks s ! i) then 1 else 0)"

interpretation stopping: fair_descent "fwd_step show_id" "listener_cancels i" "told_to_stop i" "listening i"
  for show_id i
proof
  fix s t :: "'a forwards_state"
  assume "fwd_step show_id s t" "told_to_stop i s"
  then show "told_to_stop i t \<and> listening i t \<le> listening i s"
    using step_task_mono [of show_id s t i] running_mono [of show_id s t i]
    by (auto simp: told_to_stop_def listening_def)
qed (auto simp: told_to_stop_def listening_def listener_cancels_def task_effects split: if_splits)

text \<open>The connections of a listener task that has stopped, until they are dropped.\<close>

definition stopped :: "nat \<Rightarrow> 'i forwards_state \<Rightarrow> bool" where
  "stopped i s \<longleftrightarrow> i < length (tasks s) \<and> \<not> lt_running (tasks s ! i) \<and> list_all cn_abort (lt_conns (tasks s ! i))"

definition conns_left :: "nat \<Rightarrow> 'i forwards_state \<Rightarrow> nat" where
  "conns_left i s = length (lt_conns (tasks s ! i))"

lemma length_remove_nth: "j < length xs \<Longrightarrow> Suc (length (remove_nth j xs)) = length xs"
  by (simp add: remove_nth_def)

lemma length_remove_le: "length (remove_nth j xs) \<le> length xs"
  by (simp add: remove_nth_def)

lemma stopped_step:
  assumes "fwd_step show_id s t" and "stopped i s"
  shows "stopped i t \<and> conns_left i t \<le> conns_left i s"
  using assms
  by cases (auto simp: stopped_def conns_left_def add_forward_binding_def remove_forward_def runtime_drop_def
      task_effects listener_cancels_def conn_cancels_def nth_append nth_list_update Let_def abort_frame
      aborts_stage aborts_remove length_remove_le split: sum.splits option.splits if_splits)

interpretation dropping: fair_descent "fwd_step show_id" "conn_cancels i" "stopped i" "conns_left i"
  for show_id i
proof
  fix s t :: "'a forwards_state"
  assume "fwd_step show_id s t" "stopped i s"
  then show "stopped i t \<and> conns_left i t \<le> conns_left i s" by (rule stopped_step)
next
  fix s t :: "'a forwards_state"
  assume "stopped i s" "conn_cancels i s t"
  then show "conns_left i t < conns_left i s"
    by (auto simp: conn_cancels_def conns_left_def task_effects remove_nth_def)
next
  fix s :: "'a forwards_state"
  assume "stopped i s" "0 < conns_left i s"
  then show "\<exists>t. conn_cancels i s t"
    by (auto simp: stopped_def conn_cancels_def conns_left_def list_all_length)
qed


text \<open>The first moment from which a listener task that was told to stop has stopped for good.\<close>

lemma listener_ends:
  assumes run: "runs_of (fwd_step show_id) start run" and fair: "weakly_fair (listener_cancels i) run"
    and "told_to_stop i (run k)"
  obtains m where "k \<le> m" "\<And>n. k \<le> n \<Longrightarrow> n < m \<Longrightarrow> lt_running (tasks (run n) ! i)"
    "\<And>n. m \<le> n \<Longrightarrow> i < length (tasks (run n)) \<and> \<not> lt_running (tasks (run n) ! i)"
proof -
  have off: "listening i s = 0 \<longleftrightarrow> \<not> lt_running (tasks s ! i)" for s :: "'a forwards_state"
    by (simp add: listening_def)
  obtain m' where m': "k \<le> m'" "\<not> lt_running (tasks (run m') ! i)"
    using stopping.reaches_zero [OF run fair assms(3)] off by blast
  define m where "m = (LEAST m. k \<le> m \<and> \<not> lt_running (tasks (run m) ! i))"
  have m: "k \<le> m" "\<not> lt_running (tasks (run m) ! i)"
    using LeastI [of "\<lambda>m. k \<le> m \<and> \<not> lt_running (tasks (run m) ! i)" m'] m' by (simp_all add: m_def)
  have before: "lt_running (tasks (run n) ! i)" if "k \<le> n" "n < m" for n
    using not_less_Least [of n "\<lambda>m. k \<le> m \<and> \<not> lt_running (tasks (run m) ! i)"] that by (simp add: m_def)
  have phase: "told_to_stop i (run m)"
    using stopping.phase_run [OF run assms(3) m(1)] by simp
  have after: "i < length (tasks (run n)) \<and> \<not> lt_running (tasks (run n) ! i)" if "m \<le> n" for n
    using stopping.phase_run [OF run phase that] m(2) off [of "run n"] off [of "run m"]
    by (simp add: told_to_stop_def)
  show thesis by (rule that [OF m(1) before after])
qed

text \<open>Then its connections go, one after the other.\<close>

lemma conns_end:
  assumes run: "runs_of (fwd_step show_id) fwd_start run" and fair: "weakly_fair (conn_cancels i) run"
    and "i < length (tasks (run m))" and "\<not> lt_running (tasks (run m) ! i)"
  obtains q where "m \<le> q" "\<And>n. q \<le> n \<Longrightarrow> i < length (tasks (run n)) \<and> lt_conns (tasks (run n) ! i) = []"
proof -
  have "table_inv (run m)" using addr_reach [OF run_reach [OF run]] by blast
  then have "stopped i (run m)"
    using table_invD(3) [of "run m" i] assms(3,4) by (simp add: stopped_def task_ok_def)
  from dropping.reaches_zero [OF run fair this] that show thesis
    by (auto simp: stopped_def conns_left_def)
qed

text \<open>A task without connections has nothing in the registry.\<close>

lemma registry_without:
  assumes "conns_inv s" and "lt_conns (tasks s ! i) = []"
  shows "set (hm_keys (active (conns s))) = set (serve_guards s) \<union>
    (\<Union>j\<in>{..<length (tasks s)} - {i}. set (task_guards (tasks s ! j)))"
proof -
  have "task_guards (tasks s ! i) = []" by (simp add: assms(2) task_guards_def)
  then have "(\<Union>j\<in>{..<length (tasks s)}. set (task_guards (tasks s ! j))) =
      (\<Union>j\<in>{..<length (tasks s)} - {i}. set (task_guards (tasks s ! j)))" by fastforce
  moreover have "set (concat (map task_guards (tasks s))) = (\<Union>j\<in>{..<length (tasks s)}. set (task_guards (tasks s ! j)))"
    by (simp add: set_conv_nth [of "tasks s"]) blast
  ultimately show ?thesis using keys_live [OF assms(1)] by (simp add: live_guards_def)
qed

text \<open>
  A connection whose task is dropped in the middle of its transfer leaves the download
  running, without an entry in the registry.
\<close>

lemma transfer_outlives_connection:
  assumes inv: "fwd_inv s" and i: "i < length (tasks s)" and "lt_abort (tasks s ! i)"
    and j: "j < length (lt_conns (tasks s ! i))" and st: "stage_of s i j = Pumping g True"
  shows "\<exists>u. (fwd_step show_id)\<^sup>*\<^sup>* s u \<and> \<not> lt_running (tasks u ! i) \<and> g \<in> set (detached u) \<and>
    g \<notin> set (hm_keys (active (conns u)))"
proof -
  define s1 where "s1 = (if lt_running (tasks s ! i) then listener_stop i s else s)"
  have steps: "(fwd_step show_id)\<^sup>*\<^sup>* s s1"
    using assms(3) i fwd_cancel [of i s "listener_stop i s"] by (auto simp: s1_def listener_cancels_def)
  then have inv1: "fwd_inv s1" using inv by (rule forwarding.steps_inv)
  have s1: "i < length (tasks s1)" "\<not> lt_running (tasks s1 ! i)" "j < length (lt_conns (tasks s1 ! i))"
    "stage_of s1 i j = Pumping g True"
    using i j st by (simp_all add: s1_def task_effects)
  have "cn_abort (lt_conns (tasks s1 ! i) ! j)"
    using inv1 s1 table_invD(3) [of s1 i] by (simp add: fwd_inv_def task_ok_def list_all_length)
  then have step: "fwd_step show_id s1 (conn_dropped i j s1)"
    using s1 by (intro fwd_conn_cancel [of i]) (auto simp: conn_cancels_def)
  have "hm_ok (active (conns s1))" using inv1 by (simp add: fwd_inv_def conns_inv_def)
  then have "g \<notin> set (hm_keys (active (conns (conn_dropped i j s1))))"
    using s1(4) by (simp add: task_effects drop_conn_def guard_drop_def send_event_def hm_keys_dom hm.get_del)
  with steps step s1 show ?thesis
    by (intro exI [of _ "conn_dropped i j s1"]) (auto simp: task_effects)
qed


text \<open>What a delete leaves of the deleted entry, and what stays of a task.\<close>

lemma deleted_entry:
  assumes "table_inv s" and "addr_inv s" and "hm_get (table s) listen = Some rt"
  defines "t \<equiv> snd (remove_forward listen s)"
  shows "hm_get (table t) listen = None" "fr_task rt < length (tasks t)" "lt_abort (tasks t ! fr_task rt)"
    "lt_listen (tasks t ! fr_task rt) = listen"
    "\<not> lt_running (tasks t ! fr_task rt) \<Longrightarrow> any_port listen \<or> \<not> addr_held t listen"
proof -
  let ?i = "fr_task rt"
  have entry: "?i < length (tasks s)" "lt_listen (tasks s ! ?i) = listen"
    using table_invD(2) [OF assms(1,3)] by (simp_all add: entry_ok_def)
  have t: "table t = hm_remove listen (table s)" "tasks t = (tasks s)[?i := (tasks s ! ?i)\<lparr>lt_abort := True\<rparr>]"
    by (simp_all add: t_def remove_forward_def runtime_drop_def assms(3))
  show "hm_get (table t) listen = None" using table_invD(1) [OF assms(1)] by (simp add: t hm.get_del)
  show "?i < length (tasks t)" "lt_abort (tasks t ! ?i)" "lt_listen (tasks t ! ?i) = listen"
    using entry by (simp_all add: t)
  show "any_port listen \<or> \<not> addr_held t listen" if "\<not> lt_running (tasks t ! ?i)"
  proof (rule ccontr)
    assume *: "\<not> (any_port listen \<or> \<not> addr_held t listen)"
    then obtain j where j: "j < length (tasks s)" "lt_running (tasks s ! j)" "lt_listen (tasks s ! j) = listen"
      by (auto simp: addr_held_iff t abort_frame)
    have "claims s ?i" by (simp add: claims_def entry assms(3))
    from addr_invD [OF assms(2) entry(1) j(1) this j(2)] have "?i = j" using * entry(2) j(3) by simp
    with j(2) that show False by (simp add: t abort_frame)
  qed
qed

lemma listen_kept:
  assumes "runs_of (fwd_step show_id) start run" and "i < length (tasks (run k))" and "k \<le> n"
  shows "i < length (tasks (run n)) \<and> lt_listen (tasks (run n) ! i) = lt_listen (tasks (run k) ! i)"
  using assms(3)
proof (induction n rule: dec_induct)
  case (step n)
  from assms(1) have "fwd_step show_id (run n) (run (Suc n)) \<or> run (Suc n) = run n" by (simp add: runs_of_def)
  with step.IH step_tasks [of show_id "run n" "run (Suc n)" i] show ?case by auto
qed (simp add: assms(2))

lemma told_to_stop_entry: "i < length (tasks s) \<Longrightarrow> lt_abort (tasks s ! i) \<Longrightarrow> told_to_stop i s"
  by (simp add: told_to_stop_def)

text \<open>The listener keeps its address until a later moment, at which it lets it go.\<close>

lemma address_released:
  assumes run: "runs_of (fwd_step show_id) fwd_start run" and fair: "weakly_fair (listener_cancels (fr_task rt)) run"
    and entry: "hm_get (table (run k)) listen = Some rt"
    and del: "run (Suc k) = snd (remove_forward listen (run k))"
  shows "\<exists>m>k. (\<forall>n. k < n \<and> n < m \<longrightarrow> addr_held (run n) listen) \<and>
    (any_port listen \<or> \<not> addr_held (run m) listen) \<and>
    (\<forall>n\<ge>m. fr_task rt < length (tasks (run n)) \<and> \<not> lt_running (tasks (run n) ! fr_task rt))"
proof -
  let ?i = "fr_task rt"
  have inv: "table_inv (run n)" "addr_inv (run n)" for n using addr_reach [OF run_reach [OF run]] by blast+
  note gone = deleted_entry [OF inv entry, folded del]
  have kept: "?i < length (tasks (run n))" "lt_listen (tasks (run n) ! ?i) = listen" if "Suc k \<le> n" for n
    using listen_kept [OF run gone(2) that] gone(4) by simp_all
  obtain m where m: "Suc k \<le> m" "\<And>n. Suc k \<le> n \<Longrightarrow> n < m \<Longrightarrow> lt_running (tasks (run n) ! ?i)"
    "\<And>n. m \<le> n \<Longrightarrow> ?i < length (tasks (run n)) \<and> \<not> lt_running (tasks (run n) ! ?i)"
    using listener_ends [OF run fair told_to_stop_entry [OF gone(2,3)]] by metis
  have held: "addr_held (run n) listen" if "k < n" "n < m" for n
    using m(2) [of n] kept [of n] that by (auto simp: addr_held_iff)
  have "any_port listen \<or> \<not> addr_held (run m) listen"
  proof (cases "m = Suc k")
    case True
    then show ?thesis using gone(5) m(3) [of m] by simp
  next
    case False
    then obtain p where p: "m = Suc p" "Suc k \<le> p" using m(1) by (cases m) auto
    have "fwd_step show_id (run p) (run m) \<or> run m = run p" using run p(1) by (simp add: runs_of_def)
    moreover have "lt_running (tasks (run p) ! ?i)" "\<not> lt_running (tasks (run m) ! ?i)"
      using m(2) [of p] m(3) [of m] p by simp_all
    ultimately show ?thesis
      using stop_frees [OF inv(2), of show_id p "run m" ?i] kept [OF p(2)] by auto
  qed
  with m held show ?thesis by (intro exI [of _ m]) auto
qed


section \<open>Properties\<close>

text \<open>C5. Deleting a forward, on every run of the daemon on which the runtime drops aborted
  tasks at some time: the entry is gone at once; the listener task keeps the address bound
  until some later moment, at which the address is free (a port of 0 aside, which is never
  taken) and after which the task never runs again; from some moment on none of its
  connections is left and the registry holds exactly the entries of the incoming
  connections and of the other listeners' connections. What may be left is the download of
  a connection that was in the middle of its transfer: from the delete, steps lead to a
  state in which the connection is gone from the registry and its download goes on.\<close>

theorem del_forward_tears_down:
  assumes run: "runs_of (fwd_step show_id) fwd_start run"
    and fair: "\<forall>i. weakly_fair (listener_cancels i) run" "\<forall>i. weakly_fair (conn_cancels i) run"
    and entry: "hm_get (table (run k)) listen = Some rt"
    and del: "run (Suc k) = snd (remove_forward listen (run k))"
  shows "hm_get (table (run (Suc k))) listen = None \<and>
    (\<exists>m>k. (\<forall>n. k < n \<and> n < m \<longrightarrow> addr_held (run n) listen) \<and>
       (any_port listen \<or> \<not> addr_held (run m) listen) \<and>
       (\<forall>n\<ge>m. \<not> lt_running (tasks (run n) ! fr_task rt))) \<and>
    (\<exists>m>k. \<forall>n\<ge>m. lt_conns (tasks (run n) ! fr_task rt) = [] \<and>
       set (hm_keys (active (conns (run n)))) = set (serve_guards (run n)) \<union>
         (\<Union>j\<in>{..<length (tasks (run n))} - {fr_task rt}. set (task_guards (tasks (run n) ! j)))) \<and>
    (\<forall>j g. j < length (lt_conns (tasks (run (Suc k)) ! fr_task rt)) \<and>
         stage_of (run (Suc k)) (fr_task rt) j = Pumping g True \<longrightarrow>
       (\<exists>u. (fwd_step show_id)\<^sup>*\<^sup>* (run (Suc k)) u \<and> \<not> lt_running (tasks u ! fr_task rt) \<and>
          g \<in> set (detached u) \<and> g \<notin> set (hm_keys (active (conns u)))))"
proof -
  let ?i = "fr_task rt"
  have inv: "table_inv (run n)" "addr_inv (run n)" "fwd_inv (run n)" for n
    using addr_reach [OF run_reach [OF run]] fwd_reach_inv [OF run_reach [OF run]] by blast+
  note gone = deleted_entry [OF inv(1,2) entry, folded del]
  obtain m where m: "k < m" "\<forall>n. k < n \<and> n < m \<longrightarrow> addr_held (run n) listen"
    "any_port listen \<or> \<not> addr_held (run m) listen"
    "\<forall>n\<ge>m. ?i < length (tasks (run n)) \<and> \<not> lt_running (tasks (run n) ! ?i)"
    using address_released [OF run _ entry del] fair(1) by blast
  obtain q where q: "m \<le> q" "\<And>n. q \<le> n \<Longrightarrow> lt_conns (tasks (run n) ! ?i) = []"
    using conns_end [OF run, of ?i m] fair(2) m(4) by (metis order_refl)
  have "set (hm_keys (active (conns (run n)))) = set (serve_guards (run n)) \<union>
      (\<Union>j\<in>{..<length (tasks (run n))} - {?i}. set (task_guards (tasks (run n) ! j)))" if "q \<le> n" for n
    by (rule registry_without [OF _ q(2) [OF that]]) (use inv(3) in \<open>simp add: fwd_inv_def\<close>)
  with q m(1) have "\<exists>m>k. \<forall>n\<ge>m. lt_conns (tasks (run n) ! ?i) = [] \<and>
      set (hm_keys (active (conns (run n)))) = set (serve_guards (run n)) \<union>
        (\<Union>j\<in>{..<length (tasks (run n))} - {?i}. set (task_guards (tasks (run n) ! j)))"
    by (intro exI [of _ q]) simp
  moreover have "\<exists>m>k. (\<forall>n. k < n \<and> n < m \<longrightarrow> addr_held (run n) listen) \<and>
       (any_port listen \<or> \<not> addr_held (run m) listen) \<and> (\<forall>n\<ge>m. \<not> lt_running (tasks (run n) ! ?i))"
    using m by (intro exI [of _ m]) simp
  ultimately show ?thesis
    using gone(1) transfer_outlives_connection [OF inv(3) gone(2,3)] by blast
qed

text \<open>
  A run for the witness: a connection is accepted, established and in its transfer when its
  forward is deleted; the listener stops, the connection is dropped, and nothing else
  happens.
\<close>

definition sample_pumping :: "nat forwards_state" where
  "sample_pumping = set_stage 0 0 (Pumping 1 True) sample_connected"

definition sample_deleted :: "nat forwards_state" where
  "sample_deleted = snd (remove_forward [58, 56] sample_pumping)"

definition sample_run :: "nat \<Rightarrow> nat forwards_state" where
  "sample_run = halting_run [fwd_start, sample_listening, accept_conn 0 sample_listening, sample_connected,
     sample_pumping, sample_deleted, listener_stop 0 sample_deleted,
     conn_dropped 0 0 (listener_stop 0 sample_deleted)]"

lemma sample_entry: "hm_get (table sample_pumping) [58, 56] =
    Some \<lparr>fr_remote = sample_remote, fr_persisted = True, fr_task = 0\<rparr>"
  by (simp add: sample_pumping_def sample_connected_simps sample_simps hm_get_def)

lemma sample_deleted_tasks: "tasks sample_deleted = [\<lparr>lt_listen = [58, 56], lt_remote = sample_remote,
    lt_timeout = 0, lt_abort = True, lt_running = True,
    lt_conns = [\<lparr>cn_stage = Pumping 1 True, cn_abort = False\<rparr>]\<rparr>]"
  by (simp add: sample_deleted_def remove_forward_def sample_entry runtime_drop_def)
    (simp add: sample_pumping_def sample_connected_simps task_effects)

lemma sample_run_steps: "runs_of (fwd_step show_nat) fwd_start sample_run"
proof -
  have "fwd_step show_nat fwd_start sample_listening"
    unfolding sample_listening_def by (rule fwd_add)
  moreover have "fwd_step show_nat sample_listening (accept_conn 0 sample_listening)"
    by (rule fwd_accept) (simp_all add: sample_simps)
  moreover have "fwd_step show_nat (accept_conn 0 sample_listening) sample_connected"
    unfolding sample_connected_def
    by (rule fwd_open) (simp_all add: task_effects sample_simps hm_get_def)
  moreover have "fwd_step show_nat sample_connected sample_pumping"
    unfolding sample_pumping_def by (rule fwd_pump) (simp_all add: sample_connected_simps)
  moreover have "fwd_step show_nat sample_pumping sample_deleted"
    unfolding sample_deleted_def by (rule fwd_del)
  moreover have "fwd_step show_nat sample_deleted (listener_stop 0 sample_deleted)"
    by (rule fwd_accept_err) (simp_all add: sample_deleted_tasks)
  moreover have "fwd_step show_nat (listener_stop 0 sample_deleted) (conn_dropped 0 0 (listener_stop 0 sample_deleted))"
    by (rule fwd_conn_cancel [of 0]) (simp add: conn_cancels_def task_effects sample_deleted_tasks)
  ultimately show ?thesis
    unfolding sample_run_def by (intro halting_run_steps) simp_all
qed

lemma sample_run_fair: "weakly_fair (listener_cancels i) sample_run" "weakly_fair (conn_cancels i) sample_run"
  unfolding sample_run_def
  by (rule halting_run_fair; auto simp: listener_cancels_def conn_cancels_def task_effects
      sample_deleted_tasks remove_nth_def)+

theorem del_forward_tears_down_witness:
  "lt_running (tasks (sample_run 5) ! 0) \<and> (\<exists>m. \<not> addr_held (sample_run m) [58, 56]) \<and>
   (\<exists>m. \<forall>n\<ge>m. lt_conns (tasks (sample_run n) ! 0) = []) \<and>
   (\<exists>u. (fwd_step show_nat)\<^sup>*\<^sup>* (sample_run 5) u \<and> 1 \<in> set (detached u) \<and>
      1 \<notin> set (hm_keys (active (conns u))))"
proof -
  have at: "sample_run 4 = sample_pumping" "sample_run (Suc 4) = sample_deleted" "sample_run 5 = sample_deleted"
    by (simp_all add: sample_run_def halting_run_def)
  have del: "sample_run (Suc 4) = snd (remove_forward [58, 56] (sample_run 4))"
    unfolding at by (rule sample_deleted_def)
  have entry: "hm_get (table (sample_run 4)) [58, 56] =
      Some \<lparr>fr_remote = sample_remote, fr_persisted = True, fr_task = 0\<rparr>"
    by (simp only: at sample_entry)
  have port: "\<not> any_port [58, 56]" by (simp add: any_port_def)
  have fair: "\<forall>i. weakly_fair (listener_cancels i) sample_run" "\<forall>i. weakly_fair (conn_cancels i) sample_run"
    using sample_run_fair by blast+
  note down = del_forward_tears_down [OF sample_run_steps fair entry del, unfolded at(2)]
  have deleted: "lt_running (tasks sample_deleted ! 0)" "0 < length (lt_conns (tasks sample_deleted ! 0))"
    "stage_of sample_deleted 0 0 = Pumping 1 True"
    by (simp_all add: sample_deleted_tasks)
  have "\<exists>m. \<not> addr_held (sample_run m) [58, 56]" using down port by blast
  moreover have "\<exists>m. \<forall>n\<ge>m. lt_conns (tasks (sample_run n) ! 0) = []"
    using down [THEN conjunct2, THEN conjunct2, THEN conjunct1] by auto
  moreover have "\<exists>u. (fwd_step show_nat)\<^sup>*\<^sup>* sample_deleted u \<and> 1 \<in> set (detached u) \<and>
      1 \<notin> set (hm_keys (active (conns u)))"
    using down [THEN conjunct2, THEN conjunct2, THEN conjunct2, rule_format, of 0 1] deleted(2,3)
    unfolding forward_runtime.simps by blast
  ultimately show ?thesis unfolding at(3) using deleted(1) by blast
qed

end
