(* ===== verification/Pump_Timing.thy ===== *)
theory Pump_Timing
  imports Stream_Pump Fair_Runs
begin

text \<open>
  The time limit of \<open>pump_streams\<close> (\<open>tokio::time::timeout\<close> around the join of the download,
  \<open>src/proxy.rs\<close>). The pump runs beside a clock in the unit of its limit. The timer is
  armed when the call starts to wait for the download, and it can fire once the limit has
  passed since; everything else the pump does takes any time. That the runtime polls a call
  soon after it could return is a hypothesis on the run (\<open>prompt\<close>), not a rule.
\<close>

section \<open>The pump with a clock\<close>

record timed_pump =
  tp :: pump
  clock :: nat
  armed :: "nat option"

definition waiting :: "pump \<Rightarrow> bool" where
  "waiting p = (case mpc p of MWait _ \<Rightarrow> True | _ \<Rightarrow> False)"

text \<open>The step is the one in which the timer ends the wait.\<close>

definition fires :: "pump \<Rightarrow> pump \<Rightarrow> bool" where
  "fires p q = (waiting p \<and> (case mpc q of MRet (Inr st) \<Rightarrow> timed_out st | _ \<Rightarrow> False))"

definition expired :: "timed_pump \<Rightarrow> bool" where
  "expired s = (case (armed s, limit (tp s)) of (Some w, Some lim) \<Rightarrow> w + lim \<le> clock s | _ \<Rightarrow> False)"

inductive timed_step :: "timed_pump \<Rightarrow> timed_pump \<Rightarrow> bool" where
  act: "pump_step (tp s) p \<Longrightarrow> fires (tp s) p \<longrightarrow> expired s \<Longrightarrow>
     timed_step s (s\<lparr>tp := p, armed := (if waiting p \<and> \<not> waiting (tp s) then Some (clock s) else armed s)\<rparr>)"
| tick: "timed_step s (s\<lparr>clock := Suc (clock s)\<rparr>)"

inductive_cases timed_stepE: "timed_step s t"

definition timed_start :: "pump \<Rightarrow> timed_pump" where
  "timed_start p = \<lparr>tp = p, clock = 0, armed = None\<rparr>"

text \<open>
  What is assumed of a run: time goes on, and the runtime polls a call that could return at
  once within \<open>late\<close> units of time (a finished task and an expired timer wake the call).
\<close>

definition can_return :: "timed_pump \<Rightarrow> bool" where
  "can_return s \<longleftrightarrow> \<not> returned (tp s) \<and> (\<exists>t. timed_step s t \<and> returned (tp t))"

definition time_goes_on :: "(nat \<Rightarrow> timed_pump) \<Rightarrow> bool" where
  "time_goes_on run \<longleftrightarrow> (\<forall>T. \<exists>n. T \<le> clock (run n))"

definition prompt :: "nat \<Rightarrow> (nat \<Rightarrow> timed_pump) \<Rightarrow> bool" where
  "prompt late run \<longleftrightarrow> (\<forall>n m. n \<le> m \<longrightarrow> (\<forall>k. n \<le> k \<and> k \<le> m \<longrightarrow> can_return (run k)) \<longrightarrow>
     clock (run m) \<le> clock (run n) + late)"


section \<open>Facts of one step\<close>

lemma waitingD: "waiting p \<Longrightarrow> \<exists>u. mpc p = MWait u"
  by (simp add: waiting_def split: main_pc.splits)

lemma waiting_not_returned: "waiting p \<Longrightarrow> \<not> returned p"
  by (auto simp: waiting_def returned_def split: main_pc.splits)

lemma timed_pump_step: "timed_step s t \<Longrightarrow> pump_step (tp s) (tp t) \<and> clock t = clock s \<or>
    tp t = tp s \<and> clock t = Suc (clock s) \<and> armed t = armed s"
  by (erule timed_stepE) auto

text \<open>A wait ends only by a return, with the same count of uploaded bytes until then.\<close>

lemma wait_step:
  assumes "timed_step s t" and "mpc (tp s) = MWait u"
  shows "returned (tp t) \<and> clock t = clock s \<or>
    mpc (tp t) = MWait u \<and> armed t = armed s \<and> clock t \<le> Suc (clock s)"
  using assms
  by (auto elim!: timed_stepE pump_stepE simp: returned_def waiting_def)

lemma enter_step: "timed_step s t \<Longrightarrow> waiting (tp t) \<Longrightarrow> \<not> waiting (tp s) \<Longrightarrow> armed t = Some (clock t)"
  by (erule timed_stepE) auto

text \<open>How a wait can end: with what the download left, or by the timer.\<close>

lemma return_step:
  assumes "timed_step s t" and "mpc (tp s) = MWait u" and "mpc (tp t) = MRet r"
  shows "case r of
      Inl e \<Rightarrow> dpc (tp s) = DDone (Inl e) \<or> (\<exists>c. dpc (tp s) = DPanicked c \<and> e = task_panicked c)
    | Inr st \<Rightarrow>
        (if timed_out st then expired s \<and> down_running (dpc (tp s)) \<and> abort_req (tp t) \<and> down_bytes st = 0
         else dpc (tp s) = DDone (Inr (down_bytes st)))"
  using assms
  by (auto elim!: timed_stepE pump_stepE simp: fires_def waiting_def)

text \<open>A waiting call whose download has ended or whose timer has expired can return.\<close>

lemma expired_can_return:
  assumes "mpc (tp s) = MWait u" and "expired s" and "dpc (tp s) \<noteq> DAborted"
  shows "can_return s"
proof -
  obtain lim where lim: "limit (tp s) = Some lim"
    using assms(2) by (auto simp: expired_def split: option.splits)
  have "\<exists>p. pump_step (tp s) p \<and> returned p"
  proof (cases "down_running (dpc (tp s))")
    case True
    from pump_step.timeout [OF assms(1) lim this] show ?thesis by (force simp: returned_def)
  next
    case False
    show ?thesis
    proof (cases "dpc (tp s)")
      case (DDone r)
      with assms(1) show ?thesis
        using join_ok [of "tp s" u] join_err [of "tp s" u] by (cases r) (force simp: returned_def)+
    next
      case (DPanicked e)
      from join_panic [OF assms(1) this] show ?thesis by (force simp: returned_def)
    qed (use False assms(3) in \<open>simp_all add: down_running_def\<close>)
  qed
  then obtain p where p: "pump_step (tp s) p" "returned p" by blast
  from act [OF p(1)] assms(1,2) p(2) show ?thesis
    unfolding can_return_def by (auto simp: returned_def)
qed


section \<open>Runs\<close>

lemma timed_pump_steps: "timed_step\<^sup>*\<^sup>* s t \<Longrightarrow> pump_step\<^sup>*\<^sup>* (tp s) (tp t)"
proof (induction rule: rtranclp_induct)
  case (step t u)
  then show ?case using timed_pump_step [OF step(2)] by (auto intro: rtranclp.rtrancl_into_rtrancl)
qed simp

lemma timed_reach:
  assumes "runs_of timed_step (timed_start (pump_start uin ur din dr t)) run"
  shows "pump_inv uin din (tp (run n))" "limit (tp (run n)) = t"
proof -
  have "pump_step\<^sup>*\<^sup>* (pump_start uin ur din dr t) (tp (run n))"
    using timed_pump_steps [OF run_reach [OF assms, of n]] by (simp add: timed_start_def)
  from pump_reach_inv [OF this] limit_fixed [OF this]
  show "pump_inv uin din (tp (run n))" "limit (tp (run n)) = t" by (simp_all add: pump_start_def)
qed

lemma clock_mono:
  assumes "runs_of timed_step start run" and "k \<le> n"
  shows "clock (run k) \<le> clock (run n)"
  using assms(2)
proof (induction n rule: dec_induct)
  case (step n)
  have "timed_step (run n) (run (Suc n)) \<or> run (Suc n) = run n" using assms(1) by (simp add: runs_of_def)
  with step.IH timed_pump_step [of "run n" "run (Suc n)"] show ?case by auto
qed simp

text \<open>A waiting call began to wait at some moment, when the timer was armed.\<close>

definition waits :: "(nat \<Rightarrow> timed_pump) \<Rightarrow> nat \<Rightarrow> nat \<Rightarrow> nat \<Rightarrow> bool" where
  "waits run u e n \<longleftrightarrow> 0 < e \<and> e \<le> n \<and> \<not> waiting (tp (run (e - 1))) \<and>
     (\<forall>k. e \<le> k \<and> k \<le> n \<longrightarrow> mpc (tp (run k)) = MWait u \<and> armed (run k) = Some (clock (run e)))"

lemma wait_origin:
  assumes run: "runs_of timed_step (timed_start (pump_start uin ur din dr t)) run"
    and "mpc (tp (run n)) = MWait u"
  shows "\<exists>e. waits run u e n"
  using assms(2)
proof (induction n)
  case 0
  then show ?case using run by (simp add: runs_of_def timed_start_def pump_start_def)
next
  case (Suc n)
  have next_step: "timed_step (run n) (run (Suc n)) \<or> run (Suc n) = run n" using run by (simp add: runs_of_def)
  show ?case
  proof (cases "waiting (tp (run n))")
    case True
    then obtain u' where "mpc (tp (run n)) = MWait u'" by (blast dest: waitingD)
    with next_step Suc.prems wait_step [of "run n" "run (Suc n)" u']
    have same: "mpc (tp (run n)) = MWait u" "armed (run (Suc n)) = armed (run n)"
      by (auto simp: returned_def)
    then obtain e where "waits run u e n" using Suc.IH by blast
    with same Suc.prems show ?thesis by (intro exI [of _ e]) (auto simp: waits_def le_Suc_eq)
  next
    case False
    with next_step Suc.prems have "timed_step (run n) (run (Suc n))" by (auto simp: waiting_def)
    from enter_step [OF this] False Suc.prems show ?thesis
      by (intro exI [of _ "Suc n"]) (auto simp: waits_def waiting_def le_antisym)
  qed
qed

text \<open>While a call waits, the clock does not pass its deadline by more than \<open>late\<close>.\<close>

lemma wait_bounded:
  assumes run: "runs_of timed_step (timed_start (pump_start uin ur din dr (Some lim))) run"
    and late: "prompt late run" and waits: "waits run u e n"
  shows "clock (run n) \<le> clock (run e) + lim + late"
proof (cases "clock (run n) < clock (run e) + lim")
  case False
  let ?due = "\<lambda>k. e \<le> k \<and> clock (run e) + lim \<le> clock (run k)"
  define d where "d = (LEAST k. ?due k)"
  have n: "?due n" using False waits by (simp add: waits_def)
  have d: "?due d" "d \<le> n"
    using LeastI [of ?due, OF n] Least_le [of ?due, OF n] by (simp_all add: d_def)
  have at: "clock (run d) \<le> clock (run e) + lim"
  proof (cases "d = e")
    case False
    then obtain k where k: "d = Suc k" "e \<le> k" using d(1) by (cases d) auto
    then have "\<not> ?due k" using not_less_Least [of k ?due] by (simp add: d_def)
    moreover have "timed_step (run k) (run d) \<or> run d = run k" using run k(1) by (simp add: runs_of_def)
    ultimately show ?thesis using k(2) timed_pump_step [of "run k" "run d"] by auto
  qed simp
  have "can_return (run k)" if "d \<le> k" "k \<le> n" for k
  proof (rule expired_can_return)
    show "mpc (tp (run k)) = MWait u" using waits d(1) that by (simp add: waits_def)
    then show "dpc (tp (run k)) \<noteq> DAborted"
      using timed_reach(1) [OF run, of k] by (auto simp: pump_inv_def join_inv_def)
    have "armed (run k) = Some (clock (run e))" using waits d(1) that by (simp add: waits_def)
    then show "expired (run k)"
      using timed_reach(2) [OF run, of k] clock_mono [OF run that(1)] d(1) by (simp add: expired_def)
  qed
  with late d(2) have "clock (run n) \<le> clock (run d) + late" by (simp add: prompt_def)
  with at show ?thesis by simp
qed simp

text \<open>So it does not wait for ever, and there is a step in which it returns.\<close>

lemma wait_ends:
  assumes run: "runs_of timed_step (timed_start (pump_start uin ur din dr (Some lim))) run"
    and "time_goes_on run" and late: "prompt late run" and "waits run u e n"
  obtains m r where "n \<le> m" "waits run u e m" "timed_step (run m) (run (Suc m))"
    "mpc (tp (run (Suc m))) = MRet r" "clock (run (Suc m)) = clock (run m)"
proof -
  have "\<exists>m\<ge>n. waits run u e m \<and> \<not> waits run u e (Suc m)"
  proof (rule ccontr)
    assume *: "\<not> (\<exists>m\<ge>n. waits run u e m \<and> \<not> waits run u e (Suc m))"
    have all: "waits run u e m" if "n \<le> m" for m
      using that by (induction m rule: dec_induct) (use assms(4) * in auto)
    obtain N where N: "clock (run e) + lim + late < clock (run N)"
      using assms(2) by (auto simp: time_goes_on_def Suc_le_eq dest: spec [of _ "Suc (clock (run e) + lim + late)"])
    have "clock (run N) \<le> clock (run (max n N))" by (rule clock_mono [OF run]) simp
    moreover have "clock (run (max n N)) \<le> clock (run e) + lim + late"
      by (rule wait_bounded [OF run late all]) simp
    ultimately show False using N by simp
  qed
  then obtain m where m: "n \<le> m" "waits run u e m" "\<not> waits run u e (Suc m)" by blast
  then have u: "mpc (tp (run m)) = MWait u" "armed (run m) = Some (clock (run e))" by (simp_all add: waits_def)
  have "\<not> (mpc (tp (run (Suc m))) = MWait u \<and> armed (run (Suc m)) = armed (run m))"
    using m(2,3) u(2) by (auto simp: waits_def le_Suc_eq)
  moreover have "timed_step (run m) (run (Suc m)) \<or> run (Suc m) = run m" using run by (simp add: runs_of_def)
  ultimately have "timed_step (run m) (run (Suc m))" "returned (tp (run (Suc m)))" "clock (run (Suc m)) = clock (run m)"
    using wait_step [OF _ u(1), of "run (Suc m)"] u(1) by auto
  with m that show thesis by (auto simp: returned_def split: main_pc.splits)
qed


section \<open>Properties\<close>

text \<open>C28. A silent or slow peer cannot hold the call when a limit is configured. On every run
  on which time goes on and the runtime polls a call that could return within \<open>late\<close>: a
  call that waits for its download began to wait at some moment, right after its upload was
  complete, and returns no later than the limit and \<open>late\<close> after that moment. If it
  returns with the timeout recorded, the limit has passed since that moment, the download
  was still running, its abort is requested and its bytes are counted as 0; otherwise it
  returns what the download ended with. Every result has the full count of the upload.\<close>

theorem pump_timeout_returns:
  assumes "runs_of timed_step (timed_start (pump_start uin ur din dr (Some lim))) run"
    and "time_goes_on run" and "prompt late run" and "mpc (tp (run n)) = MWait u"
  shows "\<exists>e m r. 0 < e \<and> e \<le> n \<and> n \<le> m \<and> \<not> waiting (tp (run (e - 1))) \<and>
    (\<forall>k. e \<le> k \<and> k \<le> m \<longrightarrow> waiting (tp (run k))) \<and> sink (up (tp (run e))) = payload uin \<and>
    mpc (tp (run (Suc m))) = MRet r \<and> clock (run (Suc m)) \<le> clock (run e) + lim + late \<and>
    (case r of
       Inr st \<Rightarrow> up_bytes st = length (payload uin) \<and>
         (if timed_out st
          then clock (run e) + lim \<le> clock (run (Suc m)) \<and> down_running (dpc (tp (run m))) \<and>
            abort_req (tp (run (Suc m))) \<and> down_bytes st = 0
          else dpc (tp (run m)) = DDone (Inr (down_bytes st)))
     | Inl er \<Rightarrow> dpc (tp (run m)) = DDone (Inl er) \<or>
         (\<exists>c. dpc (tp (run m)) = DPanicked c \<and> er = task_panicked c))"
proof -
  note run = assms(1)
  obtain e where e: "waits run u e n" using wait_origin [OF run assms(4)] by blast
  obtain m r where m: "n \<le> m" "waits run u e m" "timed_step (run m) (run (Suc m))"
    "mpc (tp (run (Suc m))) = MRet r" "clock (run (Suc m)) = clock (run m)"
    by (rule wait_ends [OF run assms(2,3) e])
  have at: "mpc (tp (run m)) = MWait u" "armed (run m) = Some (clock (run e))" "mpc (tp (run e)) = MWait u"
    using m(2) by (simp_all add: waits_def)
  have "sink (up (tp (run e))) = payload uin"
    using timed_reach(1) [OF run, of e] at(3) by (auto simp: pump_inv_def up_inv_def copy_inv_def)
  moreover have "case r of Inr st \<Rightarrow> up_bytes st = length (payload uin) | Inl er \<Rightarrow> True"
    using timed_reach(1) [OF run, of "Suc m"] m(4)
    by (auto simp: pump_inv_def up_inv_def copy_inv_def split: sum.splits)
  moreover have "expired (run m) \<longleftrightarrow> clock (run e) + lim \<le> clock (run (Suc m))"
    using timed_reach(2) [OF run, of m] at(2) m(5) by (simp add: expired_def)
  ultimately show ?thesis
    using e m(1,2,4) return_step [OF m(3) at(1) m(4)] wait_bounded [OF run assms(3) m(2)] m(5)
    by - (rule exI [of _ e], rule exI [of _ m], rule exI [of _ r], cases r;
      simp add: waits_def waiting_def split: if_splits)
qed

text \<open>
  For the witness: a finite run that ends with the return of the call goes on with time
  alone, and is prompt for any lateness its clock does not exceed.
\<close>

definition then_ticks :: "(nat \<Rightarrow> timed_pump) \<Rightarrow> nat \<Rightarrow> nat \<Rightarrow> timed_pump" where
  "then_ticks f n k = (if k \<le> n then f k else (f n)\<lparr>clock := clock (f n) + (k - n)\<rparr>)"

lemma then_ticks_run:
  assumes "f 0 = start" and "\<And>k. k < n \<Longrightarrow> timed_step (f k) (f (Suc k))"
  shows "runs_of timed_step start (then_ticks f n)"
proof -
  have "timed_step (then_ticks f n k) (then_ticks f n (Suc k))" for k
  proof (cases "k < n")
    case True
    then show ?thesis using assms(2) by (simp add: then_ticks_def)
  next
    case False
    then show ?thesis using tick [of "then_ticks f n k"] by (auto simp: then_ticks_def Suc_diff_le)
  qed
  then show ?thesis using assms(1) by (simp add: runs_of_def then_ticks_def)
qed

lemma then_ticks_time: "time_goes_on (then_ticks f n)"
  unfolding time_goes_on_def by (intro allI, rule_tac x = "n + Suc T" in exI) (simp add: then_ticks_def)

lemma then_ticks_prompt:
  assumes run: "runs_of timed_step start (then_ticks f n)" and "returned (tp (f n))"
  shows "prompt (clock (f n)) (then_ticks f n)"
  unfolding prompt_def
proof (intro allI impI)
  fix i k assume *: "i \<le> k" "\<forall>j. i \<le> j \<and> j \<le> k \<longrightarrow> can_return (then_ticks f n j)"
  then have "\<not> returned (tp (then_ticks f n k))" by (simp add: can_return_def)
  then have "k \<le> n" using assms(2) by (auto simp: then_ticks_def split: if_splits)
  then show "clock (then_ticks f n k) \<le> clock (then_ticks f n i) + clock (f n)"
    using clock_mono [OF run, of k n] by (simp add: then_ticks_def)
qed

lemma returned_stays: "pump_step\<^sup>*\<^sup>* p q \<Longrightarrow> returned p \<Longrightarrow> returned q"
  by (induction rule: rtranclp_induct) (auto elim!: pump_stepE simp: returned_def)

lemma timed_lift:
  assumes "pump_step\<^sup>*\<^sup>* p q" and "\<not> returned q"
  shows "\<exists>w. timed_step\<^sup>*\<^sup>* (timed_start p) \<lparr>tp = q, clock = 0, armed = w\<rparr> \<and> (waiting p \<or> (waiting q \<longrightarrow> w = Some 0))"
  using assms
proof (induction rule: rtranclp_induct)
  case base
  then show ?case by (auto simp: timed_start_def)
next
  case (step q r)
  then have "\<not> returned q" using returned_stays [of q r] by blast
  with step obtain w where w: "timed_step\<^sup>*\<^sup>* (timed_start p) \<lparr>tp = q, clock = 0, armed = w\<rparr>"
    "waiting p \<or> (waiting q \<longrightarrow> w = Some 0)" by blast
  have "\<not> fires q r" using step.prems by (auto simp: fires_def returned_def split: main_pc.splits sum.splits)
  with act [of "\<lparr>tp = q, clock = 0, armed = w\<rparr>" r] step(2)
  have "timed_step \<lparr>tp = q, clock = 0, armed = w\<rparr>
      \<lparr>tp = r, clock = 0, armed = (if waiting r \<and> \<not> waiting q then Some 0 else w)\<rparr>" by (simp cong: if_cong)
  with w show ?case by (intro exI [of _ "if waiting r \<and> \<not> waiting q then Some 0 else w"])
      (auto intro: rtranclp.rtrancl_into_rtrancl)
qed

theorem pump_timeout_returns_witness:
  "\<exists>run n e r. runs_of timed_step (timed_start (pump_start [Data [5], Eof] 4 [] 0 (Some 2))) run \<and>
     mpc (tp (run n)) = MWait 1 \<and> (\<exists>m\<ge>n. mpc (tp (run m)) = MRet r \<and> clock (run m) \<le> clock (run e) + 4)"
proof -
  let ?s0 = "timed_start (pump_start [Data [5], Eof] 4 [] 0 (Some 2))"
  obtain q where q: "pump_step\<^sup>*\<^sup>* (pump_start [Data [5], Eof] 4 [] 0 (Some 2)) q" "mpc q = MWait 1"
    "dpc q = DCopy" "limit q = Some 2"
    using upload_run [of "[Data [5], Eof]" 4 "[]" 0 "Some 2"] by auto
  let ?s1 = "\<lparr>tp = q, clock = 0, armed = Some 0\<rparr>"
  let ?s2 = "?s1\<lparr>clock := Suc (clock ?s1)\<rparr>"
  let ?s3 = "?s2\<lparr>clock := Suc (clock ?s2)\<rparr>"
  let ?p = "q\<lparr>mpc := MRet (Inr \<lparr>up_bytes = 1, down_bytes = 0, timed_out = True\<rparr>), abort_req := True\<rparr>"
  have "timed_step\<^sup>*\<^sup>* ?s0 ?s1"
    using timed_lift [OF q(1)] q(2) by (auto simp: returned_def waiting_def pump_start_def)
  then obtain i where "(timed_step ^^ i) ?s0 ?s1" using rtranclp_imp_relpowp by fastforce
  then obtain f where f: "f 0 = ?s0" "f i = ?s1" "\<And>k. k < i \<Longrightarrow> timed_step (f k) (f (Suc k))"
    by (auto simp: relpowp_fun_conv)
  have "pump_step q ?p" by (rule pump_step.timeout [OF q(2,4)]) (simp add: q(3) down_running_def)
  with act [of ?s3 ?p] q(4) have fire: "timed_step ?s3 (?s3\<lparr>tp := ?p\<rparr>)"
    by (simp add: expired_def waiting_def)
  define g where "g k = (if k \<le> i then f k else if k = Suc i then ?s2 else if k = Suc (Suc i) then ?s3
    else ?s3\<lparr>tp := ?p\<rparr>)" for k
  have steps: "timed_step (g k) (g (Suc k))" if "k < Suc (Suc (Suc i))" for k
    using that f(2,3) tick [of ?s1] tick [of ?s2] fire by (auto simp: g_def less_Suc_eq)
  let ?run = "then_ticks g (Suc (Suc (Suc i)))"
  have run: "runs_of timed_step ?s0 ?run" by (rule then_ticks_run) (simp add: g_def f(1), rule steps)
  have late: "prompt 2 ?run" using then_ticks_prompt [OF run] by (simp add: g_def returned_def eval_nat_numeral)
  have wait: "mpc (tp (?run i)) = MWait 1" by (simp add: then_ticks_def g_def f(2) q(2))
  from pump_timeout_returns [OF run then_ticks_time late wait]
  obtain e m r where "i \<le> m" "mpc (tp (?run (Suc m))) = MRet r" "clock (?run (Suc m)) \<le> clock (?run e) + 2 + 2"
    by metis
  with run wait show ?thesis
    by (intro exI [of _ ?run] exI [of _ i] exI [of _ e] exI [of _ r] conjI exI [of _ "Suc m"]) auto
qed

end
