(* ===== verification/Spec2Isabelle.thy ===== *)
theory Spec2Isabelle
  imports Remote_Path Retry_Policy Stream_Pump Tunnel Endpoint Forward_Client Service_Reach Hash_Map Conn_Registry Serve_Routes
    Forward_Table Proxy_Service Alpn_Sync Diagnostics Incoming Fault_Fs Config_File Secret_Keys
    Server_Daemon Control_Client Cli_Commands Cli_Status
    Tui_State Tui_Labels Tui_Keys Tui_Invariant Tui_Draw
    Systemd_Unit Build_Date Build_Info Fd_Passing Cli_Server Control_Socket Control_Peers
    Control_Link Cli_Main Terminal_Session Fair_Runs Forward_Teardown Pump_Timing
begin

text \<open>
  A verification development of iroh-proxy, a tool that publishes local TCP services over
  iroh and forwards local ports to them. It models the Rust sources below \<open>src/\<close> and the
  build script \<open>build.rs\<close>.

  \<^bold>\<open>The program.\<close> A daemon (\<open>server\<close>) owns an iroh endpoint, a table of served routes and a
  table of forwards with one listener task each. A peer's connection names a service in its ALPN;
  the daemon dials the local target and pumps bytes in both directions. A local connection to a
  forwarded address makes the daemon connect to a remote endpoint, with retries, and pump likewise.
  Both kinds of connection are in a registry while they live. A control interface
  (\<open>dev.iroh.Proxy\<close>, over the session bus on Linux and over a private socket elsewhere) lets the
  command line and the terminal interface read and change the two tables; the rules may also be
  stored in a configuration file, from which the daemon starts. Standalone commands forward
  without a daemon, among them one that passes a socket to OpenSSH.

  \<^bold>\<open>Ground.\<close> \<open>Prelude\<close> has results and actions (\<open>act\<close>: a state in, a result and a state out),
  Hoare triples over them, and the interfaces of step systems as locales. \<open>Text\<close> models Rust strings
  and their UTF-8 bytes, \<open>Errors\<close> chains of causes and I/O errors, \<open>Hash_Map\<close> the standard
  map, \<open>Fault_Fs\<close> a file system in which every call may fail and other processes act in between,
  \<open>Fair_Runs\<close> infinite runs of a step relation under a fair scheduler.

  \<^bold>\<open>Theories and sources.\<close>
  \<^item> \<open>Remote_Path\<close>: \<open>remote_path.rs\<close>, the parser and its round trip.
  \<^item> \<open>Retry_Policy\<close>, \<open>Endpoint\<close>, \<open>Stream_Copy\<close>, \<open>Stream_Pump\<close>, \<open>Forward_Client\<close>: \<open>proxy.rs\<close>
    and \<open>forward.rs\<close>. The retry loop runs against an environment of attempts and timer delays; an
    endpoint connects with it under the ALPN of a remote path; the pump is a step relation of two copy tasks with join, timeout and abort.
    \<open>Pump_Timing\<close> puts a clock and the armed timer beside it. \<open>Tunnel\<close> joins the pumps of both ends by a network that delays and breaks as it likes.
  \<^item> \<open>Conn_Registry\<close>, \<open>Serve_Routes\<close>, \<open>Incoming\<close>, \<open>Diagnostics\<close>, \<open>Forward_Table\<close>: the tables
    and tasks of \<open>daemon/connections.rs\<close>, \<open>routes.rs\<close>, \<open>diagnostics.rs\<close> and \<open>forwards.rs\<close>.
    \<open>Forward_Teardown\<close> follows a deleted forward to the end of its listener and connections.
  \<^item> \<open>Proxy_Service\<close>, \<open>Alpn_Sync\<close>: \<open>daemon/service.rs\<close>, every control call against an abstract
    specification of served names and forwarded addresses, and the calls as interleaved steps.
  \<^item> \<open>Config_File\<close>, \<open>Secret_Keys\<close>: \<open>config.rs\<close> and \<open>keys.rs\<close> over \<open>Fault_Fs\<close>.
  \<^item> \<open>Server_Daemon\<close>: \<open>daemon/mod.rs\<close>, startup from a configuration to the end by signal.
    \<open>Service_Reach\<close> follows a remote path from its parser on the client to the target that the
    server's handler dials.
  \<^item> \<open>Control_Client\<close>: \<open>control.rs\<close>, calls over a link that may be down or lose a call or
    a reply, with other clients acting in between.
  \<^item> \<open>Control_Socket\<close>, \<open>Control_Peers\<close>: \<open>daemon/control_plane.rs\<close>, the socket with its
    stale rebind, and the tasks that accept peers, tell them of changes and forget them.
    \<open>Control_Link\<close> puts the start of the server and the connection of a client together.
  \<^item> \<open>Cli_Commands\<close>, \<open>Cli_Status\<close>, \<open>Cli_Server\<close>, \<open>Cli_Main\<close>: \<open>main.rs\<close> and the commands of
    \<open>cli.rs\<close>; \<open>Cli_Main\<close> dispatches them and composes two invocations.
  \<^item> \<open>Tui_State\<close>, \<open>Tui_Labels\<close>, \<open>Tui_Keys\<close>, \<open>Tui_Draw\<close>, \<open>Tui_Invariant\<close>, \<open>Terminal_Session\<close>:
    \<open>tui.rs\<close>, its state, texts, keys and widgets, and the edges to the terminal.
  \<^item> \<open>Systemd_Unit\<close>, \<open>Fd_Passing\<close>, \<open>Build_Date\<close>, \<open>Build_Info\<close>: \<open>systemd.rs\<close>, \<open>fdpass.rs\<close>,
    \<open>build.rs\<close> and \<open>version.rs\<close>.

  \<^bold>\<open>What is shown.\<close> The transfer of a connection is complete unless it says otherwise and always
  ends (\<open>Stream_Pump\<close>), also end to end (\<open>Tunnel\<close>); a silent peer holds it no longer than the
  configured limit (\<open>Pump_Timing\<close>); retries stop where they should (\<open>Retry_Policy\<close>). The tables of the daemon
  agree with each other, with the registry and with the ALPNs of the endpoint, for every sequence
  of calls and every interleaving of its tasks; every call implements its specification; a remote
  path leads to the configured target of its service and to nothing else. A deleted forward frees
  its address and loses its connections, on every fair run (\<open>Forward_Teardown\<close>). Files
  are replaced atomically, keys are never overwritten and are locked by one server. A command that
  changes the daemon and the configuration changes both or says what is left, the dialogs of the
  terminal interface do the same, and what was stored is in force after a restart. Peers of the
  control plane get every change once and in order, and the socket admits only its owner. The unit
  of systemd, read back by any reader that follows systemd's rules for quoted words, starts the
  intended command; the relay of an fd-passing session ends up
  with its own end only; the build date is the calendar's. Some theorems pin down flaws:
  overlapping additions can lose an ALPN, a failed accept leaves a dead entry, an error of the
  existence check loses rules, a failed write of a key blocks later starts, a stale cleanup can
  remove a live socket, a removal can miss another spelling, the download of a connection can
  outlive the forward it belonged to.

  \<^bold>\<open>Interfaces.\<close> \<open>step_system\<close> and \<open>measured_step_system\<close> carry the invariants and the
  termination of the registry, the forwards, the pump and the control peers; \<open>keyed_table\<close> what
  the tables rely on of the map; \<open>rule_list\<close> what the two kinds of rules in the configuration
  share; \<open>runtime_rules\<close> and \<open>reliable_rules\<close> what the add commands rely on of the daemon;
  \<open>control_listener\<close> what the rebind relies on of a platform; \<open>cycle\<close> the focus of the terminal
  interface; \<open>fair_descent\<close> progress under fairness, of a stopping listener task and of its
  connections. Each is interpreted on the definitions of the model.

  \<^bold>\<open>Bounds.\<close> Runs of the retry loop end by a measure on attempts; the wait for a server is 30 polls
  of 200 ms, as in the code, and the polls take the time besides that the environment gives them,
  on which the code sets no limit; environments (turns of other processes, link faults, events) are
  finite lists, and past their end nothing interferes. Identifiers are 64-bit words; statements
  that need them distinct say how many there are. The loop that sends a descriptor is \<open>None\<close> when
  it is interrupted for ever. The timer of the pump counts in the unit of its limit; how late the
  runtime may notice it is a number of the statement.

  \<^bold>\<open>Parameters.\<close> Not under \<open>src/\<close>, and so arguments of the model: the iroh endpoint and its
  connections, zbus, TOML, the key type, the operating system's answers. Hypotheses about them are
  \<open>toml_ok\<close> (a text that was written is read back), valid strings in what TOML reads,
  \<open>systemd_reader\<close> (how systemd reads double-quoted words free of \<open>%\<close> and \<open>$\<close>), and two of the
  tokio runtime: an aborted task is dropped at some time (\<open>weakly_fair\<close>) and a call that could return
  is polled soon (\<open>prompt\<close>). \<open>Hash_Map\<close> lists its entries in the order of insertion, the
  standard map in any; the statements about listings are up to order.

  \<^bold>\<open>Not modelled.\<close> The parser that clap derives from \<open>cli.rs\<close> (the model starts from its result),
  the setup of tracing and the log lines that only accompany a result (the records of incoming and of
  forwarded connections and of control peers are modelled), building a zbus or an iroh connection, splitting an area and painting a
  widget (ratatui), and the tests. The lock on the key file is held to the end of the process in
  the model, as the daemon does; its release is not an operation of the model.
\<close>

end
